(* ===== verification/Prelude.thy ===== *)
theory Prelude
  imports Main "HOL-Library.Multiset"
begin

section \<open>Prelude: shared collections, Go arithmetic, sorting and errors\<close>

text \<open>
  What the component theories share: the named theorem collections, Go's truncating integer
  division, the insertion sort that the engine package writes out three times
  (\<^verbatim>\<open>sortIntervals\<close>, \<^verbatim>\<open>sortByScore\<close>, \<^verbatim>\<open>sortSlotsByScore\<close>) with its correctness proved
  once in the locale \<open>key_sorter\<close>, and the error values that travel between packages.
\<close>

named_theorems time_simps \<open>instants, wall clocks and zone lookups\<close>
named_theorems ivl_simps \<open>intervals, overlap and coverage\<close>

subsection \<open>Go integer division\<close>

text \<open>Go's \<^verbatim>\<open>/\<close> on integers truncates towards zero; HOL's \<open>div\<close> rounds down.\<close>

definition go_quot :: "int \<Rightarrow> int \<Rightarrow> int" where
  "go_quot a b = sgn a * sgn b * (\<bar>a\<bar> div \<bar>b\<bar>)"

definition go_rem :: "int \<Rightarrow> int \<Rightarrow> int" where
  "go_rem a b = a - b * go_quot a b"

lemma go_quot_nonneg: "0 \<le> a \<Longrightarrow> 0 < b \<Longrightarrow> go_quot a b = a div b"
  by (cases "a = 0") (auto simp: go_quot_def)

lemma go_quot_neg: "a \<le> 0 \<Longrightarrow> 0 < b \<Longrightarrow> go_quot a b = - ((- a) div b)"
  by (cases "a = 0") (auto simp: go_quot_def)

lemma go_quot_mult_self [simp]: "0 < b \<Longrightarrow> go_quot (a * b) b = a"
  by (cases "a = 0") (auto simp: go_quot_def abs_mult sgn_mult abs_sgn mult.commute)

lemma go_quot_le: "0 < b \<Longrightarrow> 0 \<le> a \<Longrightarrow> go_quot a b * b \<le> a"
  by (metis div_mod_decomp_int go_quot_nonneg le_add_same_cancel1 pos_mod_sign)

lemma go_quot_lt: "0 < b \<Longrightarrow> 0 \<le> a \<Longrightarrow> a < (go_quot a b + 1) * b"
proof -
  assume b: "0 < b" and a: "0 \<le> a"
  have "a = a div b * b + a mod b" by simp
  moreover have "a mod b < b" using b by (rule pos_mod_bound)
  ultimately have "a < a div b * b + b" by linarith
  then show ?thesis using a b by (simp add: go_quot_nonneg distrib_right)
qed

lemma go_quot_nonneg_iff: "0 < b \<Longrightarrow> 0 \<le> a \<Longrightarrow> 0 \<le> go_quot a b"
  by (simp add: go_quot_nonneg pos_imp_zdiv_nonneg_iff)

lemma go_quot_neg_le_0: "0 < b \<Longrightarrow> a \<le> 0 \<Longrightarrow> go_quot a b \<le> 0"
  by (simp add: go_quot_neg pos_imp_zdiv_nonneg_iff)

lemma go_quot_pos_le:
  assumes "0 < b" "0 < n" "n \<le> go_quot a b"
  shows "n * b \<le> a"
proof -
  have "0 \<le> a"
    using assms go_quot_neg_le_0 [of b a] by linarith
  then have "go_quot a b * b \<le> a"
    using assms go_quot_le by blast
  moreover have "n * b \<le> go_quot a b * b"
    using assms by (simp add: mult_right_mono)
  ultimately show ?thesis by linarith
qed

subsection \<open>The insertion sort of the engine package\<close>

text \<open>
  The source sorts a slice in place:
  \<^verbatim>\<open>for i := 1; i < len(a); i++ { for j := i; j > 0 && less(a[j], a[j-1]); j-- { swap } }\<close>.
  Element \<open>i\<close> is moved left over the sorted prefix while it is less than its left neighbour.
  The prefix is kept reversed, so that moving left is a walk down the list.
\<close>

fun sift :: "('a \<Rightarrow> 'a \<Rightarrow> bool) \<Rightarrow> 'a \<Rightarrow> 'a list \<Rightarrow> 'a list" where
  "sift lt x [] = [x]"
| "sift lt x (y # ys) = (if lt x y then y # sift lt x ys else x # y # ys)"

definition insertion_sort :: "('a \<Rightarrow> 'a \<Rightarrow> bool) \<Rightarrow> 'a list \<Rightarrow> 'a list" where
  "insertion_sort lt xs = rev (foldl (\<lambda>rp x. sift lt x rp) [] xs)"

lemma mset_sift [simp]: "mset (sift lt x ys) = add_mset x (mset ys)"
  by (induction ys) auto

lemma set_sift [simp]: "set (sift lt x ys) = insert x (set ys)"
  by (metis mset_sift set_mset_add_mset_insert set_mset_mset)

lemma mset_foldl_sift: "mset (foldl (\<lambda>rp x. sift lt x rp) acc xs) = mset acc + mset xs"
  by (induction xs arbitrary: acc) auto

lemma mset_insertion_sort [simp]: "mset (insertion_sort lt xs) = mset xs"
  by (simp add: insertion_sort_def mset_foldl_sift)

lemma set_insertion_sort [simp]: "set (insertion_sort lt xs) = set xs"
  by (metis mset_insertion_sort set_mset_mset)

lemma length_insertion_sort [simp]: "length (insertion_sort lt xs) = length xs"
  by (metis mset_insertion_sort size_mset)

lemma insertion_sort_Nil [simp]: "insertion_sort lt [] = []"
  by (simp add: insertion_sort_def)

lemma insertion_sort_Nil_iff [simp]: "insertion_sort lt xs = [] \<longleftrightarrow> xs = []"
  by (metis length_0_conv length_insertion_sort)

text \<open>
  The contract of a comparison the source sorts by: it compares an integer key. Under it the
  insertion sort is the library's stable \<open>sort_key\<close>.
\<close>

locale key_sorter =
  fixes lt :: "'a \<Rightarrow> 'a \<Rightarrow> bool"
    and key :: "'a \<Rightarrow> int"
  assumes less_key: "lt a b \<longleftrightarrow> key a < key b"
begin

lemma sift_sorted:
  "sorted_wrt (\<lambda>a b. key b \<le> key a) ys \<Longrightarrow> sorted_wrt (\<lambda>a b. key b \<le> key a) (sift lt x ys)"
  by (induction ys) (auto simp: less_key)

lemma foldl_sift_sorted:
  "sorted_wrt (\<lambda>a b. key b \<le> key a) acc \<Longrightarrow>
   sorted_wrt (\<lambda>a b. key b \<le> key a) (foldl (\<lambda>rp x. sift lt x rp) acc xs)"
  by (induction xs arbitrary: acc) (auto simp: sift_sorted)

lemma insertion_sort_sorted_wrt: "sorted_wrt (\<lambda>a b. key a \<le> key b) (insertion_sort lt xs)"
  using foldl_sift_sorted [of "[]" xs] by (simp add: insertion_sort_def sorted_wrt_rev)

lemma insertion_sort_sorted: "sorted (map key (insertion_sort lt xs))"
  using insertion_sort_sorted_wrt [of xs] by (simp add: sorted_map)

lemma filter_sift:
  "sorted_wrt (\<lambda>a b. key b \<le> key a) ys \<Longrightarrow>
   filter (\<lambda>z. key z = k) (sift lt x ys) = (if key x = k then [x] else []) @ filter (\<lambda>z. key z = k) ys"
  by (induction ys) (auto simp: less_key filter_empty_conv)

lemma filter_foldl_sift:
  "sorted_wrt (\<lambda>a b. key b \<le> key a) acc \<Longrightarrow>
   filter (\<lambda>z. key z = k) (foldl (\<lambda>rp x. sift lt x rp) acc xs) =
   rev (filter (\<lambda>z. key z = k) xs) @ filter (\<lambda>z. key z = k) acc"
  by (induction xs arbitrary: acc) (auto simp: sift_sorted filter_sift)

lemma insertion_sort_stable:
  "filter (\<lambda>z. key z = k) (insertion_sort lt xs) = filter (\<lambda>z. key z = k) xs"
  by (simp add: insertion_sort_def filter_foldl_sift flip: rev_filter)

theorem insertion_sort_eq_sort_key: "insertion_sort lt xs = sort_key key xs"
proof (rule properties_for_sort_key [symmetric])
  show "mset (insertion_sort lt xs) = mset xs" by simp
  show "sorted (map key (insertion_sort lt xs))" by (rule insertion_sort_sorted)
  fix k
  assume "k \<in> set (insertion_sort lt xs)"
  show "filter (\<lambda>x. key k = key x) (insertion_sort lt xs) = filter (\<lambda>x. key k = key x) xs"
    using insertion_sort_stable [of "key k" xs] by (simp add: eq_commute [of "key k"])
qed

end

subsection \<open>Error values\<close>

text \<open>
  The sentinel errors the packages compare with \<^verbatim>\<open>errors.Is\<close> or \<^verbatim>\<open>errors.As\<close>, and every
  other error, which callers only propagate.
\<close>

datatype gerr =
    ErrExpired
  | ErrHostCalendarUnreadable
  | ErrCalendarNotConnected
  | ErrCredentialStore
  | ErrOutOfHoursAllowance
  | StorageReadError string
  | OtherError string

type_synonym 'a result = "gerr + 'a"

text \<open>Identifiers: a UUID is a natural number, the nil UUID is 0.\<close>

type_synonym uuid = nat

definition isOk :: "'a result \<Rightarrow> bool" where
  "isOk r \<longleftrightarrow> (case r of Inl _ \<Rightarrow> False | Inr _ \<Rightarrow> True)"

lemma isOk_simps [simp]: "isOk (Inr x)" "\<not> isOk (Inl e)"
  by (simp_all add: isOk_def)

subsection \<open>Generic list lemmas\<close>

lemma find_map_same:
  assumes "\<And>x. P (f x) = P x"
  shows "find P (map f xs) = map_option f (find P xs)"
  using assms by (induction xs) auto

lemma map_filter_mem: "y \<in> set (List.map_filter f xs) \<longleftrightarrow> (\<exists>x \<in> set xs. f x = Some y)"
  by (force simp: List.map_filter_def)

lemma sorted_wrt_hd_last_append:
  "sorted_wrt P (xs @ [x]) \<Longrightarrow> y \<in> set xs \<Longrightarrow> P y x"
  by (simp add: sorted_wrt_append)

lemma concat_map_singleton_filter:
  "concat (map (\<lambda>x. if P x then [f x] else []) xs) = map f (filter P xs)"
  by (induction xs) auto

text \<open>A symmetric relation between all pairs does not depend on the order.\<close>

lemma sorted_wrt_mset:
  assumes "symp R" "mset xs = mset ys" "sorted_wrt R xs"
  shows "sorted_wrt R ys"
  using assms(2,3)
proof (induction xs arbitrary: ys)
  case (Cons x xs)
  have "x \<in># mset ys" using Cons.prems(1) by (metis union_single_eq_member mset.simps(2) add_mset_add_single)
  then obtain as bs where ys: "ys = as @ x # bs" by (metis set_mset_mset split_list)
  then have m: "mset xs = mset (as @ bs)" using Cons.prems(1) by simp
  then have "sorted_wrt R (as @ bs)" using Cons.IH Cons.prems(2) by simp
  moreover have "\<forall>y \<in> set (as @ bs). R x y" using Cons.prems(2) m by (metis mset_eq_setD sorted_wrt.simps(2))
  ultimately show ?case using assms(1) by (auto simp: ys sorted_wrt_append symp_def)
qed simp

end
