(* ===== verification/GoText.thy ===== *)
theory GoText
  imports Prelude
begin

section \<open>GoText: the string functions the source uses\<close>

text \<open>
  Go strings are byte strings, modelled as \<open>string\<close>. The functions of the packages
  \<^verbatim>\<open>strings\<close>, \<^verbatim>\<open>strconv\<close> and \<^verbatim>\<open>fmt\<close> that the modelled code calls, on the ASCII range that
  clock times, dates, addresses and setting names use: trimming, splitting at the first
  separator, lower-casing, and the \<^verbatim>\<open>%d\<close> verb of \<^verbatim>\<open>fmt.Sscanf\<close>.
\<close>

abbreviation char_code :: "char \<Rightarrow> nat" where
  "char_code c \<equiv> of_char c"

definition is_digit :: "char \<Rightarrow> bool" where
  "is_digit c \<longleftrightarrow> 48 \<le> char_code c \<and> char_code c \<le> 57"

definition digit_val :: "char \<Rightarrow> int" where
  "digit_val c = int (char_code c) - 48"

definition is_space :: "char \<Rightarrow> bool" where
  "is_space c \<longleftrightarrow> c = CHR '' '' \<or> (9 \<le> char_code c \<and> char_code c \<le> 13)"

text \<open>\<^verbatim>\<open>strings.TrimSpace\<close>, \<^verbatim>\<open>strings.ToLower\<close> and \<^verbatim>\<open>strings.Trim(s, "-")\<close>.\<close>

definition TrimSpace :: "string \<Rightarrow> string" where
  "TrimSpace s = rev (dropWhile is_space (rev (dropWhile is_space s)))"

definition trim_char :: "char \<Rightarrow> string \<Rightarrow> string" where
  "trim_char c s = rev (dropWhile (\<lambda>x. x = c) (rev (dropWhile (\<lambda>x. x = c) s)))"

definition lower_char :: "char \<Rightarrow> char" where
  "lower_char c = (if 65 \<le> char_code c \<and> char_code c \<le> 90 then char_of (char_code c + 32) else c)"

definition ToLower :: "string \<Rightarrow> string" where
  "ToLower s = map lower_char s"

text \<open>
  \<^verbatim>\<open>strings.SplitN(s, sep, 2)\<close> has two parts exactly when the separator occurs; then they are
  the text before its first occurrence and the text after it.
\<close>

fun split_first :: "char \<Rightarrow> string \<Rightarrow> (string \<times> string) option" where
  "split_first c [] = None"
| "split_first c (x # xs) =
     (if x = c then Some ([], xs)
      else map_option (\<lambda>(a, b). (x # a, b)) (split_first c xs))"

text \<open>\<^verbatim>\<open>strings.Split(s, sep)\<close> and \<^verbatim>\<open>strings.Fields(s)\<close>.\<close>

fun split_all :: "char \<Rightarrow> string \<Rightarrow> string list" where
  "split_all c [] = [[]]"
| "split_all c (x # xs) =
     (if x = c then [] # split_all c xs
      else case split_all c xs of [] \<Rightarrow> [[x]] | p # ps \<Rightarrow> (x # p) # ps)"

function Fields :: "string \<Rightarrow> string list" where
  "Fields s = (let t = dropWhile is_space s
               in if t = [] then [] else takeWhile (\<lambda>c. \<not> is_space c) t # Fields (dropWhile (\<lambda>c. \<not> is_space c) t))"
  by pat_completeness auto
termination
proof (relation "measure length", goal_cases)
  case (2 s t)
  have "\<not> is_space (hd t)" using 2 hd_dropWhile by blast
  moreover obtain a l where t: "t = a # l" using 2(2) by (cases t) simp_all
  ultimately have "length (dropWhile (\<lambda>c. \<not> is_space c) t) < length t"
    by (simp add: le_imp_less_Suc length_dropWhile_le)
  moreover have "length t \<le> length s"
    using 2 by (simp add: length_dropWhile_le)
  ultimately show ?case by simp
qed simp

declare Fields.simps [simp del]

text \<open>\<^verbatim>\<open>strings.LastIndex(s, c)\<close> cut: the text after the last occurrence, if there is one.\<close>

fun after_last :: "char \<Rightarrow> string \<Rightarrow> string option" where
  "after_last c [] = None"
| "after_last c (x # xs) =
     (case after_last c xs of Some r \<Rightarrow> Some r | None \<Rightarrow> if x = c then Some xs else None)"

text \<open>
  \<^verbatim>\<open>fmt.Sscanf(s, "%d", &n)\<close>: blanks are skipped (a newline is an error), an optional sign,
  at least one decimal digit, a value that fits in 64 bits. What follows is not read. The
  result is the value and the rest of the input; \<open>None\<close> is the error, and then the variable
  keeps its value.
\<close>

definition digits_val :: "string \<Rightarrow> int" where
  "digits_val ds = foldl (\<lambda>v c. 10 * v + digit_val c) 0 ds"

definition fits_int64 :: "int \<Rightarrow> bool" where
  "fits_int64 v \<longleftrightarrow> - (2 ^ 63) \<le> v \<and> v < 2 ^ 63"

definition scan_sign :: "string \<Rightarrow> int \<times> string" where
  "scan_sign s = (case s of
      c # cs \<Rightarrow> if c = CHR ''-'' then (-1, cs) else if c = CHR ''+'' then (1, cs) else (1, s)
    | [] \<Rightarrow> (1, s))"

definition scan_int :: "string \<Rightarrow> (int \<times> string) option" where
  "scan_int s =
     (let (sg, r) = scan_sign (dropWhile (\<lambda>c. is_space c \<and> char_code c \<noteq> 10) s);
          ds = takeWhile is_digit r;
          v = sg * digits_val ds
      in if ds = [] \<or> \<not> fits_int64 v then None else Some (v, dropWhile is_digit r))"

text \<open>
  \<^verbatim>\<open>strconv.Atoi\<close>: an optional sign and digits only, within 64 bits.
\<close>

definition Atoi :: "string \<Rightarrow> int option" where
  "Atoi s = (let (sg, ds) = scan_sign s; v = sg * digits_val ds
             in if ds = [] \<or> \<not> list_all is_digit ds \<or> \<not> fits_int64 v then None else Some v)"

lemma split_first_Some:
  "split_first c s = Some (a, b) \<Longrightarrow> s = a @ c # b \<and> c \<notin> set a"
  by (induction s arbitrary: a b) (auto split: if_splits)

lemma split_first_None: "split_first c s = None \<longleftrightarrow> c \<notin> set s"
  by (induction s) auto

lemma after_last_None: "after_last c s = None \<longleftrightarrow> c \<notin> set s"
  by (induction s) (auto split: option.splits)

lemma after_last_Some: "after_last c s = Some r \<Longrightarrow> (\<exists>p. s = p @ c # r) \<and> c \<notin> set r"
proof (induction s)
  case (Cons x xs)
  show ?case
  proof (cases "after_last c xs")
    case None
    then show ?thesis
      using Cons.prems after_last_None [of c xs] by (auto split: if_splits intro: exI [of _ "[]"])
  next
    case (Some r')
    then obtain p where "xs = p @ c # r" "c \<notin> set r" using Cons by auto
    then show ?thesis by (intro conjI exI [of _ "x # p"]) simp_all
  qed
qed simp

end
