(* ===== verification/Civil.thy ===== *)
theory Civil
  imports GoText
begin

section \<open>Civil: calendar dates and day numbers\<close>

text \<open>
  Package \<^verbatim>\<open>time\<close> normalises a calendar date (year, month, day) to a count of days, and reads a
  date back from that count. The proleptic Gregorian calendar is modelled here on unbounded
  integers: \<open>days_of_civil\<close> is the day number (0 is 1970-01-01) and \<open>civil_of_days\<close> its
  inverse. Years are counted from the first of March, so that the leap day is the last day
  of a year.
\<close>

definition year_start :: "int \<Rightarrow> int" where
  "year_start y = 365 * y + y div 4 - y div 100 + y div 400"

definition month_start :: "int \<Rightarrow> int" where
  "month_start mp = (153 * mp + 2) div 5"

definition days_of_civil :: "int \<Rightarrow> int \<Rightarrow> int \<Rightarrow> int" where
  "days_of_civil y m d =
     (let y' = (if m \<le> 2 then y - 1 else y); mp = (if m \<le> 2 then m + 9 else m - 3)
      in year_start y' + month_start mp + (d - 1) - 719468)"

definition civil_of_days :: "int \<Rightarrow> int \<times> int \<times> int" where
  "civil_of_days n =
     (let z = n + 719468;
          e = z div 146097; r1 = z mod 146097;
          c = min 3 (r1 div 36524); r2 = r1 - 36524 * c;
          q = r2 div 1461; r3 = r2 mod 1461;
          a = min 3 (r3 div 365); doy = r3 - 365 * a;
          mp = (5 * doy + 2) div 153;
          d = doy - month_start mp + 1;
          y = 400 * e + 100 * c + 4 * q + a
      in if mp < 10 then (y, mp + 3, d) else (y + 1, mp - 9, d))"

definition is_leap :: "int \<Rightarrow> bool" where
  "is_leap y \<longleftrightarrow> y mod 4 = 0 \<and> (y mod 100 \<noteq> 0 \<or> y mod 400 = 0)"

definition days_in :: "int \<Rightarrow> int \<Rightarrow> int" where
  "days_in m y = (if m = 2 then (if is_leap y then 29 else 28)
                  else if m \<in> {4, 6, 9, 11} then 30 else 31)"

lemma year_start_split:
  assumes "0 \<le> c" "c \<le> 3" "0 \<le> q" "q \<le> 24" "0 \<le> a" "a \<le> 3"
  shows "year_start (400 * e + 100 * c + 4 * q + a) = 146097 * e + 36524 * c + 1461 * q + 365 * a"
proof -
  have "(400 * e + 100 * c + 4 * q + a) div 4 = 100 * e + 25 * c + q" using assms by linarith
  moreover have "(400 * e + 100 * c + 4 * q + a) div 100 = 4 * e + c" using assms by linarith
  moreover have "(400 * e + 100 * c + 4 * q + a) div 400 = e" using assms by linarith
  ultimately show ?thesis by (simp add: year_start_def)
qed

lemma century_split:
  fixes r1 :: int
  assumes "0 \<le> r1" "r1 < 146097"
  defines "c \<equiv> min 3 (r1 div 36524)"
  shows "0 \<le> c" "c \<le> 3" "0 \<le> r1 - 36524 * c" "r1 - 36524 * c \<le> 36524"
  using assms by (auto simp: min_def)

lemma year_split:
  fixes r3 :: int
  assumes "0 \<le> r3" "r3 < 1461"
  defines "a \<equiv> min 3 (r3 div 365)"
  shows "0 \<le> a" "a \<le> 3" "0 \<le> r3 - 365 * a" "r3 - 365 * a \<le> 365"
  using assms by (auto simp: min_def)

lemma month_split:
  fixes doy :: int
  assumes "0 \<le> doy" "doy \<le> 365"
  defines "mp \<equiv> (5 * doy + 2) div 153"
  shows "0 \<le> mp" "mp \<le> 11" "month_start mp \<le> doy" "doy - month_start mp \<le> 30"
  using assms by (auto simp: month_start_def)

text \<open>What the date of a day number is made of: a March-based year and a day of that year.\<close>

lemma civil_of_days_parts:
  obtains y doy where "0 \<le> doy" "doy \<le> 365" "year_start y + doy = n + 719468"
    "doy = 365 \<Longrightarrow> is_leap (y + 1)"
    "civil_of_days n =
       (let mp = (5 * doy + 2) div 153; d = doy - month_start mp + 1
        in if mp < 10 then (y, mp + 3, d) else (y + 1, mp - 9, d))"
proof -
  define z e r1 where "z = n + 719468" and "e = z div 146097" and "r1 = z mod 146097"
  define c r2 where "c = min 3 (r1 div 36524)" and "r2 = r1 - 36524 * c"
  define q r3 where "q = r2 div 1461" and "r3 = r2 mod 1461"
  define a doy where "a = min 3 (r3 div 365)" and "doy = r3 - 365 * a"
  have r1: "0 \<le> r1" "r1 < 146097" by (simp_all add: r1_def)
  have c: "0 \<le> c" "c \<le> 3" "0 \<le> r2" "r2 \<le> 36524"
    using century_split [OF r1] by (simp_all add: c_def r2_def)
  have r3: "0 \<le> r3" "r3 < 1461" by (simp_all add: r3_def)
  have q: "0 \<le> q" "q \<le> 24"
    using c(3,4) unfolding q_def by linarith+
  have a: "0 \<le> a" "a \<le> 3" "0 \<le> doy" "doy \<le> 365"
    using year_split [OF r3] by (simp_all add: a_def doy_def)
  have "z = 146097 * e + 36524 * c + 1461 * q + 365 * a + doy"
    by (simp add: e_def r1_def r2_def q_def r3_def doy_def)
  then have ys: "year_start (400 * e + 100 * c + 4 * q + a) + doy = n + 719468"
    using year_start_split [OF c(1,2) q a(1,2), of e] z_def by linarith
  have eq: "civil_of_days n =
      (let mp = (5 * doy + 2) div 153; d = doy - month_start mp + 1
       in if mp < 10 then (400 * e + 100 * c + 4 * q + a, mp + 3, d)
          else (400 * e + 100 * c + 4 * q + a + 1, mp - 9, d))"
    unfolding civil_of_days_def Let_def doy_def a_def r3_def q_def r2_def c_def r1_def e_def z_def
    by (rule refl)
  have leap: "is_leap (400 * e + 100 * c + 4 * q + a + 1)" if "doy = 365"
  proof -
    have a3: "a = 3" "r3 = 1460" using that r3 unfolding doy_def a_def by (auto simp: min_def split: if_splits)
    then have r2: "r2 = 1461 * q + 1460" unfolding r3_def q_def by (metis mult.commute mult_div_mod_eq)
    have "c = 3" if "q = 24"
    proof (rule ccontr)
      assume "c \<noteq> 3"
      then have "r2 = r1 mod 36524" unfolding r2_def c_def by (auto simp: min_def minus_mult_div_eq_mod)
      then have "r2 < 36524" by simp
      then show False using r2 that by simp
    qed
    moreover have Y: "400 * e + 100 * c + 4 * q + a + 1 = (4 * q + 4) + (4 * e + c) * 100"
      "400 * e + 100 * c + 4 * q + a + 1 = (100 * e + 25 * c + q + 1) * 4" using a3 by simp_all
    ultimately show ?thesis
    proof (cases "q = 24")
      case True
      then have "400 * e + 100 * c + 4 * q + a + 1 = (e + 1) * 400" using \<open>q = 24 \<Longrightarrow> c = 3\<close> a3 by simp
      then show ?thesis by (simp only: is_leap_def) presburger
    next
      case False
      then have "(4 * q + 4) mod 100 \<noteq> 0" using q by simp
      then show ?thesis unfolding is_leap_def Y by (metis Y(1) Y(2) mod_mult_self1 mod_mult_self2_is_0)
    qed
  qed
  show ?thesis by (rule that [OF a(3,4) ys leap eq])
qed

text \<open>Reading a date back from its day number and numbering it again gives the number.\<close>

theorem days_of_civil_of_days:
  "(case civil_of_days n of (y, m, d) \<Rightarrow> days_of_civil y m d) = n"
proof (rule civil_of_days_parts [of n])
  fix y doy :: int
  assume doy: "0 \<le> doy" "doy \<le> 365" and ys: "year_start y + doy = n + 719468"
    and eq: "civil_of_days n =
       (let mp = (5 * doy + 2) div 153; d = doy - month_start mp + 1
        in if mp < 10 then (y, mp + 3, d) else (y + 1, mp - 9, d))"
  define mp where "mp = (5 * doy + 2) div 153"
  have "0 \<le> mp" "mp \<le> 11" using month_split [OF doy] by (simp_all add: mp_def)
  then show ?thesis
    unfolding eq Let_def mp_def [symmetric] using ys by (simp add: days_of_civil_def)
qed

lemma civil_of_days_month:
  assumes "civil_of_days n = (y, m, d)"
  shows "1 \<le> m" "m \<le> 12" "1 \<le> d" "d \<le> 31"
proof -
  obtain y' doy where doy: "0 \<le> doy" "doy \<le> 365" and eq: "civil_of_days n =
       (let mp = (5 * doy + 2) div 153; d = doy - month_start mp + 1
        in if mp < 10 then (y', mp + 3, d) else (y' + 1, mp - 9, d))"
    by (rule civil_of_days_parts [of n])
  define mp where "mp = (5 * doy + 2) div 153"
  have mp: "0 \<le> mp" "mp \<le> 11" "month_start mp \<le> doy" "doy - month_start mp \<le> 30"
    using month_split [OF doy] by (simp_all add: mp_def)
  have "(m = mp + 3 \<and> mp < 10 \<or> m = mp - 9 \<and> 10 \<le> mp) \<and> d = doy - month_start mp + 1"
    using assms unfolding eq Let_def mp_def [symmetric] by (simp split: if_splits)
  then show "1 \<le> m" "m \<le> 12" "1 \<le> d" "d \<le> 31" using mp by auto
qed

text \<open>The date read back is a date of the calendar.\<close>

lemma civil_of_days_valid:
  assumes "civil_of_days n = (y, m, d)"
  shows "d \<le> days_in m y"
proof -
  obtain y' doy where doy: "0 \<le> doy" "doy \<le> 365" and leap: "doy = 365 \<Longrightarrow> is_leap (y' + 1)"
    and eq: "civil_of_days n =
       (let mp = (5 * doy + 2) div 153; d = doy - month_start mp + 1
        in if mp < 10 then (y', mp + 3, d) else (y' + 1, mp - 9, d))"
    by (rule civil_of_days_parts [of n]) metis
  define mp where "mp = (5 * doy + 2) div 153"
  have mp: "0 \<le> mp" "mp \<le> 11" using month_split [OF doy] by (simp_all add: mp_def)
  have leap': "doy \<le> 364 \<or> is_leap (y' + 1)" using leap doy(2) by (cases "doy = 365") auto
  have "5 * doy + 2 < 153 * (mp + 1)" unfolding mp_def by presburger
  then have lt: "doy < month_start (mp + 1)" unfolding month_start_def by presburger
  have dm: "d = doy - month_start mp + 1" "m = (if mp < 10 then mp + 3 else mp - 9)"
    "y = (if mp < 10 then y' else y' + 1)"
    using assms unfolding eq Let_def mp_def [symmetric] by (simp_all split: if_splits)
  show ?thesis
  proof (cases "mp = 11")
    case True
    then have "d = doy - 336" "m = 2" "y = y' + 1" using dm by (simp_all add: month_start_def)
    then show ?thesis using leap' doy(2) by (cases "is_leap y") (simp_all add: days_in_def)
  next
    case False
    have "mp = 0 \<or> mp = 1 \<or> mp = 2 \<or> mp = 3 \<or> mp = 4 \<or> mp = 5 \<or> mp = 6 \<or> mp = 7 \<or>
      mp = 8 \<or> mp = 9 \<or> mp = 10" using mp False by presburger
    then show ?thesis using lt dm(1,2) by (elim disjE; simp add: month_start_def days_in_def)
  qed
qed

end
