(* ===== verification/GoTime.thy ===== *)
theory GoTime
  imports Civil
begin

section \<open>GoTime: instants, locations and wall clocks\<close>

text \<open>
  The part of package \<^verbatim>\<open>time\<close> the program uses. A \<^verbatim>\<open>time.Time\<close> is an instant in nanoseconds
  since the Unix epoch together with its location. A location is its zone table: the offset
  before the first change and the changes, each with the instant (in seconds) from which its
  offset holds. The zone tables themselves (the tz database) are data outside the
  repository: \<^verbatim>\<open>time.LoadLocation\<close> takes them as the parameter \<open>tzdb\<close>. The process zone
  \<^verbatim>\<open>Local\<close> is UTC, as in the published containers, which set no \<^verbatim>\<open>TZ\<close>.

  Calendar dates are kept as day numbers (\<open>Civil\<close>): \<open>date_of t\<close> is the local calendar date of
  \<open>t\<close>, and \<open>go_date\<close> is \<^verbatim>\<open>time.Date\<close> with its day given as a day number, so that its
  normalisation of out-of-range days, hours and minutes is integer arithmetic.
  Durations are integers of nanoseconds; they are never near the 292 years at which
  \<^verbatim>\<open>time.Duration\<close> overflows.
\<close>

record location =
  loc_name :: string
  loc_base :: int
  loc_trans :: "(int \<times> int) list"

definition UTC :: location where
  "UTC = \<lparr>loc_name = ''UTC'', loc_base = 0, loc_trans = []\<rparr>"

definition FixedZone :: "string \<Rightarrow> int \<Rightarrow> location" where
  "FixedZone name off = \<lparr>loc_name = name, loc_base = off, loc_trans = []\<rparr>"

definition LoadLocation :: "(string \<Rightarrow> location option) \<Rightarrow> string \<Rightarrow> location option" where
  "LoadLocation tzdb name =
     (if name = '''' \<or> name = ''UTC'' \<or> name = ''Local'' then Some UTC else tzdb name)"

text \<open>
  \<^verbatim>\<open>Location.lookup\<close>: the offset in force at a second, and the bounds of the zone period it
  is in (\<open>None\<close> where the period is unbounded).
\<close>

fun zone_from :: "int \<Rightarrow> int option \<Rightarrow> (int \<times> int) list \<Rightarrow> int \<Rightarrow> int \<times> int option \<times> int option" where
  "zone_from off st [] s = (off, st, None)"
| "zone_from off st ((t, o') # ts) s =
     (if s < t then (off, st, Some t) else zone_from o' (Some t) ts s)"

definition zone_lookup :: "location \<Rightarrow> int \<Rightarrow> int \<times> int option \<times> int option" where
  "zone_lookup l s = zone_from (loc_base l) None (loc_trans l) s"

definition offset_at :: "location \<Rightarrow> int \<Rightarrow> int" where
  "offset_at l s = fst (zone_lookup l s)"

definition zone_end :: "location \<Rightarrow> int \<Rightarrow> int option" where
  "zone_end l s = snd (snd (zone_lookup l s))"

subsection \<open>Times\<close>

record gotime =
  ns :: int
  tloc :: location

abbreviation sec_ns :: int where "sec_ns \<equiv> 1000000000"
abbreviation minute_ns :: int where "minute_ns \<equiv> 60000000000"
abbreviation hour_ns :: int where "hour_ns \<equiv> 3600000000000"
abbreviation day_ns :: int where "day_ns \<equiv> 86400000000000"
abbreviation day_sec :: int where "day_sec \<equiv> 86400"

definition zero_time :: gotime where
  "zero_time = \<lparr>ns = -62135596800 * sec_ns, tloc = UTC\<rparr>"

definition IsZero :: "gotime \<Rightarrow> bool" where
  "IsZero t \<longleftrightarrow> ns t = ns zero_time"

definition Before :: "gotime \<Rightarrow> gotime \<Rightarrow> bool" where "Before a b \<longleftrightarrow> ns a < ns b"
definition After :: "gotime \<Rightarrow> gotime \<Rightarrow> bool" where "After a b \<longleftrightarrow> ns b < ns a"
definition EqualT :: "gotime \<Rightarrow> gotime \<Rightarrow> bool" where "EqualT a b \<longleftrightarrow> ns a = ns b"
definition Add :: "gotime \<Rightarrow> int \<Rightarrow> gotime" where "Add t d = t\<lparr>ns := ns t + d\<rparr>"
definition Sub :: "gotime \<Rightarrow> gotime \<Rightarrow> int" where "Sub a b = ns a - ns b"
definition In :: "gotime \<Rightarrow> location \<Rightarrow> gotime" where "In t l = t\<lparr>tloc := l\<rparr>"

lemmas time_cmp_defs = Before_def After_def EqualT_def

lemma Add_simps [simp, time_simps]: "ns (Add t d) = ns t + d" "tloc (Add t d) = tloc t"
  by (simp_all add: Add_def)

lemma Add_Add [simp, time_simps]: "Add (Add t a) b = Add t (a + b)"
  and Add_0 [simp, time_simps]: "Add t 0 = t"
  by (simp_all add: Add_def add.assoc)

lemma In_simps [simp, time_simps]: "ns (In t l) = ns t" "tloc (In t l) = l"
  by (simp_all add: In_def)

definition unix_sec :: "gotime \<Rightarrow> int" where
  "unix_sec t = ns t div sec_ns"

definition local_sec :: "gotime \<Rightarrow> int" where
  "local_sec t = unix_sec t + offset_at (tloc t) (unix_sec t)"

definition date_of :: "gotime \<Rightarrow> int" where
  "date_of t = local_sec t div day_sec"

definition clock_sec :: "gotime \<Rightarrow> int" where
  "clock_sec t = local_sec t mod day_sec"

definition Hour :: "gotime \<Rightarrow> int" where "Hour t = clock_sec t div 3600"
definition Minute :: "gotime \<Rightarrow> int" where "Minute t = clock_sec t mod 3600 div 60"
definition Second :: "gotime \<Rightarrow> int" where "Second t = clock_sec t mod 60"
definition Nanosecond :: "gotime \<Rightarrow> int" where "Nanosecond t = ns t mod sec_ns"

text \<open>\<^verbatim>\<open>Weekday\<close>: 0 is Sunday; day number 0, 1970-01-01, was a Thursday.\<close>

definition Weekday :: "gotime \<Rightarrow> int" where
  "Weekday t = (date_of t + 4) mod 7"

text \<open>
  \<^verbatim>\<open>int(d.Minutes())\<close> of a duration: whole minutes, truncated towards zero.
\<close>

definition minutes_of :: "int \<Rightarrow> int" where
  "minutes_of d = go_quot d minute_ns"

text \<open>
  \<^verbatim>\<open>time.Date\<close>: the wall time is first read as if it were UTC, the offset there is tried, and
  if the instant it gives lies outside that zone period, the offset in force at that
  instant is used instead.
\<close>

definition unix_of_wall :: "location \<Rightarrow> int \<Rightarrow> int" where
  "unix_of_wall l w =
     (let (off, st, en) = zone_lookup l w
      in if off = 0 then w
         else let u = w - off
              in if (case st of None \<Rightarrow> False | Some s \<Rightarrow> u < s) \<or> (case en of None \<Rightarrow> False | Some e \<Rightarrow> e \<le> u)
                 then w - offset_at l u else u)"

definition wall_sec :: "int \<Rightarrow> int \<Rightarrow> int \<Rightarrow> int \<Rightarrow> int" where
  "wall_sec dn h m s = dn * day_sec + h * 3600 + m * 60 + s"

definition go_date :: "int \<Rightarrow> int \<Rightarrow> int \<Rightarrow> int \<Rightarrow> int \<Rightarrow> location \<Rightarrow> gotime" where
  "go_date dn h m s nsec l =
     \<lparr>ns = unix_of_wall l (wall_sec dn h m s + nsec div sec_ns) * sec_ns + nsec mod sec_ns, tloc = l\<rparr>"

text \<open>\<^verbatim>\<open>t.AddDate(0, 0, n)\<close>: the same clock time \<open>n\<close> calendar days later.\<close>

definition AddDays :: "gotime \<Rightarrow> int \<Rightarrow> gotime" where
  "AddDays t n = go_date (date_of t + n) (Hour t) (Minute t) (Second t) (Nanosecond t) (tloc t)"

text \<open>\<^verbatim>\<open>t.Truncate(24 * time.Hour)\<close>: multiples of the duration since the zero time.\<close>

definition Truncate :: "gotime \<Rightarrow> int \<Rightarrow> gotime" where
  "Truncate t d = (if d \<le> 0 then t else t\<lparr>ns := ns t - (ns t - ns zero_time) mod d\<rparr>)"

subsection \<open>Zone lookups\<close>

definition strict_times :: "(int \<times> int) list \<Rightarrow> bool" where
  "strict_times ts \<longleftrightarrow> sorted_wrt (\<lambda>a b. fst a < fst b) ts"

definition wf_zone :: "location \<Rightarrow> bool" where
  "wf_zone l \<longleftrightarrow> strict_times (loc_trans l) \<and> \<bar>loc_base l\<bar> < day_sec \<and>
     list_all (\<lambda>(t, off). \<bar>off\<bar> < day_sec) (loc_trans l)"

text \<open>
  The working hypothesis of \<^verbatim>\<open>wallClock\<close> (\<^verbatim>\<open>one transition a day at most\<close>): the zone changes at
  most once between a day before and a day after the wall time.
\<close>

definition one_change :: "location \<Rightarrow> int \<Rightarrow> bool" where
  "one_change l w \<longleftrightarrow>
     length (filter (\<lambda>(t, off). w - day_sec < t \<and> t \<le> w + day_sec) (loc_trans l)) \<le> 1"

lemma UTC_lookup [simp]: "zone_lookup UTC s = (0, None, None)"
  by (simp add: zone_lookup_def UTC_def)

lemma offset_at_UTC [simp]: "offset_at UTC s = 0"
  by (simp add: offset_at_def)

lemma wf_zone_UTC [simp]: "wf_zone UTC" "one_change UTC w"
  by (simp_all add: wf_zone_def UTC_def strict_times_def one_change_def)

lemma FixedZone_lookup [simp]: "zone_lookup (FixedZone nm off) s = (off, None, None)"
  by (simp add: zone_lookup_def FixedZone_def)

lemma offset_at_FixedZone [simp]: "offset_at (FixedZone nm off) s = off"
  by (simp add: offset_at_def)

lemma unix_of_wall_offset: "\<exists>x. unix_of_wall l w = w - offset_at l x"
  unfolding unix_of_wall_def offset_at_def
  by (cases "zone_lookup l w") (auto simp: Let_def intro: exI [of _ w])

lemma unix_of_wall_UTC [simp]: "unix_of_wall UTC w = w"
  by (simp add: unix_of_wall_def)

lemma unix_of_wall_Fixed [simp]: "unix_of_wall (FixedZone nm off) w = w - off"
  by (simp add: unix_of_wall_def)

text \<open>
  A zone table cut at two instants: the changes up to \<open>lo\<close> only fix the period one starts in,
  the changes after \<open>hi\<close> only bound the period one ends in.
\<close>

lemma zone_from_skip:
  assumes "\<forall>p \<in> set pre. fst p \<le> lo" "case st of None \<Rightarrow> True | Some b \<Rightarrow> b \<le> lo"
  shows "\<exists>off' st'. (case st' of None \<Rightarrow> True | Some b \<Rightarrow> b \<le> lo) \<and>
     (off' = off \<or> off' \<in> snd ` set pre) \<and>
     (\<forall>ts s. lo \<le> s \<longrightarrow> zone_from off st (pre @ ts) s = zone_from off' st' ts s)"
  using assms
proof (induction pre arbitrary: off st)
  case Nil
  then show ?case by auto
next
  case (Cons p pre)
  obtain t o' where p: "p = (t, o')" by (cases p)
  have "t \<le> lo" "\<forall>p \<in> set pre. fst p \<le> lo" using Cons.prems p by simp_all
  with Cons.IH [of "Some t" o'] obtain off' st' where
    A: "case st' of None \<Rightarrow> True | Some b \<Rightarrow> b \<le> lo" and B: "off' = o' \<or> off' \<in> snd ` set pre"
    and C: "\<And>ts s. lo \<le> s \<Longrightarrow> zone_from o' (Some t) (pre @ ts) s = zone_from off' st' ts s"
    by auto
  have "zone_from off st ((p # pre) @ ts) s = zone_from off' st' ts s" if "lo \<le> s" for ts s
    using C [OF that] that \<open>t \<le> lo\<close> p by simp
  moreover have "off' = off \<or> off' \<in> snd ` set (p # pre)" using B p by auto
  ultimately show ?case using A by blast
qed

lemma zone_from_stop:
  assumes "\<forall>p \<in> set post. hi < fst p"
  shows "\<exists>en. (case en of None \<Rightarrow> True | Some e \<Rightarrow> hi < e) \<and>
     (\<forall>off st s. s \<le> hi \<longrightarrow> zone_from off st post s = (off, st, en))"
proof (cases post)
  case Nil
  then show ?thesis by (intro exI [of _ None]) simp
next
  case (Cons p ps)
  obtain t o' where p: "p = (t, o')" by (cases p)
  then have "hi < t" using assms Cons by simp
  then show ?thesis using Cons p by (intro exI [of _ "Some t"]) auto
qed

lemma strict_times_cut:
  "strict_times ts \<Longrightarrow> lo \<le> hi \<Longrightarrow>
   \<exists>pre post. ts = pre @ filter (\<lambda>(t, off). lo < t \<and> t \<le> hi) ts @ post \<and>
     (\<forall>p \<in> set pre. fst p \<le> lo) \<and> (\<forall>p \<in> set post. hi < fst p)"
proof (induction ts)
  case (Cons p ts)
  obtain t o' where p: "p = (t, o')" by (cases p)
  have st: "strict_times ts" and gt: "\<forall>q \<in> set ts. t < fst q"
    using Cons.prems p by (auto simp: strict_times_def)
  consider "t \<le> lo" | "lo < t" "t \<le> hi" | "hi < t" by linarith
  then show ?case
  proof cases
    case 1
    from Cons.IH [OF st Cons.prems(2)] obtain pre post where
      "ts = pre @ filter (\<lambda>(t, off). lo < t \<and> t \<le> hi) ts @ post"
      "\<forall>p \<in> set pre. fst p \<le> lo" "\<forall>p \<in> set post. hi < fst p" by blast
    then show ?thesis using 1 p by (intro exI [of _ "p # pre"] exI [of _ post]) auto
  next
    case 2
    from Cons.IH [OF st Cons.prems(2)] obtain pre post where
      ts: "ts = pre @ filter (\<lambda>(t, off). lo < t \<and> t \<le> hi) ts @ post"
      "\<forall>p \<in> set pre. fst p \<le> lo" "\<forall>p \<in> set post. hi < fst p" by blast
    have "pre = []"
    proof (cases pre)
      case (Cons q qs)
      then have "q \<in> set ts" using ts(1) by (metis Un_iff list.set_intros(1) set_append)
      then show ?thesis using gt 2 ts(2) Cons by force
    qed
    then show ?thesis using 2 p ts by (intro exI [of _ "[]"] exI [of _ post]) auto
  next
    case 3
    then have "filter (\<lambda>(t, off). lo < t \<and> t \<le> hi) (p # ts) = []"
      using gt p by (auto simp: filter_empty_conv)
    then show ?thesis using 3 p gt by (intro exI [of _ "[]"] exI [of _ "p # ts"]) auto
  qed
qed simp

text \<open>
  Under \<open>one_change\<close> the zone around a wall time is one of two shapes: one offset throughout,
  or one change at some instant \<open>T\<close> with one offset before it and one from it on.
\<close>

lemma one_change_cases:
  assumes wf: "wf_zone l" and one: "one_change l w"
  obtains
    (still) a st en where "\<bar>a\<bar> < day_sec"
      "case st of None \<Rightarrow> True | Some b \<Rightarrow> b \<le> w - day_sec" "case en of None \<Rightarrow> True | Some e \<Rightarrow> w + day_sec < e"
      "\<And>x. w - day_sec \<le> x \<Longrightarrow> x \<le> w + day_sec \<Longrightarrow> zone_lookup l x = (a, st, en)"
  | (change) a b T st en where "\<bar>a\<bar> < day_sec" "\<bar>b\<bar> < day_sec" "w - day_sec < T" "T \<le> w + day_sec"
      "case st of None \<Rightarrow> True | Some b \<Rightarrow> b \<le> w - day_sec" "case en of None \<Rightarrow> True | Some e \<Rightarrow> w + day_sec < e"
      "\<And>x. w - day_sec \<le> x \<Longrightarrow> x < T \<Longrightarrow> zone_lookup l x = (a, st, Some T)"
      "\<And>x. T \<le> x \<Longrightarrow> x \<le> w + day_sec \<Longrightarrow> zone_lookup l x = (b, Some T, en)"
proof -
  have st: "strict_times (loc_trans l)" and base: "\<bar>loc_base l\<bar> < day_sec"
    and offs: "\<forall>p \<in> set (loc_trans l). \<bar>snd p\<bar> < day_sec"
    using wf by (auto simp: wf_zone_def list_all_iff)
  let ?mid = "filter (\<lambda>(t, off). w - day_sec < t \<and> t \<le> w + day_sec) (loc_trans l)"
  obtain pre post where ts: "loc_trans l = pre @ ?mid @ post"
    and pre: "\<forall>p \<in> set pre. fst p \<le> w - day_sec" and post: "\<forall>p \<in> set post. w + day_sec < fst p"
    using strict_times_cut [OF st, of "w - day_sec" "w + day_sec"] by auto
  obtain a st0 where st0: "case st0 of None \<Rightarrow> True | Some b \<Rightarrow> b \<le> w - day_sec"
    and a: "a = loc_base l \<or> a \<in> snd ` set pre"
    and skip: "\<And>ts s. w - day_sec \<le> s \<Longrightarrow> zone_from (loc_base l) None (pre @ ts) s = zone_from a st0 ts s"
    using zone_from_skip [OF pre, of None "loc_base l"] by auto
  obtain en where en: "case en of None \<Rightarrow> True | Some e \<Rightarrow> w + day_sec < e"
    and stop: "\<And>off st s. s \<le> w + day_sec \<Longrightarrow> zone_from off st post s = (off, st, en)"
    using zone_from_stop [OF post] by auto
  have a_bound: "\<bar>a\<bar> < day_sec"
  proof -
    have "set pre \<subseteq> set (loc_trans l)" by (subst ts) auto
    then show ?thesis using a base offs by auto
  qed
  have look: "zone_lookup l x = zone_from a st0 (?mid @ post) x" if "w - day_sec \<le> x" for x
    unfolding zone_lookup_def by (subst ts) (rule skip [OF that])
  have "length ?mid \<le> 1" using one unfolding one_change_def .
  then consider "?mid = []" | T b where "?mid = [(T, b)]"
    by (cases ?mid) (auto simp: le_Suc_eq simp del: filter.simps)
  then show thesis
  proof cases
    case 1
    have "zone_lookup l x = (a, st0, en)" if "w - day_sec \<le> x" "x \<le> w + day_sec" for x
      using look [OF that(1)] stop [OF that(2)] unfolding 1 by simp
    then show thesis using still a_bound st0 en by blast
  next
    case 2
    then have "(T, b) \<in> set ?mid" by simp
    then have T: "w - day_sec < T" "T \<le> w + day_sec" and b: "\<bar>b\<bar> < day_sec"
      using offs by auto
    have "zone_lookup l x = (a, st0, Some T)" if "w - day_sec \<le> x" "x < T" for x
      using look [OF that(1)] that(2) unfolding 2 by simp
    moreover have "zone_lookup l x = (b, Some T, en)" if "T \<le> x" "x \<le> w + day_sec" for x
      using look [of x] that T(1) stop [OF that(2)] unfolding 2 by simp
    ultimately show thesis using change a_bound b T st0 en by blast
  qed
qed

text \<open>
  \<^verbatim>\<open>time.Date\<close> gives an instant that shows the wall time asked for, whenever the zone has one
  (and changes at most once around it).
\<close>

theorem unix_of_wall_exact:
  assumes wf: "wf_zone l" and one: "one_change l w" and ex: "x + offset_at l x = w"
    and near: "\<bar>w - x\<bar> \<le> day_sec"
  shows "unix_of_wall l w + offset_at l (unix_of_wall l w) = w"
  using wf one
proof (cases rule: one_change_cases)
  case (still a st en)
  have "zone_lookup l w = (a, st, en)" using still(4) by simp
  moreover have "zone_lookup l (w - a) = (a, st, en)" using still(1,4) by simp
  ultimately show ?thesis
    using still(1,2,3) by (auto simp: unix_of_wall_def offset_at_def Let_def split: option.splits)
next
  case (change a b T st en)
  have lo: "zone_lookup l y = (a, st, Some T)" if "w - day_sec \<le> y" "y < T" for y using change that by blast
  have hi: "zone_lookup l y = (b, Some T, en)" if "T \<le> y" "y \<le> w + day_sec" for y using change that by blast
  have x: "x < T \<and> x = w - a \<or> T \<le> x \<and> x = w - b"
    using ex near lo [of x] hi [of x] by (cases "x < T") (auto simp: offset_at_def)
  show ?thesis
  proof (cases "w < T")
    case True
    then have w: "zone_lookup l w = (a, st, Some T)" using lo by simp
    show ?thesis
    proof (cases "w - a < T")
      case True
      then have "zone_lookup l (w - a) = (a, st, Some T)" using change(1) lo by simp
      then show ?thesis using w True change(1,5)
        by (auto simp: unix_of_wall_def offset_at_def Let_def split: option.splits)
    next
      case False
      then have u: "zone_lookup l (w - a) = (b, Some T, en)" using change(1) hi by simp
      have "x = w - b" "T \<le> x" using x False by auto
      then have "zone_lookup l (w - b) = (b, Some T, en)" using change(2) hi by simp
      moreover have "a \<noteq> 0" using False True by auto
      ultimately show ?thesis using w u False
        by (auto simp: unix_of_wall_def offset_at_def Let_def split: option.splits)
    qed
  next
    case False
    then have w: "zone_lookup l w = (b, Some T, en)" using hi by simp
    show ?thesis
    proof (cases "T \<le> w - b")
      case True
      then have "zone_lookup l (w - b) = (b, Some T, en)" using change(2) hi by simp
      then show ?thesis using w True change(2,6)
        by (auto simp: unix_of_wall_def offset_at_def Let_def split: option.splits)
    next
      case f2: False
      then have u: "zone_lookup l (w - b) = (a, st, Some T)" using change(2) lo by simp
      have "x = w - a" "x < T" using x f2 by auto
      then have "zone_lookup l (w - a) = (a, st, Some T)" using change(1) lo by simp
      moreover have "b \<noteq> 0" using f2 False by auto
      ultimately show ?thesis using w u f2
        by (auto simp: unix_of_wall_def offset_at_def Let_def split: option.splits)
    qed
  qed
qed

lemma wf_offset: "wf_zone l \<Longrightarrow> \<bar>offset_at l x\<bar> < day_sec"
proof -
  have "list_all (\<lambda>(t, off). \<bar>off\<bar> < day_sec) ts \<Longrightarrow> \<bar>off\<bar> < day_sec \<Longrightarrow> \<bar>fst (zone_from off st ts x)\<bar> < day_sec"
    for off st ts by (induction off st ts x rule: zone_from.induct) auto
  then show "wf_zone l \<Longrightarrow> ?thesis" by (simp add: wf_zone_def offset_at_def zone_lookup_def)
qed

text \<open>
  A wall time that exists is what \<^verbatim>\<open>time.Date\<close> shows; its date and clock are those asked for.
\<close>

lemma go_date_exact:
  assumes "wf_zone l" "one_change l (wall_sec dn h m s)" "x + offset_at l x = wall_sec dn h m s"
    "0 \<le> h" "h < 24" "0 \<le> m" "m < 60" "0 \<le> s" "s < 60"
  shows "local_sec (go_date dn h m s 0 l) = wall_sec dn h m s"
    "date_of (go_date dn h m s 0 l) = dn" "clock_sec (go_date dn h m s 0 l) = h * 3600 + m * 60 + s"
proof -
  have "\<bar>wall_sec dn h m s - x\<bar> \<le> day_sec" using assms(3) wf_offset [OF assms(1), of x] by linarith
  from unix_of_wall_exact [OF assms(1-3) this]
  show l: "local_sec (go_date dn h m s 0 l) = wall_sec dn h m s"
    by (simp add: go_date_def local_sec_def unix_sec_def)
  have w: "wall_sec dn h m s = (h * 3600 + m * 60 + s) + dn * day_sec" by (simp add: wall_sec_def)
  have "0 \<le> h * 3600 + m * 60 + s" "h * 3600 + m * 60 + s < day_sec" using assms by auto
  then show "date_of (go_date dn h m s 0 l) = dn" "clock_sec (go_date dn h m s 0 l) = h * 3600 + m * 60 + s"
    unfolding date_of_def clock_sec_def l w by simp_all
qed

lemma go_date_UTC:
  assumes "0 \<le> h" "h < 24" "0 \<le> m" "m < 60" "0 \<le> s" "s < 60"
  shows "date_of (go_date dn h m s 0 UTC) = dn" "clock_sec (go_date dn h m s 0 UTC) = h * 3600 + m * 60 + s"
  using go_date_exact [of UTC dn h m s "wall_sec dn h m s"] assms by simp_all

end
