(* ===== verification/Rfc3339.thy ===== *)
theory Rfc3339
  imports GoTime "HOL-Library.Monad_Syntax"
begin

section \<open>Rfc3339: reading and writing instants as text\<close>

text \<open>
  \<^verbatim>\<open>time.Parse(time.RFC3339, s)\<close> and \<^verbatim>\<open>t.Format(time.RFC3339)\<close>, with what the Go parser accepts
  beyond the RFC: a one-digit hour, a comma before the fraction, more than nine fraction
  digits (cut), offset hours up to 24 and minutes up to 60. A text with \<^verbatim>\<open>Z\<close> is in UTC; one
  with an offset is in a fixed zone of that offset, or in the process zone (UTC) when the
  offset is zero.
\<close>

definition expect :: "char \<Rightarrow> string \<Rightarrow> string option" where
  "expect c s = (case s of x # r \<Rightarrow> if x = c then Some r else None | [] \<Rightarrow> None)"

definition get2 :: "string \<Rightarrow> (int \<times> string) option" where
  "get2 s = (case s of a # b # r \<Rightarrow>
       if is_digit a \<and> is_digit b then Some (10 * digit_val a + digit_val b, r) else None
     | _ \<Rightarrow> None)"

definition get1or2 :: "string \<Rightarrow> (int \<times> string) option" where
  "get1or2 s = (case get2 s of Some v \<Rightarrow> Some v
     | None \<Rightarrow> (case s of a # r \<Rightarrow> if is_digit a then Some (digit_val a, r) else None | [] \<Rightarrow> None))"

definition get4 :: "string \<Rightarrow> (int \<times> string) option" where
  "get4 s = do { (a, r) \<leftarrow> get2 s; (b, r) \<leftarrow> get2 r; Some (100 * a + b, r) }"

text \<open>The fraction of a second: up to nine digits count, each missing one is a zero.\<close>

definition frac_ns :: "string \<Rightarrow> int" where
  "frac_ns ds = digits_val (take 9 (ds @ replicate 9 CHR ''0''))"

definition get_frac :: "string \<Rightarrow> int \<times> string" where
  "get_frac s = (case s of
      p # d # r \<Rightarrow> if (p = CHR ''.'' \<or> p = CHR '','') \<and> is_digit d
                 then (frac_ns (takeWhile is_digit (d # r)), dropWhile is_digit (d # r)) else (0, s)
    | _ \<Rightarrow> (0, s))"

definition get_zone :: "string \<Rightarrow> (int option \<times> string) option" where
  "get_zone s = (case s of
      [] \<Rightarrow> None
    | c # r \<Rightarrow>
        if c = CHR ''Z'' then Some (None, r)
        else if c = CHR ''+'' \<or> c = CHR ''-'' then do {
          (hh, r) \<leftarrow> get2 r; r \<leftarrow> expect CHR '':'' r; (mm, r) \<leftarrow> get2 r;
          if hh > 24 \<or> mm > 60 then None
          else Some (Some ((if c = CHR ''-'' then -1 else 1) * (hh * 3600 + mm * 60)), r) }
        else None)"

definition valid_clock :: "int \<Rightarrow> int \<Rightarrow> int \<Rightarrow> bool" where
  "valid_clock h mi sec \<longleftrightarrow> h < 24 \<and> mi < 60 \<and> sec < 60"

definition valid_date :: "int \<Rightarrow> int \<Rightarrow> int \<Rightarrow> bool" where
  "valid_date y m d \<longleftrightarrow> 1 \<le> m \<and> m \<le> 12 \<and> 1 \<le> d \<and> d \<le> days_in m y"

definition get_date :: "string \<Rightarrow> ((int \<times> int \<times> int) \<times> string) option" where
  "get_date s = do {
     (y, r) \<leftarrow> get4 s; r \<leftarrow> expect CHR ''-'' r;
     (m, r) \<leftarrow> get2 r; r \<leftarrow> expect CHR ''-'' r;
     (d, r) \<leftarrow> get2 r; Some ((y, m, d), r) }"

definition parse_rfc3339 :: "string \<Rightarrow> gotime option" where
  "parse_rfc3339 s = do {
     ((y, m, d), r) \<leftarrow> get_date s; r \<leftarrow> expect CHR ''T'' r;
     (h, r) \<leftarrow> get1or2 r; r \<leftarrow> expect CHR '':'' r;
     (mi, r) \<leftarrow> get2 r; r \<leftarrow> expect CHR '':'' r;
     (sec, r) \<leftarrow> get2 r;
     (let (f, r) = get_frac r in do {
       (z, r) \<leftarrow> get_zone r;
       if r \<noteq> [] \<or> \<not> valid_clock h mi sec \<or> \<not> valid_date y m d then None
       else let w = wall_sec (days_of_civil y m d) h mi sec
            in Some (case z of
                None \<Rightarrow> \<lparr>ns = w * sec_ns + f, tloc = UTC\<rparr>
              | Some off \<Rightarrow> \<lparr>ns = (w - off) * sec_ns + f,
                           tloc = (if off = 0 then UTC else FixedZone '''' off)\<rparr>) }) }"

text \<open>
  \<^verbatim>\<open>time.Parse\<close> with the layouts \<^verbatim>\<open>15:04\<close> and \<^verbatim>\<open>15:04:05\<close>: hour, minute and the nanoseconds beyond
  it. A fraction may follow the seconds.
\<close>

definition parse_hm :: "string \<Rightarrow> (int \<times> int \<times> int) option" where
  "parse_hm s = do {
     (h, r) \<leftarrow> get1or2 s; r \<leftarrow> expect CHR '':'' r; (m, r) \<leftarrow> get2 r;
     if r = [] \<and> valid_clock h m 0 then Some (h, m, 0) else None }"

definition parse_hms :: "string \<Rightarrow> (int \<times> int \<times> int) option" where
  "parse_hms s = do {
     (h, r) \<leftarrow> get1or2 s; r \<leftarrow> expect CHR '':'' r; (m, r) \<leftarrow> get2 r; r \<leftarrow> expect CHR '':'' r; (sec, r) \<leftarrow> get2 r;
     (let (f, r) = get_frac r
      in if r = [] \<and> valid_clock h m sec then Some (h, m, sec * sec_ns + f) else None) }"

text \<open>\<^verbatim>\<open>time.Parse(time.DateOnly, s)\<close>: the day number of a \<^verbatim>\<open>YYYY-MM-DD\<close> text.\<close>

definition parse_dateonly :: "string \<Rightarrow> int option" where
  "parse_dateonly s = do {
     ((y, m, d), r) \<leftarrow> get_date s;
     if r \<noteq> [] \<or> \<not> valid_date y m d then None else Some (days_of_civil y m d) }"

subsection \<open>Writing\<close>

definition digit_char :: "int \<Rightarrow> char" where
  "digit_char v = char_of (nat v + 48)"

fun show_nat :: "nat \<Rightarrow> string" where
  "show_nat n = (if n < 10 then [digit_char (int n)] else show_nat (n div 10) @ [digit_char (int (n mod 10))])"

declare show_nat.simps [simp del]

definition pad2 :: "int \<Rightarrow> string" where
  "pad2 v = [digit_char (v div 10), digit_char (v mod 10)]"

text \<open>
  A column of type \<^verbatim>\<open>TIME\<close>: whatever clock was written, it reads back as \<^verbatim>\<open>HH:MM:SS\<close>, as the test of
  the scheduling links records.
\<close>

definition time_column :: "string \<Rightarrow> string" where
  "time_column s = (case parse_hm s of Some (h, m, _) \<Rightarrow> pad2 h @ '':'' @ pad2 m @ '':00'' | None \<Rightarrow> s)"

definition pad4 :: "int \<Rightarrow> string" where
  "pad4 v = pad2 (v div 100) @ pad2 (v mod 100)"

definition show_year :: "int \<Rightarrow> string" where
  "show_year y =
     (if 0 \<le> y \<and> y < 10000 then pad4 y
      else if y < 0 then CHR ''-'' # (if -10000 < y then pad4 (- y) else show_nat (nat (- y)))
      else show_nat (nat y))"

definition format_date :: "int \<Rightarrow> string" where
  "format_date dn = (case civil_of_days dn of (y, m, d) \<Rightarrow>
     show_year y @ ''-'' @ pad2 m @ ''-'' @ pad2 d)"

definition format_zone :: "int \<Rightarrow> string" where
  "format_zone off =
     (if off = 0 then ''Z''
      else let z = go_quot off 60; a = \<bar>z\<bar>
           in (if z < 0 then ''-'' else ''+'') @ pad2 (a div 60) @ '':'' @ pad2 (a mod 60))"

definition format_rfc3339 :: "gotime \<Rightarrow> string" where
  "format_rfc3339 t = format_date (date_of t) @ ''T'' @ pad2 (Hour t) @ '':'' @ pad2 (Minute t) @
     '':'' @ pad2 (Second t) @ format_zone (offset_at (tloc t) (unix_sec t))"

subsection \<open>Reading back what was written\<close>

lemma char_code_digit: "0 \<le> v \<Longrightarrow> v < 10 \<Longrightarrow> char_code (digit_char v) = nat v + 48"
  by (simp add: digit_char_def of_char_of)

lemma digit_char_digit [simp]: "0 \<le> v \<Longrightarrow> v < 10 \<Longrightarrow> is_digit (digit_char v)"
  by (simp add: is_digit_def char_code_digit)

lemma digit_val_digit_char [simp]: "0 \<le> v \<Longrightarrow> v < 10 \<Longrightarrow> digit_val (digit_char v) = v"
  by (simp add: digit_val_def char_code_digit)

lemma get2_pad2 [simp]: "0 \<le> v \<Longrightarrow> v < 100 \<Longrightarrow> get2 (pad2 v @ r) = Some (v, r)"
  by (simp add: get2_def pad2_def)

lemma digit_char_plain:
  assumes "0 \<le> v" "v < 10"
  shows "digit_char v \<noteq> CHR '':''" "\<not> is_space (digit_char v)" "digit_char v \<noteq> CHR ''-''" "digit_char v \<noteq> CHR ''+''"
  using char_code_digit [OF assms] assms by (auto simp: is_space_def)

lemma parse_hm_range:
  assumes "parse_hm s = Some (h, m, x)"
  shows "0 \<le> h" "h < 24" "0 \<le> m" "m < 60"
proof -
  have "0 \<le> digit_val c \<and> digit_val c \<le> 9" if "is_digit c" for c using that by (auto simp: is_digit_def digit_val_def)
  then show "0 \<le> h" "h < 24" "0 \<le> m" "m < 60" using assms
    by (fastforce simp: parse_hm_def get1or2_def get2_def expect_def valid_clock_def split: bind_splits if_splits list.splits option.splits)+
qed

lemma scan_pad2_then: "0 \<le> v \<Longrightarrow> v < 100 \<Longrightarrow> r = [] \<or> \<not> is_digit (hd r) \<Longrightarrow> scan_int (pad2 v @ r) = Some (v, r)"
  by (cases r) (simp_all add: scan_int_def pad2_def scan_sign_def digits_val_def fits_int64_def digit_char_plain Let_def)

lemma scan_pad2: "0 \<le> v \<Longrightarrow> v < 100 \<Longrightarrow> scan_int (pad2 v) = Some (v, [])"
  using scan_pad2_then [of v "[]"] by simp

lemma get1or2_pad2 [simp]: "0 \<le> v \<Longrightarrow> v < 100 \<Longrightarrow> get1or2 (pad2 v @ r) = Some (v, r)"
  by (simp add: get1or2_def)

lemma get4_pad4 [simp]: "0 \<le> v \<Longrightarrow> v < 10000 \<Longrightarrow> get4 (pad4 v @ r) = Some (v, r)"
  by (simp add: get4_def pad4_def)

lemma expect_Cons [simp]: "expect c (c # r) = Some r"
  by (simp add: expect_def)

lemma get_date_format:
  assumes "civil_of_days dn = (y, m, d)" "0 \<le> y" "y < 10000"
  shows "get_date (format_date dn @ r) = Some ((y, m, d), r)"
  using civil_of_days_month [OF assms(1)] assms
  by (simp add: get_date_def format_date_def show_year_def)

lemma days_of_civil_back: "civil_of_days dn = (y, m, d) \<Longrightarrow> days_of_civil y m d = dn"
  using days_of_civil_of_days [of dn] by simp

lemma get_frac_zone [simp]: "get_frac (format_zone off) = (0, format_zone off)"
  by (simp add: get_frac_def format_zone_def Let_def pad2_def)

lemma get_zone_format:
  assumes "off mod 60 = 0" "\<bar>off\<bar> < day_sec"
  shows "get_zone (format_zone off) = Some (if off = 0 then None else Some off, [])"
proof (cases "off = 0")
  case False
  define z where "z = go_quot off 60"
  define q r where "q = \<bar>z\<bar> div 60" and "r = \<bar>z\<bar> mod 60"
  have oz: "off = z * 60"
    using assms(1) unfolding z_def by (metis go_quot_mult_self mod_0_imp_dvd dvd_div_mult_self zero_less_numeral)
  have z: "\<bar>z\<bar> = 60 * q + r" by (simp add: q_def r_def)
  have b: "0 \<le> q" "q < 25" "r < 60" "0 \<le> r"
    using assms(2) oz by (auto simp: q_def r_def)
  have "get2 (pad2 r) = Some (r, [])"
    using get2_pad2 [of r "[]"] b by simp
  moreover have "format_zone off = (if z < 0 then ''-'' else ''+'') @ pad2 q @ '':'' @ pad2 r"
    using False by (simp add: format_zone_def Let_def z_def q_def r_def)
  ultimately show ?thesis
    using False b oz z by (auto simp: get_zone_def)
qed (simp add: format_zone_def get_zone_def)

lemma clock_parts:
  "0 \<le> Hour t" "Hour t < 24" "0 \<le> Minute t" "Minute t < 60" "0 \<le> Second t" "Second t < 60"
  "Hour t * 3600 + Minute t * 60 + Second t = clock_sec t"
proof -
  have c: "0 \<le> clock_sec t" "clock_sec t < day_sec" by (simp_all add: clock_sec_def)
  then show "0 \<le> Hour t" "Hour t < 24" "0 \<le> Minute t" "Minute t < 60" "0 \<le> Second t" "Second t < 60"
    by (auto simp: Hour_def Minute_def Second_def)
  have "clock_sec t mod 60 = clock_sec t mod 3600 mod 60" by (simp add: mod_mod_cancel)
  then show "Hour t * 3600 + Minute t * 60 + Second t = clock_sec t"
    by (simp add: Hour_def Minute_def Second_def)
qed

lemma wall_sec_date_clock:
  "wall_sec (date_of t) (Hour t) (Minute t) (Second t) = local_sec t"
  using clock_parts(7) [of t] div_mult_mod_eq [of "local_sec t" day_sec]
  unfolding wall_sec_def date_of_def clock_sec_def by linarith

text \<open>
  An instant in a zone whose offset is a whole number of minutes reads back from its text as
  the same instant, up to the fraction of a second that the text does not show, for the years
  that have four digits.
\<close>

theorem parse_format_rfc3339:
  fixes t :: gotime
  defines "off \<equiv> offset_at (tloc t) (unix_sec t)"
  assumes "civil_of_days (date_of t) = (y, m, d)" "0 \<le> y" "y < 10000"
    and "off mod 60 = 0" "\<bar>off\<bar> < day_sec"
  shows "parse_rfc3339 (format_rfc3339 t) =
     Some \<lparr>ns = unix_sec t * sec_ns, tloc = (if off = 0 then UTC else FixedZone '''' off)\<rparr>"
proof -
  have day: "days_of_civil y m d = date_of t" using assms(2) by (rule days_of_civil_back)
  have date: "valid_date y m d"
    using civil_of_days_month [OF assms(2)] civil_of_days_valid [OF assms(2)] by (simp add: valid_date_def)
  have clock: "valid_clock (Hour t) (Minute t) (Second t)" using clock_parts [of t] by (simp add: valid_clock_def)
  have wall: "wall_sec (date_of t) (Hour t) (Minute t) (Second t) = unix_sec t + off"
    by (simp add: wall_sec_date_clock local_sec_def off_def)
  show ?thesis
    using clock_parts [of t] assms(5,6) get_date_format [OF assms(2-4)]
    by (simp add: parse_rfc3339_def format_rfc3339_def get_zone_format date clock wall day
        off_def [symmetric])
qed

end
