(* ===== verification/CalendarEvents.thy ===== *)
theory CalendarEvents
  imports Rfc3339
begin

section \<open>CalendarEvents: the provider's event values\<close>

text \<open>
  The fields of the Google Calendar client's \<^verbatim>\<open>Event\<close>, \<^verbatim>\<open>EventDateTime\<close> and \<^verbatim>\<open>EventAttendee\<close>
  that the program reads or writes (the client package itself is not part of the
  repository), and the reading of an event's times shared by the engines
  (\<^verbatim>\<open>backend/engine/booking.go\<close>, \<^verbatim>\<open>parseEventTime\<close>).
\<close>

record event_dt =
  edt_datetime :: string
  edt_date :: string

record attendee =
  at_email :: string
  at_self :: bool
  at_organizer :: bool
  at_status :: string

record event =
  ev_id :: string
  ev_summary :: string
  ev_description :: string
  ev_location :: string
  ev_transparency :: string
  ev_visibility :: string
  ev_color :: string
  ev_status :: string
  ev_start :: "event_dt option"
  ev_end :: "event_dt option"
  ev_organizer_self :: "bool option"
  ev_attendees :: "attendee list"

definition empty_event :: event where
  "empty_event = \<lparr>ev_id = '''', ev_summary = '''', ev_description = '''', ev_location = '''',
     ev_transparency = '''', ev_visibility = '''', ev_color = '''', ev_status = '''',
     ev_start = None, ev_end = None, ev_organizer_self = None, ev_attendees = []\<rparr>"

definition at_time :: "gotime \<Rightarrow> event_dt option" where
  "at_time t = Some \<lparr>edt_datetime = format_rfc3339 t, edt_date = ''''\<rparr>"

definition email_attendee :: "string \<Rightarrow> attendee" where
  "email_attendee e = \<lparr>at_email = e, at_self = False, at_organizer = False, at_status = ''''\<rparr>"

text \<open>An unreadable text is the zero time: the parse error is dropped.\<close>

definition parse_or_zero :: "string \<Rightarrow> gotime" where
  "parse_or_zero s = (case parse_rfc3339 s of Some t \<Rightarrow> t | None \<Rightarrow> zero_time)"

definition parseEventTime :: "event \<Rightarrow> gotime \<times> gotime" where
  "parseEventTime ev = (case (ev_start ev, ev_end ev) of
      (Some s, Some e) \<Rightarrow> (parse_or_zero (edt_datetime s), parse_or_zero (edt_datetime e))
    | _ \<Rightarrow> (zero_time, zero_time))"

text \<open>
  Both times of an event, where the code goes on only if both are present and readable
  (\<^verbatim>\<open>buildBusy\<close>, \<^verbatim>\<open>ComputeBufferBlocks\<close>, \<^verbatim>\<open>classifyEvents\<close>).
\<close>

definition event_times :: "event \<Rightarrow> (gotime \<times> gotime) option" where
  "event_times ev = (case (ev_start ev, ev_end ev) of
      (Some s, Some e) \<Rightarrow>
        (case (parse_rfc3339 (edt_datetime s), parse_rfc3339 (edt_datetime e)) of
           (Some a, Some b) \<Rightarrow> Some (a, b) | _ \<Rightarrow> None)
    | _ \<Rightarrow> None)"

lemma event_times_parseEventTime: "event_times ev = Some (a, b) \<Longrightarrow> parseEventTime ev = (a, b)"
  by (auto simp: event_times_def parseEventTime_def parse_or_zero_def split: option.splits)

end
