(* ===== verification/Intervals.thy ===== *)
theory Intervals
  imports CalendarEvents
begin

section \<open>Intervals: busy time and its complement\<close>

text \<open>
  The interval type of \<^verbatim>\<open>backend/engine/focus_time.go\<close> and the functions every engine builds
  on: sorting and merging busy intervals, subtracting them from a window, the overlap tests
  (\<^verbatim>\<open>overlapsMerged\<close>, \<^verbatim>\<open>overlapsWith\<close>), the largest free slot and the first free slot on a
  15-minute grid. An instant is covered by an interval that starts at or before it and ends
  after it.
\<close>

record interval =
  istart :: gotime
  iend :: gotime

abbreviation ivl :: "gotime \<Rightarrow> gotime \<Rightarrow> interval" where
  "ivl a b \<equiv> \<lparr>istart = a, iend = b\<rparr>"

abbreviation lo :: "interval \<Rightarrow> int" where "lo iv \<equiv> ns (istart iv)"
abbreviation hi :: "interval \<Rightarrow> int" where "hi iv \<equiv> ns (iend iv)"

subsection \<open>The source's functions\<close>

definition start_before :: "interval \<Rightarrow> interval \<Rightarrow> bool" where
  "start_before a b \<longleftrightarrow> Before (istart a) (istart b)"

definition sortIntervals :: "interval list \<Rightarrow> interval list" where
  "sortIntervals ivs = insertion_sort start_before ivs"

text \<open>
  The loop of \<^verbatim>\<open>mergeIntervals\<close>: \<open>cur\<close> is the last merged interval, which the next one
  extends, or which is finished when the next one starts after its end.
\<close>

fun merge_step :: "interval \<Rightarrow> interval list \<Rightarrow> interval list" where
  "merge_step cur [] = [cur]"
| "merge_step cur (iv # ivs) =
     (if \<not> After (istart iv) (iend cur)
      then merge_step (if After (iend iv) (iend cur) then cur\<lparr>iend := iend iv\<rparr> else cur) ivs
      else cur # merge_step iv ivs)"

definition mergeIntervals :: "interval list \<Rightarrow> interval list" where
  "mergeIntervals ivs = (case sortIntervals ivs of [] \<Rightarrow> [] | iv # rest \<Rightarrow> merge_step iv rest)"

definition subtract_one :: "interval \<Rightarrow> interval \<Rightarrow> interval list" where
  "subtract_one b f =
     (if Before (iend b) (istart f) \<or> After (istart b) (iend f) then [f]
      else (if Before (istart f) (istart b) then [ivl (istart f) (istart b)] else []) @
           (if Before (iend b) (iend f) then [ivl (iend b) (iend f)] else []))"

definition subtractIntervals :: "interval \<Rightarrow> interval list \<Rightarrow> interval list" where
  "subtractIntervals whole busy = foldl (\<lambda>free b. concat (map (subtract_one b) free)) [whole] busy"

definition overlaps :: "interval \<Rightarrow> interval \<Rightarrow> bool" where
  "overlaps iv b \<longleftrightarrow> Before (istart iv) (iend b) \<and> After (iend iv) (istart b)"

definition overlapsMerged :: "interval \<Rightarrow> interval list \<Rightarrow> bool" where
  "overlapsMerged iv merged \<longleftrightarrow> list_ex (overlaps iv) merged"

definition overlapsWith :: "interval \<Rightarrow> interval list \<Rightarrow> bool" where
  "overlapsWith iv others \<longleftrightarrow> list_ex (overlaps iv) others"

definition largestSlot :: "interval list \<Rightarrow> int" where
  "largestSlot slots = foldl (\<lambda>m s. if Sub (iend s) (istart s) > m then Sub (iend s) (istart s) else m) 0 slots"

text \<open>
  \<^verbatim>\<open>findFirstSlot\<close> (\<^verbatim>\<open>backend/engine/habits.go\<close>) steps by 15 minutes while the slot still ends
  by the window's end.
\<close>

function findFirstSlot :: "gotime \<Rightarrow> gotime \<Rightarrow> int \<Rightarrow> interval list \<Rightarrow> interval option" where
  "findFirstSlot t windowEnd dur merged =
     (if Before (Add t dur) windowEnd \<or> EqualT (Add t dur) windowEnd
      then let iv = ivl t (Add t dur)
           in if \<not> overlapsMerged iv merged then Some iv
              else findFirstSlot (Add t (15 * minute_ns)) windowEnd dur merged
      else None)"
  by pat_completeness auto
termination
  by (relation "measure (\<lambda>(t, w, dur, m). nat (ns w - ns t - dur + 1))")
    (auto simp: time_cmp_defs)

declare findFirstSlot.simps [simp del]

subsection \<open>Coverage\<close>

definition covers :: "interval \<Rightarrow> int \<Rightarrow> bool" where
  "covers iv x \<longleftrightarrow> lo iv \<le> x \<and> x < hi iv"

definition covered :: "interval list \<Rightarrow> int \<Rightarrow> bool" where
  "covered ivs x \<longleftrightarrow> list_ex (\<lambda>iv. covers iv x) ivs"

definition valid_ivl :: "interval \<Rightarrow> bool" where
  "valid_ivl iv \<longleftrightarrow> lo iv \<le> hi iv"

text \<open>Apart and in order: each interval ends strictly before the next one starts.\<close>

definition apart :: "interval list \<Rightarrow> bool" where
  "apart ivs \<longleftrightarrow> sorted_wrt (\<lambda>a b. hi a < lo b) ivs"

lemma overlaps_iff [ivl_simps]: "overlaps a b \<longleftrightarrow> lo a < hi b \<and> lo b < hi a"
  by (auto simp: overlaps_def time_cmp_defs)

lemma overlapsMerged_iff [ivl_simps]: "overlapsMerged iv bs \<longleftrightarrow> (\<exists>b \<in> set bs. lo iv < hi b \<and> lo b < hi iv)"
  by (auto simp: overlapsMerged_def overlaps_iff list_ex_iff)

lemma overlapsWith_eq: "overlapsWith iv bs = overlapsMerged iv bs"
  by (simp add: overlapsWith_def overlapsMerged_def)

lemma covered_iff [ivl_simps]: "covered ivs x \<longleftrightarrow> (\<exists>iv \<in> set ivs. lo iv \<le> x \<and> x < hi iv)"
  by (auto simp: covered_def covers_def list_ex_iff)

lemma covered_simps [simp]: "\<not> covered [] x" "covered (iv # ivs) x \<longleftrightarrow> covers iv x \<or> covered ivs x"
  "covered (xs @ ys) x \<longleftrightarrow> covered xs x \<or> covered ys x"
  by (auto simp: covered_def)

text \<open>
  For intervals that are not reversed, two of them overlap exactly when an instant is covered
  by both, unless one of them is empty inside the other.
\<close>

lemma overlaps_covers:
  assumes "lo a < hi a" "lo b < hi b"
  shows "overlaps a b \<longleftrightarrow> (\<exists>x. covers a x \<and> covers b x)"
proof
  assume "overlaps a b"
  then have "covers a (max (lo a) (lo b)) \<and> covers b (max (lo a) (lo b))"
    using assms by (auto simp: overlaps_iff covers_def)
  then show "\<exists>x. covers a x \<and> covers b x" by blast
next
  assume "\<exists>x. covers a x \<and> covers b x"
  then show "overlaps a b" by (auto simp: overlaps_iff covers_def)
qed

subsection \<open>Sorting and merging\<close>

interpretation by_start: key_sorter start_before lo
  by unfold_locales (simp add: start_before_def Before_def)

lemma sortIntervals_eq: "sortIntervals ivs = sort_key lo ivs"
  by (simp add: sortIntervals_def by_start.insertion_sort_eq_sort_key)

lemma set_sortIntervals [simp]: "set (sortIntervals ivs) = set ivs"
  by (simp add: sortIntervals_def)

lemma sortIntervals_Nil_iff [simp]: "sortIntervals ivs = [] \<longleftrightarrow> ivs = []"
  by (simp add: sortIntervals_def)

lemma sortIntervals_Nil [simp]: "sortIntervals [] = []"
  by (simp add: sortIntervals_def)

lemma sorted_sortIntervals: "sorted_wrt (\<lambda>a b. lo a \<le> lo b) (sortIntervals ivs)"
  unfolding sortIntervals_def by (rule by_start.insertion_sort_sorted_wrt)

lemma merge_step_covered:
  assumes "sorted_wrt (\<lambda>a b. lo a \<le> lo b) (cur # ivs)" "valid_ivl cur" "list_all valid_ivl ivs"
  shows "covered (merge_step cur ivs) x \<longleftrightarrow> covers cur x \<or> covered ivs x"
  using assms
proof (induction cur ivs rule: merge_step.induct)
  case (2 cur iv ivs)
  then show ?case by (auto simp: covers_def time_cmp_defs valid_ivl_def)
qed simp

lemma merge_step_overlaps:
  assumes "sorted_wrt (\<lambda>a b. lo a \<le> lo b) (cur # ivs)" "list_all valid_ivl (cur # ivs)" "lo iv < hi iv"
  shows "overlapsMerged iv (merge_step cur ivs) \<longleftrightarrow> overlaps iv cur \<or> overlapsMerged iv ivs"
  using assms
proof (induction cur ivs rule: merge_step.induct)
  case (2 cur b ivs)
  then show ?case
    by (auto simp: overlapsMerged_def overlaps_def time_cmp_defs valid_ivl_def)
qed (simp add: overlapsMerged_def)

lemma merge_step_hd: "\<exists>iv rest. merge_step cur ivs = iv # rest \<and> istart iv = istart cur"
  by (induction cur ivs rule: merge_step.induct) auto

lemma merge_step_apart:
  assumes "sorted_wrt (\<lambda>a b. lo a \<le> lo b) (cur # ivs)"
  shows "apart (merge_step cur ivs) \<and> (\<forall>iv \<in> set (merge_step cur ivs). lo cur \<le> lo iv)"
  using assms
proof (induction cur ivs rule: merge_step.induct)
  case (2 cur iv ivs)
  show ?case
  proof (cases "After (istart iv) (iend cur)")
    case True
    then have ih: "apart (merge_step iv ivs)" "\<forall>b \<in> set (merge_step iv ivs). lo iv \<le> lo b"
      using 2 by auto
    then show ?thesis using True 2(3) by (fastforce simp: apart_def time_cmp_defs)
  next
    case False
    then show ?thesis using 2 by (auto split: if_splits)
  qed
qed (simp add: apart_def)

lemma merge_step_ends: "b \<in> set (merge_step cur ivs) \<Longrightarrow>
   istart b \<in> istart ` set (cur # ivs) \<and> iend b \<in> iend ` set (cur # ivs)"
  by (induction cur ivs rule: merge_step.induct) (auto split: if_splits)

lemma merge_step_valid: "list_all valid_ivl (cur # ivs) \<Longrightarrow> list_all valid_ivl (merge_step cur ivs)"
  by (induction cur ivs rule: merge_step.induct) (auto simp: valid_ivl_def time_cmp_defs)

text \<open>Merging keeps exactly the covered instants.\<close>

lemma mergeIntervals_covered:
  assumes "list_all valid_ivl ivs"
  shows "covered (mergeIntervals ivs) x \<longleftrightarrow> covered ivs x"
proof (cases "sortIntervals ivs")
  case (Cons iv rest)
  have "list_all valid_ivl (iv # rest)" and set: "set ivs = set (iv # rest)"
    using assms Cons set_sortIntervals [of ivs] by (simp_all add: list_all_iff)
  then show ?thesis
    using Cons merge_step_covered [of iv rest x] sorted_sortIntervals [of ivs]
    by (simp add: mergeIntervals_def covered_def list_ex_iff)
qed (simp add: mergeIntervals_def)

lemma mergeIntervals_overlaps:
  assumes "list_all valid_ivl ivs" "lo iv < hi iv"
  shows "overlapsMerged iv (mergeIntervals ivs) \<longleftrightarrow> overlapsMerged iv ivs"
proof (cases "sortIntervals ivs")
  case (Cons b rest)
  have "list_all valid_ivl (b # rest)" and set: "set ivs = set (b # rest)"
    using assms Cons set_sortIntervals [of ivs] by (simp_all add: list_all_iff)
  then show ?thesis
    using Cons merge_step_overlaps [of b rest iv] sorted_sortIntervals [of ivs] assms(2)
    by (simp add: mergeIntervals_def overlapsMerged_def list_ex_iff)
qed (simp add: mergeIntervals_def)

lemma mergeIntervals_apart: "apart (mergeIntervals ivs)"
proof (cases "sortIntervals ivs")
  case (Cons iv rest)
  then show ?thesis
    using sorted_sortIntervals [of ivs] merge_step_apart [of iv rest] by (simp add: mergeIntervals_def)
qed (simp add: mergeIntervals_def apart_def)

lemma mergeIntervals_valid:
  assumes "list_all valid_ivl ivs"
  shows "list_all valid_ivl (mergeIntervals ivs)"
proof (cases "sortIntervals ivs")
  case (Cons b rest)
  have "list_all valid_ivl (b # rest)"
    using assms Cons set_sortIntervals [of ivs] by (simp add: list_all_iff)
  then show ?thesis using Cons by (simp add: mergeIntervals_def merge_step_valid)
qed (simp add: mergeIntervals_def)

text \<open>
  No merged interval is ever narrower than what went in, also when some intervals are
  reversed: every interval lies inside a merged one.
\<close>

lemma merge_step_keeps:
  assumes "sorted_wrt (\<lambda>a b. lo a \<le> lo b) (cur # ivs)" "b \<in> set (cur # ivs)"
  shows "\<exists>m \<in> set (merge_step cur ivs). lo m \<le> lo b \<and> hi b \<le> hi m"
  using assms
proof (induction cur ivs arbitrary: b rule: merge_step.induct)
  case (2 cur iv ivs)
  show ?case
  proof (cases "After (istart iv) (iend cur)")
    case True
    then show ?thesis using "2.IH"(2) "2.prems" by auto
  next
    case False
    let ?c = "if After (iend iv) (iend cur) then cur\<lparr>iend := iend iv\<rparr> else cur"
    have c: "lo ?c = lo cur" "hi cur \<le> hi ?c" "hi iv \<le> hi ?c" by (auto simp: time_cmp_defs)
    have s: "sorted_wrt (\<lambda>a b. lo a \<le> lo b) (?c # ivs)" using "2.prems"(1) c(1) by auto
    have "\<exists>b' \<in> set (?c # ivs). lo b' \<le> lo b \<and> hi b \<le> hi b'"
    proof (cases "b \<in> set ivs")
      case False
      then have "lo ?c \<le> lo b" "hi b \<le> hi ?c" using "2.prems" c by auto
      then show ?thesis by (intro bexI [of _ ?c]) simp_all
    qed auto
    then obtain b' where b': "b' \<in> set (?c # ivs)" "lo b' \<le> lo b" "hi b \<le> hi b'" by blast
    obtain m where m: "m \<in> set (merge_step ?c ivs)" "lo m \<le> lo b'" "hi b' \<le> hi m"
      using "2.IH"(1) [OF False s b'(1)] by blast
    have "merge_step cur (iv # ivs) = merge_step ?c ivs" using False by simp
    then show ?thesis using m b'(2,3) by (intro bexI [of _ m]) simp_all
  qed
qed simp

lemma mergeIntervals_keeps:
  assumes "b \<in> set ivs"
  shows "\<exists>m \<in> set (mergeIntervals ivs). lo m \<le> lo b \<and> hi b \<le> hi m"
proof (cases "sortIntervals ivs")
  case Nil
  then show ?thesis using assms by simp
next
  case (Cons iv rest)
  then have "b \<in> set (iv # rest)" using assms set_sortIntervals [of ivs] by simp
  then show ?thesis
    using merge_step_keeps [of iv rest b] sorted_sortIntervals [of ivs] Cons by (simp add: mergeIntervals_def)
qed

lemma mergeIntervals_overlaps_sound:
  assumes "overlapsMerged iv ivs"
  shows "overlapsMerged iv (mergeIntervals ivs)"
proof -
  obtain b where b: "b \<in> set ivs" "lo iv < hi b" "lo b < hi iv" using assms by (auto simp: overlapsMerged_iff)
  obtain m where "m \<in> set (mergeIntervals ivs)" "lo m \<le> lo b" "hi b \<le> hi m" using mergeIntervals_keeps [OF b(1)] by blast
  then show ?thesis unfolding overlapsMerged_iff using b(2,3) by (intro bexI [of _ m]) simp_all
qed

lemma mergeIntervals_Nil [simp]: "mergeIntervals [] = []"
  by (simp add: mergeIntervals_def)

subsection \<open>Subtracting busy time\<close>

lemma subtract_one_covered:
  assumes "valid_ivl b" "valid_ivl f"
  shows "covered (subtract_one b f) x \<longleftrightarrow> covers f x \<and> \<not> covers b x"
  using assms by (auto simp: subtract_one_def covers_def time_cmp_defs valid_ivl_def)

lemma subtract_one_valid: "valid_ivl f \<Longrightarrow> g \<in> set (subtract_one b f) \<Longrightarrow> valid_ivl g"
  by (auto simp: subtract_one_def valid_ivl_def time_cmp_defs split: if_splits)

lemma subtract_one_within:
  assumes "valid_ivl b" "g \<in> set (subtract_one b f)"
  shows "lo f \<le> lo g" "hi g \<le> hi f" "lo f < hi f \<Longrightarrow> lo g < hi g"
  using assms by (auto simp: subtract_one_def valid_ivl_def time_cmp_defs split: if_splits)

abbreviation subtract_all :: "interval \<Rightarrow> interval list \<Rightarrow> interval list" where
  "subtract_all b free \<equiv> concat (map (subtract_one b) free)"

lemma subtract_all_covered:
  assumes "valid_ivl b" "list_all valid_ivl free"
  shows "covered (subtract_all b free) x \<longleftrightarrow> covered free x \<and> \<not> covers b x"
  using assms(2) by (induction free) (auto simp: subtract_one_covered [OF assms(1)])

lemma subtract_all_valid: "list_all valid_ivl free \<Longrightarrow> list_all valid_ivl (subtract_all b free)"
  by (auto simp: list_all_iff intro: subtract_one_valid)

lemma foldl_subtract_covered:
  assumes "list_all valid_ivl free" "list_all valid_ivl busy"
  shows "covered (foldl (\<lambda>fr b. subtract_all b fr) free busy) x \<longleftrightarrow> covered free x \<and> \<not> covered busy x"
  using assms
  by (induction busy arbitrary: free) (simp_all add: subtract_all_valid subtract_all_covered conj_assoc)

lemma foldl_subtract_within:
  assumes "list_all valid_ivl busy" "g \<in> set (foldl (\<lambda>fr b. subtract_all b fr) free busy)"
  shows "\<exists>f \<in> set free. lo f \<le> lo g \<and> hi g \<le> hi f \<and> (lo f < hi f \<longrightarrow> lo g < hi g)"
  using assms
proof (induction busy arbitrary: free)
  case (Cons b busy)
  then obtain f' where f': "f' \<in> set (subtract_all b free)" "lo f' \<le> lo g" "hi g \<le> hi f'"
    "lo f' < hi f' \<longrightarrow> lo g < hi g" by fastforce
  then obtain f where f: "f \<in> set free" "f' \<in> set (subtract_one b f)" by auto
  have "valid_ivl b" using Cons.prems(1) by simp
  note within = subtract_one_within [OF this f(2)]
  show ?case using f(1) f' within by (intro bexI [of _ f]) auto
qed auto

text \<open>
  The free time is the window less the busy time, instant by instant, and every free interval
  lies in the window.
\<close>

lemma subtractIntervals_covered:
  assumes "valid_ivl whole" "list_all valid_ivl busy"
  shows "covered (subtractIntervals whole busy) x \<longleftrightarrow> covers whole x \<and> \<not> covered busy x"
  using foldl_subtract_covered [of "[whole]" busy x] assms by (simp add: subtractIntervals_def)

lemma subtractIntervals_within:
  assumes "list_all valid_ivl busy" "f \<in> set (subtractIntervals whole busy)"
  shows "lo whole \<le> lo f" "hi f \<le> hi whole" "lo whole < hi whole \<Longrightarrow> lo f < hi f"
  using foldl_subtract_within [of busy f "[whole]"] assms by (auto simp: subtractIntervals_def)

lemma subtract_one_free: "g \<in> set (subtract_one b f) \<Longrightarrow> \<not> overlaps g b"
  by (auto simp: subtract_one_def overlaps_iff time_cmp_defs split: if_splits)

lemma subtractIntervals_free:
  assumes "list_all valid_ivl busy" "f \<in> set (subtractIntervals whole busy)" "b \<in> set busy"
  shows "\<not> overlaps f b"
proof -
  obtain pre post where busy: "busy = pre @ b # post" using assms(3) by (meson split_list)
  let ?fr = "subtract_all b (foldl (\<lambda>fr b. subtract_all b fr) [whole] pre)"
  have "f \<in> set (foldl (\<lambda>fr b. subtract_all b fr) ?fr post)"
    using assms(2) by (simp add: subtractIntervals_def busy)
  then obtain g where g: "g \<in> set ?fr" "lo g \<le> lo f" "hi f \<le> hi g"
    using foldl_subtract_within [of post f ?fr] assms(1) busy by auto
  then have "\<not> overlaps g b" using subtract_one_free by auto
  then show ?thesis using g(2,3) by (auto simp: overlaps_iff)
qed

text \<open>The free intervals are in order and do not overlap.\<close>

definition ordered_ivls :: "interval list \<Rightarrow> bool" where
  "ordered_ivls ivs \<longleftrightarrow> sorted_wrt (\<lambda>a b. hi a \<le> lo b) ivs"

lemma subtract_one_ordered: "valid_ivl b \<Longrightarrow> ordered_ivls (subtract_one b f)"
  by (auto simp: ordered_ivls_def subtract_one_def valid_ivl_def time_cmp_defs)

lemma subtract_all_ordered:
  assumes "valid_ivl b" "ordered_ivls free"
  shows "ordered_ivls (subtract_all b free)"
  using assms(2)
proof (induction free)
  case (Cons f free)
  have "hi x \<le> lo y" if x: "x \<in> set (subtract_one b f)" and y: "y \<in> set (subtract_all b free)" for x y
  proof -
    obtain g where g: "g \<in> set free" "y \<in> set (subtract_one b g)" using y by auto
    then have "hi f \<le> lo g" using Cons.prems by (simp add: ordered_ivls_def)
    then show ?thesis using subtract_one_within(2) [OF assms(1) x] subtract_one_within(1) [OF assms(1) g(2)] by linarith
  qed
  then show ?case
    using Cons subtract_one_ordered [OF assms(1), of f] by (auto simp: ordered_ivls_def sorted_wrt_append)
qed (simp add: ordered_ivls_def)

lemma subtractIntervals_ordered:
  assumes "list_all valid_ivl busy"
  shows "ordered_ivls (subtractIntervals whole busy)"
proof -
  have "ordered_ivls free \<Longrightarrow> ordered_ivls (foldl (\<lambda>fr b. subtract_all b fr) free busy)" for free
    using assms by (induction busy arbitrary: free) (auto simp: subtract_all_ordered)
  then show ?thesis by (simp add: subtractIntervals_def ordered_ivls_def)
qed

text \<open>A free interval overlaps no busy interval, also when the busy time is first merged.\<close>

lemma free_of_busy:
  assumes "list_all valid_ivl busy" "lo whole < hi whole"
    and "f \<in> set (subtractIntervals whole (mergeIntervals busy))" "b \<in> set busy"
  shows "\<not> overlaps f b"
proof -
  have v: "list_all valid_ivl (mergeIntervals busy)" using mergeIntervals_valid [OF assms(1)] .
  have f: "lo f < hi f" using subtractIntervals_within(3) [OF v assms(3)] assms(2) by blast
  have "\<not> overlapsMerged f (mergeIntervals busy)"
    using subtractIntervals_free [OF v assms(3)] by (auto simp: overlapsMerged_def list_ex_iff)
  then have "\<not> overlapsMerged f busy" using mergeIntervals_overlaps [OF assms(1) f] by simp
  then show ?thesis using assms(4) by (auto simp: overlapsMerged_def list_ex_iff)
qed

text \<open>Conversely, a stretch of the window that meets no busy time lies in one free interval.\<close>

lemma subtract_one_gap:
  assumes "lo f \<le> lo iv" "hi iv \<le> hi f" "lo iv < hi iv" "\<not> overlaps iv b"
  shows "\<exists>g \<in> set (subtract_one b f). lo g \<le> lo iv \<and> hi iv \<le> hi g"
  using assms by (auto simp: subtract_one_def overlaps_iff time_cmp_defs)

lemma foldl_subtract_gap:
  assumes "f \<in> set free" "lo f \<le> lo iv" "hi iv \<le> hi f" "lo iv < hi iv" "\<forall>b \<in> set busy. \<not> overlaps iv b"
  shows "\<exists>g \<in> set (foldl (\<lambda>fr b. subtract_all b fr) free busy). lo g \<le> lo iv \<and> hi iv \<le> hi g"
  using assms
proof (induction busy arbitrary: free f)
  case (Cons b busy)
  obtain g where g: "g \<in> set (subtract_one b f)" "lo g \<le> lo iv" "hi iv \<le> hi g"
    using subtract_one_gap Cons.prems by (meson list.set_intros(1))
  then have "g \<in> set (subtract_all b free)" using Cons.prems(1) by auto
  from Cons.IH [OF this g(2,3)] show ?case using Cons.prems(4,5) by simp
qed auto

lemma gap_of_free:
  assumes "list_all valid_ivl busy" "lo whole \<le> lo iv" "hi iv \<le> hi whole" "lo iv < hi iv"
    and "\<And>b. b \<in> set busy \<Longrightarrow> \<not> overlaps iv b"
  shows "\<exists>f \<in> set (subtractIntervals whole (mergeIntervals busy)). lo f \<le> lo iv \<and> hi iv \<le> hi f"
proof -
  have "\<not> overlapsMerged iv busy" using assms(5) by (auto simp: overlapsMerged_def list_ex_iff)
  then have "\<forall>b \<in> set (mergeIntervals busy). \<not> overlaps iv b"
    using mergeIntervals_overlaps [OF assms(1,4)] by (auto simp: overlapsMerged_def list_ex_iff)
  then show ?thesis
    unfolding subtractIntervals_def using foldl_subtract_gap [of whole "[whole]" iv "mergeIntervals busy"] assms(2-4) by simp
qed

subsection \<open>The largest free slot\<close>

lemma foldl_largest:
  "(\<forall>s \<in> set slots. Sub (iend s) (istart s) \<le> foldl (\<lambda>m s. if Sub (iend s) (istart s) > m then Sub (iend s) (istart s) else m) m0 slots)
   \<and> m0 \<le> foldl (\<lambda>m s. if Sub (iend s) (istart s) > m then Sub (iend s) (istart s) else m) m0 slots
   \<and> (foldl (\<lambda>m s. if Sub (iend s) (istart s) > m then Sub (iend s) (istart s) else m) m0 slots = m0
      \<or> (\<exists>s \<in> set slots. foldl (\<lambda>m s. if Sub (iend s) (istart s) > m then Sub (iend s) (istart s) else m) m0 slots = Sub (iend s) (istart s)))"
proof (induction slots arbitrary: m0)
  case (Cons s slots)
  show ?case
    using Cons [of "if Sub (iend s) (istart s) > m0 then Sub (iend s) (istart s) else m0"]
    by (auto split: if_splits)
qed simp

lemma largestSlot_ge: "s \<in> set slots \<Longrightarrow> hi s - lo s \<le> largestSlot slots"
  and largestSlot_nonneg: "0 \<le> largestSlot slots"
  and largestSlot_attained: "largestSlot slots = 0 \<or> (\<exists>s \<in> set slots. largestSlot slots = hi s - lo s)"
  using foldl_largest [of slots 0] by (auto simp: largestSlot_def Sub_def)

subsection \<open>The first free slot on the grid\<close>

lemma findFirstSlot_Some:
  assumes "findFirstSlot t w dur merged = Some iv"
  shows "\<exists>k. istart iv = Add t (int k * (15 * minute_ns)) \<and> iend iv = Add (istart iv) dur \<and>
     hi iv \<le> ns w \<and> \<not> overlapsMerged iv merged \<and>
     (\<forall>j < k. overlapsMerged (ivl (Add t (int j * (15 * minute_ns)))
        (Add (Add t (int j * (15 * minute_ns))) dur)) merged)"
  using assms
proof (induction t w dur merged rule: findFirstSlot.induct)
  case (1 t w dur merged)
  show ?case
  proof (cases "Before (Add t dur) w \<or> EqualT (Add t dur) w")
    case False
    then show ?thesis using "1.prems" by (simp add: findFirstSlot.simps)
  next
    case fits: True
    show ?thesis
    proof (cases "overlapsMerged (ivl t (Add t dur)) merged")
      case False
      then have "iv = ivl t (Add t dur)" using "1.prems" fits by (simp add: findFirstSlot.simps Let_def)
      then show ?thesis using False fits by (intro exI [of _ 0]) (auto simp: time_cmp_defs)
    next
      case True
      let ?u = "Add t (15 * minute_ns)"
      have "findFirstSlot ?u w dur merged = Some iv"
        using "1.prems" True fits by (subst (asm) findFirstSlot.simps) (simp add: Let_def)
      then obtain k where k: "istart iv = Add ?u (int k * (15 * minute_ns))" "iend iv = Add (istart iv) dur"
        "hi iv \<le> ns w" "\<not> overlapsMerged iv merged"
        "\<forall>j < k. overlapsMerged (ivl (Add ?u (int j * (15 * minute_ns)))
           (Add (Add ?u (int j * (15 * minute_ns))) dur)) merged"
        using "1.IH" [OF fits refl] True by blast
      have shift: "Add ?u (int j * (15 * minute_ns)) = Add t (int (Suc j) * (15 * minute_ns))" for j
        by (simp add: algebra_simps)
      have "overlapsMerged (ivl (Add t (int j * (15 * minute_ns)))
           (Add (Add t (int j * (15 * minute_ns))) dur)) merged" if "j < Suc k" for j
        using that k(5) True by (cases j) (simp_all add: algebra_simps)
      then show ?thesis using k(1-4) shift by (intro exI [of _ "Suc k"]) simp
    qed
  qed
qed

lemma findFirstSlot_None:
  assumes "findFirstSlot t w dur merged = None" "ns t + int k * (15 * minute_ns) + dur \<le> ns w"
  shows "overlapsMerged (ivl (Add t (int k * (15 * minute_ns))) (Add (Add t (int k * (15 * minute_ns))) dur)) merged"
  using assms
proof (induction t w dur merged arbitrary: k rule: findFirstSlot.induct)
  case (1 t w dur merged)
  have fits: "Before (Add t dur) w \<or> EqualT (Add t dur) w"
    using "1.prems"(2) by (auto simp: time_cmp_defs)
  have over: "overlapsMerged (ivl t (Add t dur)) merged"
    and rest: "findFirstSlot (Add t (15 * minute_ns)) w dur merged = None"
    using "1.prems"(1) fits by (simp_all add: findFirstSlot.simps [of t w dur merged] Let_def split: if_splits)
  show ?case
  proof (cases k)
    case 0
    then show ?thesis using over by simp
  next
    case (Suc j)
    have "Add (Add t (15 * minute_ns)) (int j * (15 * minute_ns)) = Add t (int k * (15 * minute_ns))"
      by (simp add: Suc algebra_simps)
    then show ?thesis
      using "1.IH" [OF fits refl _ rest, of j] over "1.prems"(2) Suc by (simp add: algebra_simps)
  qed
qed

subsection \<open>Properties\<close>

text \<open>
  C20. Merging busy intervals keeps exactly the covered instants, and leaves intervals that
  are in order with a gap between any two of them.
\<close>

theorem merge_is_union:
  assumes "list_all valid_ivl ivs"
  shows "(covered (mergeIntervals ivs) x \<longleftrightarrow> covered ivs x) \<and> apart (mergeIntervals ivs)"
  using mergeIntervals_covered [OF assms] mergeIntervals_apart by auto

definition at_ns :: "int \<Rightarrow> gotime" where "at_ns x = \<lparr>ns = x, tloc = UTC\<rparr>"

definition span :: "int \<Rightarrow> int \<Rightarrow> interval" where "span a b = ivl (at_ns a) (at_ns b)"

theorem merge_is_union_witness:
  "(covered (mergeIntervals [span 4 9, span 1 5, span 20 30]) 6 \<longleftrightarrow> covered [span 4 9, span 1 5, span 20 30] 6) \<and>
   apart (mergeIntervals [span 4 9, span 1 5, span 20 30])"
  using merge_is_union [of "[span 4 9, span 1 5, span 20 30]" 6]
  by (simp add: valid_ivl_def span_def at_ns_def)

text \<open>
  C21. The free time of a window is the window less the busy time, instant by instant; the
  free intervals lie in the window, are in order, and overlap none of the busy ones.
\<close>

theorem subtract_is_complement:
  assumes "valid_ivl whole" "list_all valid_ivl busy"
  shows "(covered (subtractIntervals whole busy) x \<longleftrightarrow> covers whole x \<and> \<not> covered busy x) \<and>
     ordered_ivls (subtractIntervals whole busy) \<and>
     list_all (\<lambda>f. lo whole \<le> lo f \<and> hi f \<le> hi whole \<and> list_all (\<lambda>b. \<not> overlaps f b) busy) (subtractIntervals whole busy)"
  using subtractIntervals_covered [OF assms] subtractIntervals_ordered [OF assms(2)]
    subtractIntervals_within [OF assms(2)] subtractIntervals_free [OF assms(2)]
  by (auto simp: list_all_iff)

theorem subtract_is_complement_witness:
  "(covered (subtractIntervals (span 0 100) [span 10 20, span 30 40]) 25 \<longleftrightarrow>
      covers (span 0 100) 25 \<and> \<not> covered [span 10 20, span 30 40] 25) \<and>
   ordered_ivls (subtractIntervals (span 0 100) [span 10 20, span 30 40]) \<and>
   list_all (\<lambda>f. lo (span 0 100) \<le> lo f \<and> hi f \<le> hi (span 0 100) \<and> list_all (\<lambda>b. \<not> overlaps f b) [span 10 20, span 30 40])
     (subtractIntervals (span 0 100) [span 10 20, span 30 40])"
  by (rule subtract_is_complement) (simp_all add: valid_ivl_def span_def at_ns_def)

text \<open>
  \<^verbatim>\<open>findFirstSlot\<close> against its specification: the slot at the least multiple of 15
  minutes from the window's start that still fits and overlaps nothing, or none if there is
  no such multiple. In particular the search always ends.
\<close>

definition slot_after :: "gotime \<Rightarrow> int \<Rightarrow> nat \<Rightarrow> interval" where
  "slot_after t dur k = ivl (Add t (int k * (15 * minute_ns))) (Add (Add t (int k * (15 * minute_ns))) dur)"

definition slot_fits :: "gotime \<Rightarrow> gotime \<Rightarrow> int \<Rightarrow> interval list \<Rightarrow> nat \<Rightarrow> bool" where
  "slot_fits t w dur merged k \<longleftrightarrow> hi (slot_after t dur k) \<le> ns w \<and> \<not> overlapsMerged (slot_after t dur k) merged"

theorem first_slot_is_least:
  "findFirstSlot t w dur merged =
   (if \<exists>k. slot_fits t w dur merged k then Some (slot_after t dur (LEAST k. slot_fits t w dur merged k)) else None)"
proof (cases "findFirstSlot t w dur merged")
  case None
  have "\<not> slot_fits t w dur merged k" for k
    using findFirstSlot_None [OF None, of k] by (auto simp: slot_fits_def slot_after_def)
  then show ?thesis using None by simp
next
  case (Some iv)
  obtain k where k: "istart iv = Add t (int k * (15 * minute_ns))" "iend iv = Add (istart iv) dur" "hi iv \<le> ns w"
    "\<not> overlapsMerged iv merged"
    and before: "\<forall>j < k. overlapsMerged (ivl (Add t (int j * (15 * minute_ns))) (Add (Add t (int j * (15 * minute_ns))) dur)) merged"
    using findFirstSlot_Some [OF Some] by blast
  have iv: "iv = slot_after t dur k" using k(1,2) by (cases iv) (simp add: slot_after_def)
  have fits: "slot_fits t w dur merged k" using k(3,4) iv by (simp add: slot_fits_def)
  have "(LEAST k. slot_fits t w dur merged k) = k"
  proof (rule Least_equality)
    show "slot_fits t w dur merged k" by (rule fits)
  next
    fix j assume "slot_fits t w dur merged j"
    then show "k \<le> j" using before by (metis linorder_not_less slot_after_def slot_fits_def)
  qed
  then show ?thesis using Some fits iv by auto
qed

end
