(* ===== verification/Links.thy ===== *)
theory Links
  imports Intervals
begin

section \<open>Links: scheduling links, co-hosts and bookings in storage\<close>

text \<open>
  \<^verbatim>\<open>backend/storage/scheduling_links.go\<close>: the rows of \<^verbatim>\<open>scheduling_links\<close>, \<^verbatim>\<open>scheduling_link_hosts\<close>,
  \<^verbatim>\<open>bookings\<close> and \<^verbatim>\<open>booking_events\<close>, and one definition per storage function, its SQL read as an
  operation on the tables. A UUID is a natural number, \<^verbatim>\<open>uuid.Nil\<close> is 0; the id and the
  instant the database generates for a new row are arguments. A failing database is not a
  state of these tables: the callers' theories say at each call what a failure does.
  \<^verbatim>\<open>uses_count\<close> is no column: every read counts the link's bookings that are not cancelled.
  A window clock is kept as it was written; the \<^verbatim>\<open>TIME\<close> column adds its seconds (\<open>time_column\<close>), which
  every reader of a link's window accepts and ignores.
\<close>

record SchedulingLink =
  ln_id :: uuid
  ln_owner :: uuid
  ln_slug :: string
  ln_title :: string
  ln_durations :: "int list"
  ln_days :: "int list"
  ln_window_start :: string
  ln_window_end :: string
  ln_buffer_before :: int
  ln_buffer_after :: int
  ln_min_notice :: int
  ln_usage_type :: string
  ln_max_uses :: "int option"
  ln_uses_count :: int
  ln_active :: bool
  ln_created_at :: int
  ln_horizon_days :: int
  ln_refusal_message :: string

record LinkHost =
  lh_id :: uuid
  lh_link :: uuid
  lh_user :: uuid
  lh_status :: string
  lh_invited_at :: int
  lh_responded_at :: "int option"

record Booking =
  bk_id :: uuid
  bk_link :: uuid
  bk_name :: string
  bk_email :: string
  bk_start :: gotime
  bk_end :: gotime
  bk_status :: string
  bk_notes :: string
  bk_created_at :: int

record BookingEvent =
  be_booking :: uuid
  be_user :: uuid
  be_event_id :: string

record link_db =
  t_links :: "SchedulingLink list"
  t_hosts :: "LinkHost list"
  t_bookings :: "Booking list"
  t_events :: "BookingEvent list"

definition DefaultBookingHorizonDays :: int where "DefaultBookingHorizonDays = 60"
definition RefusalGeneric :: string where "RefusalGeneric = ''generic''"
definition RefusalSpecific :: string where "RefusalSpecific = ''specific''"

subsection \<open>Bookings\<close>

definition live_booking :: "Booking \<Rightarrow> bool" where
  "live_booking b \<longleftrightarrow> bk_status b \<noteq> ''cancelled''"

definition uses_count :: "link_db \<Rightarrow> uuid \<Rightarrow> int" where
  "uses_count db l = int (length (filter (\<lambda>b. bk_link b = l \<and> live_booking b) (t_bookings db)))"

definition CreateBooking :: "uuid \<Rightarrow> int \<Rightarrow> Booking \<Rightarrow> link_db \<Rightarrow> link_db \<times> Booking" where
  "CreateBooking newid now b db =
     (let row = b\<lparr>bk_id := newid, bk_status := ''confirmed'', bk_created_at := now\<rparr>
      in (db\<lparr>t_bookings := t_bookings db @ [row]\<rparr>, row))"

definition HasOverlappingBooking :: "link_db \<Rightarrow> uuid \<Rightarrow> gotime \<Rightarrow> gotime \<Rightarrow> bool" where
  "HasOverlappingBooking db l st en \<longleftrightarrow>
     list_ex (\<lambda>b. bk_link b = l \<and> live_booking b \<and> Before (bk_start b) en \<and> After (bk_end b) st) (t_bookings db)"

definition GetBookingsByLink :: "link_db \<Rightarrow> uuid \<Rightarrow> Booking list" where
  "GetBookingsByLink db l = sort_key (\<lambda>b. - ns (bk_start b)) (filter (\<lambda>b. bk_link b = l) (t_bookings db))"

definition hosts_link :: "link_db \<Rightarrow> uuid \<Rightarrow> SchedulingLink \<Rightarrow> bool" where
  "hosts_link db u l \<longleftrightarrow> ln_owner l = u \<or>
     list_ex (\<lambda>h. lh_link h = ln_id l \<and> lh_user h = u \<and> lh_status h = ''accepted'') (t_hosts db)"

text \<open>
  The bookings that make a user busy between two instants, as a flat list of starts and ends.
\<close>

definition busy_rows :: "link_db \<Rightarrow> uuid \<Rightarrow> gotime \<Rightarrow> gotime \<Rightarrow> Booking list" where
  "busy_rows db u st en = sort_key (\<lambda>b. ns (bk_start b))
     (filter (\<lambda>b. live_booking b \<and> Before (bk_start b) en \<and> After (bk_end b) st \<and>
        list_ex (\<lambda>l. ln_id l = bk_link b \<and> hosts_link db u l) (t_links db)) (t_bookings db))"

definition GetBusyBookingsForUser :: "link_db \<Rightarrow> uuid \<Rightarrow> gotime \<Rightarrow> gotime \<Rightarrow> gotime list" where
  "GetBusyBookingsForUser db u st en = concat (map (\<lambda>b. [bk_start b, bk_end b]) (busy_rows db u st en))"

definition SaveBookingEvent :: "uuid \<Rightarrow> uuid \<Rightarrow> string \<Rightarrow> link_db \<Rightarrow> link_db" where
  "SaveBookingEvent b u ev db =
     db\<lparr>t_events := t_events db @ [\<lparr>be_booking = b, be_user = u, be_event_id = ev\<rparr>]\<rparr>"

subsection \<open>Links\<close>

definition with_uses :: "link_db \<Rightarrow> SchedulingLink \<Rightarrow> SchedulingLink" where
  "with_uses db l = l\<lparr>ln_uses_count := uses_count db (ln_id l)\<rparr>"

definition SlugExists :: "link_db \<Rightarrow> string \<Rightarrow> bool" where
  "SlugExists db s \<longleftrightarrow> list_ex (\<lambda>l. ln_slug l = s) (t_links db)"

definition link_defaults :: "SchedulingLink \<Rightarrow> SchedulingLink" where
  "link_defaults l =
     l\<lparr>ln_usage_type := (if ln_usage_type l = '''' then ''reusable'' else ln_usage_type l),
       ln_durations := (if ln_durations l = [] then [30] else ln_durations l),
       ln_days := (if ln_days l = [] then [1, 2, 3, 4, 5] else ln_days l),
       ln_horizon_days := (if ln_horizon_days l = 0 then DefaultBookingHorizonDays else ln_horizon_days l),
       ln_refusal_message := (if ln_refusal_message l = '''' then RefusalGeneric else ln_refusal_message l)\<rparr>"

text \<open>The column constraints that can refuse a link row: unique slug, horizon range, refusal value.\<close>

definition link_row_ok :: "SchedulingLink \<Rightarrow> bool" where
  "link_row_ok l \<longleftrightarrow> 1 \<le> ln_horizon_days l \<and> ln_horizon_days l \<le> 365 \<and>
     (ln_refusal_message l = RefusalGeneric \<or> ln_refusal_message l = RefusalSpecific)"

definition CreateSchedulingLink ::
  "uuid \<Rightarrow> int \<Rightarrow> SchedulingLink \<Rightarrow> link_db \<Rightarrow> link_db \<times> SchedulingLink result" where
  "CreateSchedulingLink newid now l db =
     (let row = (link_defaults l)\<lparr>ln_id := newid, ln_active := True, ln_created_at := now\<rparr>
      in if SlugExists db (ln_slug l) \<or> \<not> link_row_ok row then (db, Inl (OtherError ''insert''))
         else let db' = db\<lparr>t_links := t_links db @ [row]\<rparr> in (db', Inr (with_uses db' row)))"

definition GetSchedulingLinkBySlug :: "link_db \<Rightarrow> string \<Rightarrow> SchedulingLink option" where
  "GetSchedulingLinkBySlug db s =
     map_option (with_uses db) (find (\<lambda>l. ln_slug l = s \<and> ln_active l) (t_links db))"

definition GetSchedulingLinkByID :: "link_db \<Rightarrow> uuid \<Rightarrow> SchedulingLink option" where
  "GetSchedulingLinkByID db i = map_option (with_uses db) (find (\<lambda>l. ln_id l = i) (t_links db))"

definition ListSchedulingLinksByUser :: "link_db \<Rightarrow> uuid \<Rightarrow> SchedulingLink list" where
  "ListSchedulingLinksByUser db u =
     map (with_uses db) (sort_key (\<lambda>l. - ln_created_at l) (filter (hosts_link db u) (t_links db)))"

definition link_written :: "SchedulingLink \<Rightarrow> SchedulingLink \<Rightarrow> SchedulingLink" where
  "link_written l old = old\<lparr>
     ln_slug := ln_slug l, ln_title := ln_title l, ln_durations := ln_durations l, ln_days := ln_days l,
     ln_window_start := ln_window_start l, ln_window_end := ln_window_end l,
     ln_buffer_before := ln_buffer_before l, ln_buffer_after := ln_buffer_after l,
     ln_min_notice := ln_min_notice l, ln_usage_type := ln_usage_type l, ln_max_uses := ln_max_uses l,
     ln_active := ln_active l,
     ln_horizon_days := (if ln_horizon_days l = 0 then ln_horizon_days old else ln_horizon_days l),
     ln_refusal_message := (if ln_refusal_message l = '''' then ln_refusal_message old else ln_refusal_message l)\<rparr>"

definition UpdateSchedulingLink ::
  "uuid \<Rightarrow> SchedulingLink \<Rightarrow> link_db \<Rightarrow> link_db \<times> SchedulingLink option result" where
  "UpdateSchedulingLink i l db =
     (case find (\<lambda>x. ln_id x = i) (t_links db) of
        None \<Rightarrow> (db, Inr None)
      | Some old \<Rightarrow>
          if list_ex (\<lambda>x. ln_slug x = ln_slug l \<and> ln_id x \<noteq> i) (t_links db) \<or> \<not> link_row_ok (link_written l old)
          then (db, Inl (OtherError ''update''))
          else let db' = db\<lparr>t_links := map (\<lambda>x. if ln_id x = i then link_written l x else x) (t_links db)\<rparr>
               in (db', Inr (Some (with_uses db' (link_written l old)))))"

definition DeleteSchedulingLink :: "uuid \<Rightarrow> link_db \<Rightarrow> link_db" where
  "DeleteSchedulingLink i db =
     db\<lparr>t_links := map (\<lambda>x. if ln_id x = i then x\<lparr>ln_active := False\<rparr> else x) (t_links db)\<rparr>"

subsection \<open>Co-hosts\<close>

definition is_host_row :: "uuid \<Rightarrow> uuid \<Rightarrow> LinkHost \<Rightarrow> bool" where
  "is_host_row l u h \<longleftrightarrow> lh_link h = l \<and> lh_user h = u"

definition new_host :: "uuid \<Rightarrow> int \<Rightarrow> uuid \<Rightarrow> uuid \<Rightarrow> string \<Rightarrow> LinkHost" where
  "new_host newid now l u status =
     \<lparr>lh_id = newid, lh_link = l, lh_user = u, lh_status = status, lh_invited_at = now, lh_responded_at = None\<rparr>"

definition AddLinkHost :: "uuid \<Rightarrow> int \<Rightarrow> uuid \<Rightarrow> uuid \<Rightarrow> string \<Rightarrow> link_db \<Rightarrow> link_db" where
  "AddLinkHost newid now l u status db =
     (if list_ex (is_host_row l u) (t_hosts db)
      then db\<lparr>t_hosts := map (\<lambda>h. if is_host_row l u h then h\<lparr>lh_status := status\<rparr> else h) (t_hosts db)\<rparr>
      else db\<lparr>t_hosts := t_hosts db @ [new_host newid now l u status]\<rparr>)"

text \<open>The returned row and whether this call created it.\<close>

definition InviteLinkHost :: "uuid \<Rightarrow> int \<Rightarrow> uuid \<Rightarrow> uuid \<Rightarrow> link_db \<Rightarrow> link_db \<times> LinkHost \<times> bool" where
  "InviteLinkHost newid now l u db =
     (case find (is_host_row l u) (t_hosts db) of
        None \<Rightarrow> let h = new_host newid now l u ''pending'' in (db\<lparr>t_hosts := t_hosts db @ [h]\<rparr>, h, True)
      | Some h \<Rightarrow> (db, h, False))"

definition RemoveLinkHostsExcept :: "uuid \<Rightarrow> uuid \<Rightarrow> uuid list \<Rightarrow> link_db \<Rightarrow> link_db" where
  "RemoveLinkHostsExcept l owner keep db =
     db\<lparr>t_hosts := filter (\<lambda>h. \<not> (lh_link h = l \<and> lh_user h \<noteq> owner \<and> \<not> List.member keep (lh_user h))) (t_hosts db)\<rparr>"

definition GetLinkHosts :: "link_db \<Rightarrow> uuid \<Rightarrow> LinkHost list" where
  "GetLinkHosts db l = sort_key lh_invited_at (filter (\<lambda>h. lh_link h = l) (t_hosts db))"

definition GetLinkHostStatus :: "link_db \<Rightarrow> uuid \<Rightarrow> uuid \<Rightarrow> string option" where
  "GetLinkHostStatus db l u = map_option lh_status (find (is_host_row l u) (t_hosts db))"

definition GetAcceptedHosts :: "link_db \<Rightarrow> uuid \<Rightarrow> LinkHost list" where
  "GetAcceptedHosts db l = filter (\<lambda>h. lh_link h = l \<and> lh_status h = ''accepted'') (t_hosts db)"

definition GetPendingInvitesForUser :: "link_db \<Rightarrow> uuid \<Rightarrow> LinkHost list" where
  "GetPendingInvitesForUser db u = filter (\<lambda>h. lh_user h = u \<and> lh_status h = ''pending'') (t_hosts db)"

definition RemoveLinkHost :: "uuid \<Rightarrow> uuid \<Rightarrow> link_db \<Rightarrow> link_db \<times> bool" where
  "RemoveLinkHost l u db =
     (db\<lparr>t_hosts := filter (\<lambda>h. \<not> is_host_row l u h) (t_hosts db)\<rparr>, list_ex (is_host_row l u) (t_hosts db))"

definition RespondToHostInvite :: "int \<Rightarrow> uuid \<Rightarrow> uuid \<Rightarrow> string \<Rightarrow> link_db \<Rightarrow> link_db \<times> bool" where
  "RespondToHostInvite now l u status db =
     (db\<lparr>t_hosts := map (\<lambda>h. if is_host_row l u h then h\<lparr>lh_status := status, lh_responded_at := Some now\<rparr> else h) (t_hosts db)\<rparr>,
      list_ex (is_host_row l u) (t_hosts db))"

subsection \<open>The host table's invariant\<close>

text \<open>One row per link and user (\<^verbatim>\<open>UNIQUE (link_id, user_id)\<close>).\<close>

definition hosts_unique :: "link_db \<Rightarrow> bool" where
  "hosts_unique db \<longleftrightarrow> distinct (map (\<lambda>h. (lh_link h, lh_user h)) (t_hosts db))"

lemma map_keep_key:
  "(\<And>h. k (f h) = k h) \<Longrightarrow> map k (map f hs) = map k hs"
  by simp

lemma is_host_row_key: "is_host_row l u h \<longleftrightarrow> (lh_link h, lh_user h) = (l, u)"
  by (simp add: is_host_row_def)

lemma list_ex_host_row: "list_ex (is_host_row l u) hs \<longleftrightarrow> (l, u) \<in> set (map (\<lambda>h. (lh_link h, lh_user h)) hs)"
  by (auto simp: list_ex_iff is_host_row_def)

lemma find_host_None: "find (is_host_row l u) hs = None \<longleftrightarrow> (l, u) \<notin> set (map (\<lambda>h. (lh_link h, lh_user h)) hs)"
  by (auto simp: find_None_iff is_host_row_def)

lemma hosts_unique_steps:
  assumes "hosts_unique db"
  shows "hosts_unique (AddLinkHost i now l u st db)"
    and "hosts_unique (fst (InviteLinkHost i now l u db))"
    and "hosts_unique (RemoveLinkHostsExcept l ow keep db)"
    and "hosts_unique (fst (RemoveLinkHost l u db))"
    and "hosts_unique (fst (RespondToHostInvite now l u st db))"
proof -
  let ?k = "\<lambda>h. (lh_link h, lh_user h)"
  have d: "distinct (map ?k (t_hosts db))" using assms by (simp add: hosts_unique_def)
  have upd: "map ?k (map (\<lambda>h. if is_host_row l u h then f h else h) (t_hosts db)) = map ?k (t_hosts db)"
    if "\<And>h. ?k (f h) = ?k h" for f using that by (intro map_keep_key) simp
  show "hosts_unique (AddLinkHost i now l u st db)"
    using d by (auto simp: hosts_unique_def AddLinkHost_def upd [of "\<lambda>h. h\<lparr>lh_status := st\<rparr>"]
        list_ex_host_row new_host_def simp del: map_map)
  show "hosts_unique (fst (InviteLinkHost i now l u db))"
    using d by (auto simp: hosts_unique_def InviteLinkHost_def Let_def find_host_None new_host_def split: option.splits)
  show "hosts_unique (RemoveLinkHostsExcept l ow keep db)"
    using d by (simp add: hosts_unique_def RemoveLinkHostsExcept_def distinct_map_filter)
  show "hosts_unique (fst (RemoveLinkHost l u db))"
    using d by (simp add: hosts_unique_def RemoveLinkHost_def distinct_map_filter)
  show "hosts_unique (fst (RespondToHostInvite now l u st db))"
    using d by (simp add: hosts_unique_def RespondToHostInvite_def
        upd [of "\<lambda>h. h\<lparr>lh_status := st, lh_responded_at := Some now\<rparr>"] del: map_map)
qed

end
