(* ===== verification/BookingWindow.thy ===== *)
theory BookingWindow
  imports Links
begin

section \<open>BookingWindow: a link's daily window and its grid\<close>

text \<open>
  \<^verbatim>\<open>backend/engine/booking_window.go\<close>: the wall-clock times of a link resolved on a calendar
  day of the link's zone, across changes of offset, and the slots of the 15-minute grid.
  \<open>wallClock\<close> returns the instant and whether the wall time exists that day. The theorems
  relate it to the zone itself: a wall time exists exactly when some instant shows it, the
  instant returned is the first one that does, and for a skipped wall time it is the instant
  of the change.
\<close>

record slot =
  sl_start :: gotime
  sl_end :: gotime

definition gridStep :: int where "gridStep = 15"

subsection \<open>The source's functions\<close>

text \<open>
  One candidate per probed offset: the instant that would show the wall time under that
  offset. \<open>wall_candidates\<close> lists them in the order of the probes (a day before, at, a day
  after the wall time read as UTC).
\<close>

definition wall_candidates :: "location \<Rightarrow> int \<Rightarrow> int list" where
  "wall_candidates l w = map (\<lambda>p. w - offset_at l (w + p)) [- day_sec, 0, day_sec]"

definition shows_wall :: "location \<Rightarrow> int \<Rightarrow> int \<Rightarrow> bool" where
  "shows_wall l w c \<longleftrightarrow> c + offset_at l c = w"

text \<open>The first of the smallest elements, as the loop's \<^verbatim>\<open>Before\<close> comparison keeps it.\<close>

fun earliest_of :: "int list \<Rightarrow> int option" where
  "earliest_of [] = None"
| "earliest_of (c # cs) = (case earliest_of cs of None \<Rightarrow> Some c | Some b \<Rightarrow> Some (min c b))"

definition wallClock :: "gotime \<Rightarrow> int \<Rightarrow> int \<Rightarrow> gotime \<times> bool" where
  "wallClock day h m =
     (let l = tloc day; w = wall_sec (date_of day) h m 0; cs = wall_candidates l w
      in case earliest_of (filter (shows_wall l w) cs) of
           Some c \<Rightarrow> (\<lparr>ns = c * sec_ns, tloc = l\<rparr>, True)
         | None \<Rightarrow>
             (case earliest_of cs of
                None \<Rightarrow> (zero_time, False)
              | Some c \<Rightarrow> (case zone_end l c of
                    Some e \<Rightarrow> (\<lparr>ns = e * sec_ns, tloc = l\<rparr>, False)
                  | None \<Rightarrow> (In zero_time l, False))))"

definition clockMinutes :: "string \<Rightarrow> int option" where
  "clockMinutes hhmm = (case split_first CHR '':'' (TrimSpace hhmm) of
      None \<Rightarrow> None
    | Some (a, b) \<Rightarrow>
        (case (scan_int a, scan_int b) of
           (Some (h, _), Some (m, _)) \<Rightarrow>
             if h < 0 \<or> h > 23 \<or> m < 0 \<or> m > 59 then None else Some (h * 60 + m)
         | _ \<Rightarrow> None))"

definition LinkWindow :: "SchedulingLink \<Rightarrow> gotime \<Rightarrow> gotime \<times> gotime \<times> bool" where
  "LinkWindow link day =
     (case (clockMinutes (ln_window_start link), clockMinutes (ln_window_end link)) of
        (Some sm, Some em) \<Rightarrow>
          let s = fst (wallClock day (sm div 60) (sm mod 60));
              e = fst (wallClock day (em div 60) (em mod 60))
          in (s, e, After e s)
      | _ \<Rightarrow> (zero_time, zero_time, False))"

definition grid_minutes :: "int \<Rightarrow> int list" where
  "grid_minutes sm = map (\<lambda>k. sm + gridStep * int k) [0..<nat ((24 * 60 - sm + gridStep - 1) div gridStep)]"

definition grid_slot :: "gotime \<Rightarrow> gotime \<Rightarrow> gotime \<Rightarrow> int \<Rightarrow> int \<Rightarrow> slot option" where
  "grid_slot day ws we dur m =
     (let (t, ex) = wallClock day (m div 60) (m mod 60); e = Add t dur
      in if \<not> ex \<or> Before t ws then None
         else if After e we then None else Some \<lparr>sl_start = t, sl_end = e\<rparr>)"

definition GridSlots :: "SchedulingLink \<Rightarrow> gotime \<Rightarrow> int \<Rightarrow> slot list" where
  "GridSlots link day durationMinutes =
     (if durationMinutes \<le> 0 then []
      else case LinkWindow link day of (ws, we, ok) \<Rightarrow>
        if \<not> ok then []
        else case clockMinutes (ln_window_start link) of
            None \<Rightarrow> []
          | Some sm \<Rightarrow> List.map_filter (grid_slot day ws we (durationMinutes * minute_ns)) (grid_minutes sm))"

subsection \<open>Wall clocks\<close>

lemma earliest_of_Some:
  "earliest_of cs = Some c \<longleftrightarrow> c \<in> set cs \<and> (\<forall>d \<in> set cs. c \<le> d)"
proof (induction cs arbitrary: c)
  case (Cons a cs)
  show ?case
  proof (cases "earliest_of cs")
    case None
    then have "cs = []" by (cases cs) (auto split: option.splits)
    then show ?thesis by auto
  next
    case (Some b)
    have "(earliest_of (a # cs) = Some c) = (c = min a b)" using Some by auto
    then show ?thesis using Cons [of b] Some by (auto simp: min_def intro: antisym)
  qed
qed simp

lemma earliest_of_None: "earliest_of cs = None \<longleftrightarrow> cs = []"
  by (cases cs) (auto split: option.splits)

lemma wall_candidates_still:
  assumes "\<And>x. w - day_sec \<le> x \<Longrightarrow> x \<le> w + day_sec \<Longrightarrow> zone_lookup l x = (a, st, en)"
  shows "set (wall_candidates l w) = {w - a}"
  using assms [of w] assms [of "w - day_sec"] assms [of "w + day_sec"]
  by (auto simp: wall_candidates_def offset_at_def)

lemma wall_candidates_change:
  assumes "w - day_sec < T" "T \<le> w + day_sec"
    and "\<And>x. w - day_sec \<le> x \<Longrightarrow> x < T \<Longrightarrow> zone_lookup l x = (a, st, Some T)"
    and "\<And>x. T \<le> x \<Longrightarrow> x \<le> w + day_sec \<Longrightarrow> zone_lookup l x = (b, Some T, en)"
  shows "set (wall_candidates l w) = {w - a, w - b}"
proof -
  have "offset_at l (w - day_sec) = a" "offset_at l (w + day_sec) = b"
    using assms(1,2) assms(3) [of "w - day_sec"] assms(4) [of "w + day_sec"] by (auto simp: offset_at_def)
  moreover have "offset_at l w = a \<or> offset_at l w = b"
    using assms(3) [of w] assms(4) [of w] by (cases "w < T") (auto simp: offset_at_def)
  ultimately show ?thesis by (auto simp: wall_candidates_def)
qed

text \<open>Every instant that shows the wall time is a candidate.\<close>

lemma shows_wall_candidate:
  assumes "wf_zone l" "one_change l w" "shows_wall l w x" "\<bar>w - x\<bar> \<le> day_sec"
  shows "x \<in> set (wall_candidates l w)"
  using assms(1,2)
proof (cases rule: one_change_cases)
  case (still a st en)
  then show ?thesis
    using wall_candidates_still [OF still(4)] assms(3,4) still(4) [of x]
    by (auto simp: shows_wall_def offset_at_def)
next
  case (change a b T st en)
  then show ?thesis
    using wall_candidates_change [OF change(3,4,7,8)] assms(3,4) change(7) [of x] change(8) [of x]
    by (cases "x < T") (auto simp: shows_wall_def offset_at_def)
qed

lemma wallClock_found:
  assumes "wallClock day h m = (t, True)"
  shows "tloc t = tloc day" "ns t mod sec_ns = 0"
    "shows_wall (tloc day) (wall_sec (date_of day) h m 0) (unix_sec t)"
proof -
  let ?w = "wall_sec (date_of day) h m 0" and ?l = "tloc day"
  obtain c where c: "earliest_of (filter (shows_wall ?l ?w) (wall_candidates ?l ?w)) = Some c"
    and t: "t = \<lparr>ns = c * sec_ns, tloc = ?l\<rparr>"
    using assms by (auto simp: wallClock_def Let_def split: option.splits)
  then show "tloc t = tloc day" "ns t mod sec_ns = 0" by simp_all
  have "unix_sec t = c" using t by (simp add: unix_sec_def)
  then show "shows_wall ?l ?w (unix_sec t)" using c by (auto simp: earliest_of_Some)
qed

lemma wallClock_shows:
  assumes "wallClock day h m = (t, True)"
  shows "local_sec t = wall_sec (date_of day) h m 0"
  using wallClock_found [OF assms] by (simp add: local_sec_def shows_wall_def)

lemma wallClock_date:
  assumes "wallClock day h m = (t, True)" "0 \<le> h" "h < 24" "0 \<le> m" "m < 60"
  shows "date_of t = date_of day" "clock_sec t = h * 3600 + m * 60"
proof -
  have l: "local_sec t = (h * 3600 + m * 60) + date_of day * day_sec"
    using wallClock_shows [OF assms(1)] by (simp add: wall_sec_def)
  have "0 \<le> h * 3600 + m * 60" "h * 3600 + m * 60 < day_sec" using assms by auto
  then show "date_of t = date_of day" "clock_sec t = h * 3600 + m * 60"
    unfolding date_of_def [of t] clock_sec_def l by simp_all
qed

text \<open>
  \<^verbatim>\<open>wallClock\<close> against the zone: \<open>ex\<close> tells whether some instant shows the wall time; then \<open>t\<close> is
  the first such instant; and otherwise \<open>t\<close> is the instant of the change that skips it, the
  wall clock jumping from at or before the wall time to after it.
\<close>

lemma wallClock_spec:
  assumes wf: "wf_zone (tloc day)" and one: "one_change (tloc day) w"
    and w: "w = wall_sec (date_of day) h m 0" and res: "wallClock day h m = (t, ex)"
  shows "ex \<longleftrightarrow> (\<exists>x. shows_wall (tloc day) w x)"
    and "shows_wall (tloc day) w x \<Longrightarrow> unix_sec t \<le> x"
    and "\<not> ex \<Longrightarrow> (\<forall>x. w - day_sec \<le> x \<and> x < unix_sec t \<longrightarrow> x + offset_at (tloc day) x < w) \<and>
                 w < unix_sec t + offset_at (tloc day) (unix_sec t)"
proof -
  let ?l = "tloc day"
  let ?good = "filter (shows_wall ?l w) (wall_candidates ?l w)"
  have cand: "x \<in> set (wall_candidates ?l w)" if "shows_wall ?l w x" for x
  proof (rule shows_wall_candidate [OF wf one that])
    show "\<bar>w - x\<bar> \<le> day_sec" using that wf_offset [OF wf, of x] by (simp add: shows_wall_def)
  qed
  show 1: "ex \<longleftrightarrow> (\<exists>x. shows_wall ?l w x)"
  proof
    assume ex
    then show "\<exists>x. shows_wall ?l w x" using wallClock_found(3) [of day h m t] res w by auto
  next
    assume "\<exists>x. shows_wall ?l w x"
    then have "?good \<noteq> []" using cand by (auto simp: filter_empty_conv)
    then obtain c where "earliest_of ?good = Some c" using earliest_of_None by blast
    then show ex using res w by (simp add: wallClock_def Let_def)
  qed
  have first: "unix_sec t \<le> x" if x: "shows_wall ?l w x" for x
  proof -
    have "x \<in> set ?good" using x cand by simp
    then have "earliest_of ?good \<noteq> None" by (auto simp: earliest_of_None filter_empty_conv)
    then obtain c where c: "earliest_of ?good = Some c" by blast
    then have "t = \<lparr>ns = c * sec_ns, tloc = ?l\<rparr>" using res w by (simp add: wallClock_def Let_def)
    then show ?thesis using c \<open>x \<in> set ?good\<close> by (auto simp: unix_sec_def earliest_of_Some)
  qed
  then show "shows_wall ?l w x \<Longrightarrow> unix_sec t \<le> x" .
  assume nex: "\<not> ex"
  then have none: "\<not> shows_wall ?l w x" for x using 1 by blast
  then have g: "?good = []" by (simp add: filter_empty_conv)
  from wf one show "(\<forall>x. w - day_sec \<le> x \<and> x < unix_sec t \<longrightarrow> x + offset_at ?l x < w) \<and>
                 w < unix_sec t + offset_at ?l (unix_sec t)"
  proof (cases rule: one_change_cases)
    case (still a st en)
    then have "shows_wall ?l w (w - a)" using still(4) [of "w - a"] by (simp add: shows_wall_def offset_at_def)
    then show ?thesis using none by blast
  next
    case (change a b T st en)
    have na: "T \<le> w - a" using none [of "w - a"] change(1) change(7) [of "w - a"]
      by (cases "w - a < T") (auto simp: shows_wall_def offset_at_def)
    have nb: "w - b < T" using none [of "w - b"] change(2) change(8) [of "w - b"]
      by (cases "w - b < T") (auto simp: shows_wall_def offset_at_def)
    have "earliest_of (wall_candidates ?l w) = Some (w - b)"
      using wall_candidates_change [OF change(3,4,7,8)] na nb by (auto simp: earliest_of_Some)
    moreover have "zone_end ?l (w - b) = Some T"
      using change(7) [of "w - b"] change(2) nb by (simp add: zone_end_def)
    ultimately have "t = \<lparr>ns = T * sec_ns, tloc = ?l\<rparr>"
      using res nex g w by (simp add: wallClock_def Let_def)
    then have t: "unix_sec t = T" by (simp add: unix_sec_def)
    have "x + offset_at ?l x < w" if "w - day_sec \<le> x" "x < T" for x
      using change(7) [OF that] that na by (simp add: offset_at_def)
    moreover have "offset_at ?l T = b" using change(4,8) by (simp add: offset_at_def)
    ultimately show ?thesis using t nb by auto
  qed
qed

subsection \<open>Windows and grids\<close>

lemma clockMinutes_range: "clockMinutes s = Some v \<Longrightarrow> 0 \<le> v \<and> v < 24 * 60"
  by (auto simp: clockMinutes_def split: option.splits if_splits)

lemma grid_minutes_iff:
  assumes "sm < 24 * 60"
  shows "m \<in> set (grid_minutes sm) \<longleftrightarrow> sm \<le> m \<and> m < 24 * 60 \<and> (m - sm) mod gridStep = 0"
proof
  assume "m \<in> set (grid_minutes sm)"
  then obtain k where k: "k < nat ((24 * 60 - sm + gridStep - 1) div gridStep)" "m = sm + gridStep * int k"
    by (auto simp: grid_minutes_def)
  then have "int k < (24 * 60 - sm + 14) div 15" by (simp add: gridStep_def)
  then show "sm \<le> m \<and> m < 24 * 60 \<and> (m - sm) mod gridStep = 0" using k(2) by (simp add: gridStep_def)
next
  assume m: "sm \<le> m \<and> m < 24 * 60 \<and> (m - sm) mod gridStep = 0"
  then obtain k where k: "m - sm = 15 * k" by (auto simp: gridStep_def)
  then have "0 \<le> k" "k < (24 * 60 - sm + 14) div 15" using m by linarith+
  then show "m \<in> set (grid_minutes sm)"
    using k by (auto simp: grid_minutes_def gridStep_def image_iff intro!: bexI [of _ "nat k"])
qed

text \<open>
  The slots of the grid, one by one: the window of the day is not empty, the start is a wall
  time of the grid that exists that day and is not before the window opens, and the slot of
  the exact duration ends no later than the window closes.
\<close>

lemma GridSlots_iff:
  "s \<in> set (GridSlots link day dur) \<longleftrightarrow>
     0 < dur \<and>
     (\<exists>ws we sm m. LinkWindow link day = (ws, we, True) \<and> clockMinutes (ln_window_start link) = Some sm \<and>
        sm \<le> m \<and> m < 24 * 60 \<and> (m - sm) mod gridStep = 0 \<and>
        wallClock day (m div 60) (m mod 60) = (sl_start s, True) \<and>
        ns ws \<le> ns (sl_start s) \<and> sl_end s = Add (sl_start s) (dur * minute_ns) \<and> ns (sl_end s) \<le> ns we)"
    (is "?L \<longleftrightarrow> ?R")
proof -
  obtain ws we ok where win: "LinkWindow link day = (ws, we, ok)" by (cases "LinkWindow link day")
  have gs: "grid_slot day ws we d m = Some s \<longleftrightarrow>
      wallClock day (m div 60) (m mod 60) = (sl_start s, True) \<and> ns ws \<le> ns (sl_start s) \<and>
      sl_end s = Add (sl_start s) d \<and> ns (sl_end s) \<le> ns we" for d m
    by (cases s) (auto simp: grid_slot_def Let_def time_cmp_defs split: prod.splits if_splits)
  show ?thesis
  proof (cases "clockMinutes (ln_window_start link)")
    case None
    then show ?thesis by (auto simp: GridSlots_def split: prod.splits)
  next
    case (Some sm)
    then have "sm < 24 * 60" using clockMinutes_range by blast
    then show ?thesis
      using Some win by (auto simp: GridSlots_def map_filter_mem gs grid_minutes_iff)
  qed
qed

lemma GridSlots_duration:
  "s \<in> set (GridSlots link day dur) \<Longrightarrow> Sub (sl_end s) (sl_start s) = dur * minute_ns \<and> 0 < dur"
  by (auto simp: GridSlots_iff Sub_def)

lemma GridSlots_day:
  assumes "s \<in> set (GridSlots link day dur)"
  shows "date_of (sl_start s) = date_of day" "tloc (sl_start s) = tloc day"
proof -
  obtain sm m where m: "clockMinutes (ln_window_start link) = Some sm" "sm \<le> m" "m < 24 * 60"
    and wc: "wallClock day (m div 60) (m mod 60) = (sl_start s, True)"
    using assms by (auto simp: GridSlots_iff)
  have "0 \<le> m" using m clockMinutes_range by force
  then show "date_of (sl_start s) = date_of day" using wallClock_date(1) [OF wc] m by simp
  show "tloc (sl_start s) = tloc day" using wallClock_found(1) [OF wc] .
qed

lemma map_filter_conv: "List.map_filter f xs = map (\<lambda>x. the (f x)) (filter (\<lambda>x. f x \<noteq> None) xs)"
  by (simp add: List.map_filter_def o_def)

lemma grid_minutes_sorted: "sorted_wrt (<) (grid_minutes sm)"
  by (simp add: grid_minutes_def sorted_wrt_map gridStep_def)

lemma GridSlots_order:
  "\<exists>ms. sorted_wrt (<) ms \<and> list_all (\<lambda>m. 0 \<le> m \<and> m < 24 * 60) ms \<and>
     list_all2 (\<lambda>m c. wallClock day (m div 60) (m mod 60) = (sl_start c, True)) ms (GridSlots link day dur)"
proof (cases "GridSlots link day dur = []")
  case True
  then show ?thesis by (intro exI [of _ "[]"]) simp
next
  case False
  obtain ws we ok where win: "LinkWindow link day = (ws, we, ok)" by (cases "LinkWindow link day")
  obtain sm where sm: "clockMinutes (ln_window_start link) = Some sm"
    using False win by (cases "clockMinutes (ln_window_start link)") (auto simp: GridSlots_def split: if_splits)
  let ?f = "grid_slot day ws we (dur * minute_ns)"
  let ?ms = "filter (\<lambda>m. ?f m \<noteq> None) (grid_minutes sm)"
  have gs: "GridSlots link day dur = map (\<lambda>m. the (?f m)) ?ms"
    using False win sm by (auto simp: GridSlots_def map_filter_conv split: if_splits)
  have "sm < 24 * 60" "0 \<le> sm" using sm clockMinutes_range by blast+
  then have "list_all (\<lambda>m. 0 \<le> m \<and> m < 24 * 60) ?ms" by (auto simp: list_all_iff grid_minutes_iff)
  moreover have "wallClock day (m div 60) (m mod 60) = (sl_start c, True)" if "?f m = Some c" for m c
    using that by (auto simp: grid_slot_def Let_def split: prod.splits if_splits)
  then have "list_all2 (\<lambda>m c. wallClock day (m div 60) (m mod 60) = (sl_start c, True)) ?ms (GridSlots link day dur)"
    unfolding gs by (auto simp: list.rel_map intro!: list.rel_refl_strong)
  moreover have "sorted_wrt (<) ?ms" using grid_minutes_sorted by (rule sorted_wrt_filter)
  ultimately show ?thesis by blast
qed

lemma wallClock_whole: "wallClock day h m = (t, True) \<Longrightarrow> t = \<lparr>ns = unix_sec t * sec_ns, tloc = tloc day\<rparr>"
  by (auto simp: wallClock_def Let_def unix_sec_def split: option.splits)

subsection \<open>Properties\<close>

text \<open>
  C19. In a zone that changes at most once around the wall time, \<^verbatim>\<open>wallClock\<close> tells whether
  any instant shows the wall time; if so it returns the first such instant, which does show it,
  and if the wall time is skipped it returns the instant of the change, the wall clock reading less
  before and more from then on.
\<close>

theorem wall_clock_resolves:
  assumes "wf_zone (tloc day)" "one_change (tloc day) (wall_sec (date_of day) h m 0)" "wallClock day h m = (t, ex)"
  shows "(ex \<longleftrightarrow> (\<exists>x. shows_wall (tloc day) (wall_sec (date_of day) h m 0) x)) \<and>
     (ex \<longrightarrow> shows_wall (tloc day) (wall_sec (date_of day) h m 0) (unix_sec t) \<and> t = \<lparr>ns = unix_sec t * sec_ns, tloc = tloc day\<rparr>) \<and>
     (\<forall>x. shows_wall (tloc day) (wall_sec (date_of day) h m 0) x \<longrightarrow> unix_sec t \<le> x) \<and>
     (\<not> ex \<longrightarrow> (\<forall>x. wall_sec (date_of day) h m 0 - day_sec \<le> x \<and> x < unix_sec t \<longrightarrow>
          x + offset_at (tloc day) x < wall_sec (date_of day) h m 0) \<and>
        wall_sec (date_of day) h m 0 < unix_sec t + offset_at (tloc day) (unix_sec t))"
proof -
  have "shows_wall (tloc day) (wall_sec (date_of day) h m 0) (unix_sec t) \<and> t = \<lparr>ns = unix_sec t * sec_ns, tloc = tloc day\<rparr>" if "ex"
    using that assms(3) wallClock_found(3) [of day h m t] wallClock_whole [of day h m t] by simp
  then show ?thesis using wallClock_spec [OF assms(1,2) refl assms(3)] by blast
qed

text \<open>
  A zone that moves one hour forward at second 3600: 01:30 on the first day is skipped. A zone that
  moves one hour back at second 3600: 01:30 shows at the seconds 1800 and 5400.
\<close>

definition ex_zone :: location where
  "ex_zone = \<lparr>loc_name = ''Test/Zone'', loc_base = 0, loc_trans = [(3600, 3600)]\<rparr>"

definition ex_back :: location where
  "ex_back = \<lparr>loc_name = ''Test/Back'', loc_base = 3600, loc_trans = [(3600, 0)]\<rparr>"

definition ex_noon :: gotime where "ex_noon = \<lparr>ns = 43200 * sec_ns, tloc = ex_zone\<rparr>"

definition ex_late :: gotime where "ex_late = \<lparr>ns = 43200 * sec_ns, tloc = ex_back\<rparr>"

lemma ex_skipped: "wallClock ex_noon 1 30 = (\<lparr>ns = 3600 * sec_ns, tloc = ex_zone\<rparr>, False)" "date_of ex_noon = 0"
  by code_simp+

lemma ex_repeated: "wallClock ex_late 1 30 = (\<lparr>ns = 1800 * sec_ns, tloc = ex_back\<rparr>, True)" "date_of ex_late = 0"
  by code_simp+

theorem wall_clock_resolves_witness:
  "\<not> (\<exists>x. shows_wall ex_zone 5400 x) \<and> 5400 < 3600 + offset_at ex_zone 3600 \<and> shows_wall ex_back 5400 1800"
proof -
  have "\<not> (\<exists>x. shows_wall ex_zone 5400 x) \<and> 5400 < 3600 + offset_at ex_zone 3600"
    using wall_clock_resolves [OF _ _ ex_skipped(1)] ex_skipped(2)
    by (simp add: ex_noon_def ex_zone_def wf_zone_def one_change_def strict_times_def wall_sec_def unix_sec_def)
  moreover have "shows_wall ex_back 5400 1800"
    using wall_clock_resolves [OF _ _ ex_repeated(1)] ex_repeated(2)
    by (simp add: ex_late_def ex_back_def wf_zone_def one_change_def strict_times_def wall_sec_def unix_sec_def)
  ultimately show ?thesis by blast
qed

text \<open>
  C6. The grid of a day. A slot is in it when the day's window is open, its start is a wall time a
  multiple of 15 minutes after the window's opening time that exists that day and is not
  before the window, and the slot of exactly the duration ends no later than the window. The
  slots are listed by their wall times, strictly increasing, each wall time once.
\<close>

theorem grid_slots_exact:
  "(s \<in> set (GridSlots link day dur) \<longleftrightarrow>
     0 < dur \<and>
     (\<exists>ws we sm m. LinkWindow link day = (ws, we, True) \<and> clockMinutes (ln_window_start link) = Some sm \<and>
        sm \<le> m \<and> m < 24 * 60 \<and> (m - sm) mod gridStep = 0 \<and>
        wallClock day (m div 60) (m mod 60) = (sl_start s, True) \<and>
        ns ws \<le> ns (sl_start s) \<and> sl_end s = Add (sl_start s) (dur * minute_ns) \<and> ns (sl_end s) \<le> ns we)) \<and>
   (\<exists>ms. sorted_wrt (<) ms \<and> list_all (\<lambda>m. 0 \<le> m \<and> m < 24 * 60) ms \<and>
      list_all2 (\<lambda>m c. wallClock day (m div 60) (m mod 60) = (sl_start c, True)) ms (GridSlots link day dur))"
  by (intro conjI GridSlots_iff GridSlots_order)

end
