(* ===== verification/Settings.thy ===== *)
theory Settings
  imports Intervals
begin

section \<open>Settings: a user's schedule preferences and the scheduler's watermark\<close>

text \<open>
  \<^verbatim>\<open>backend/storage/settings.go\<close>: the settings the engines read (working hours, lunch, focus,
  buffers, meeting policy, automatic scheduling), the effective work and lunch window of a
  day, and the rows of the \<^verbatim>\<open>settings\<close> table with the auto-schedule watermark. The AI, calendar
  provider, conferencing and recap columns of the same struct are not read by the modelled
  engines and are left out. Also the clock readers of the engine package
  (\<^verbatim>\<open>parseHHMM\<close>, \<^verbatim>\<open>startOfWeek\<close>, \<^verbatim>\<open>parseTime\<close>, \<^verbatim>\<open>hhmmToMinutes\<close>, \<^verbatim>\<open>weekStartFor\<close>).
\<close>

record DaySchedule =
  ds_enabled :: bool
  ds_start :: string
  ds_end :: string

record WorkingHoursSchedule =
  wh_mode :: string
  wh_default :: DaySchedule
  wh_days :: "string \<rightharpoonup> DaySchedule"

record Settings =
  se_work_start :: string
  se_work_end :: string
  se_timezone :: string
  se_focus_min :: int
  se_focus_max :: int
  se_focus_target :: int
  se_out_of_hours :: int
  se_auto_decline :: bool
  se_focus_label :: string
  se_focus_color :: string
  se_lunch_start :: string
  se_lunch_end :: string
  se_protect_lunch :: bool
  se_buffer_before :: int
  se_buffer_after :: int
  se_buffer_enabled :: bool
  se_buffer_min :: int
  se_buffer_skip :: bool
  se_working_hours :: WorkingHoursSchedule
  se_lunch_breaks :: "string \<rightharpoonup> DaySchedule"
  se_auto_schedule :: bool
  se_cron :: string
  se_provider :: string

subsection \<open>Windows of a day\<close>

definition defaultWorkingHours :: "string \<Rightarrow> string \<Rightarrow> WorkingHoursSchedule" where
  "defaultWorkingHours workStart workEnd =
     \<lparr>wh_mode = ''all_days'',
      wh_default = \<lparr>ds_enabled = True,
        ds_start = (if workStart = '''' then ''09:00'' else workStart),
        ds_end = (if workEnd = '''' then ''18:00'' else workEnd)\<rparr>,
      wh_days = Map.empty\<rparr>"

definition normalizeSchedules :: "Settings \<Rightarrow> Settings" where
  "normalizeSchedules s =
     (let w = se_working_hours s; d = wh_default w
      in if wh_mode w = ''''
         then s\<lparr>se_working_hours := defaultWorkingHours (se_work_start s) (se_work_end s)\<rparr>
         else if wh_mode w = ''all_days'' \<and> ds_start d = '''' \<and> ds_end d = '''' \<and> \<not> ds_enabled d
         then s\<lparr>se_working_hours := w\<lparr>wh_default := wh_default (defaultWorkingHours (se_work_start s) (se_work_end s))\<rparr>\<rparr>
         else s)"

definition weekday_name :: "int \<Rightarrow> string" where
  "weekday_name wd =
     [''sunday'', ''monday'', ''tuesday'', ''wednesday'', ''thursday'', ''friday'', ''saturday''] ! nat wd"

definition usable :: "DaySchedule \<Rightarrow> string \<times> string \<times> bool" where
  "usable e = (ds_start e, ds_end e, ds_enabled e \<and> ds_start e \<noteq> '''' \<and> ds_end e \<noteq> '''')"

definition WorkWindow :: "Settings \<Rightarrow> gotime \<Rightarrow> string \<times> string \<times> bool" where
  "WorkWindow s day =
     (let c = normalizeSchedules s; w = se_working_hours c
      in if ToLower (wh_mode w) = ''by_day''
         then (case wh_days w (weekday_name (Weekday day)) of
                 None \<Rightarrow> ('''', '''', False)
               | Some e \<Rightarrow> usable e)
         else usable (if ds_start (wh_default w) = '''' \<or> ds_end (wh_default w) = ''''
                      then wh_default (defaultWorkingHours (se_work_start c) (se_work_end c))
                      else wh_default w))"

definition LunchWindow :: "Settings \<Rightarrow> gotime \<Rightarrow> string \<times> string \<times> bool" where
  "LunchWindow s day =
     (let c = normalizeSchedules s
      in case se_lunch_breaks c (weekday_name (Weekday day)) of
           Some e \<Rightarrow> usable e
         | None \<Rightarrow> (se_lunch_start c, se_lunch_end c,
                     se_protect_lunch c \<and> se_lunch_start c \<noteq> '''' \<and> se_lunch_end c \<noteq> ''''))"

subsection \<open>Clock texts on a day\<close>

text \<open>
  \<^verbatim>\<open>fmt.Sscanf(hhmm, "%d:%d", &h, &m)\<close>: whatever was read before the first mismatch stays
  assigned, so an unreadable text is midnight and a text without minutes is the full hour.
\<close>

definition scan_hhmm :: "string \<Rightarrow> int \<times> int" where
  "scan_hhmm s = (case scan_int s of
      None \<Rightarrow> (0, 0)
    | Some (h, r) \<Rightarrow>
        (case r of
           c # r' \<Rightarrow> if c = CHR '':'' then (case scan_int r' of None \<Rightarrow> (h, 0) | Some (m, _) \<Rightarrow> (h, m)) else (h, 0)
         | [] \<Rightarrow> (h, 0)))"

definition parseHHMM :: "string \<Rightarrow> gotime \<Rightarrow> location \<Rightarrow> gotime" where
  "parseHHMM hhmm day loc = (let (h, m) = scan_hhmm hhmm in go_date (date_of day) h m 0 0 loc)"

definition startOfWeek :: "gotime \<Rightarrow> gotime" where
  "startOfWeek t =
     (let wd = (if Weekday t = 0 then 7 else Weekday t) in go_date (date_of t - wd + 1) 0 0 0 0 (tloc t))"

definition scan_or_zero :: "string \<Rightarrow> int" where
  "scan_or_zero s = (case scan_int s of Some (v, _) \<Rightarrow> v | None \<Rightarrow> 0)"

definition parseTime :: "string \<Rightarrow> gotime \<Rightarrow> gotime" where
  "parseTime hhmm date = (case split_first CHR '':'' hhmm of
      None \<Rightarrow> date
    | Some (a, b) \<Rightarrow> go_date (date_of date) (scan_or_zero a) (scan_or_zero b) 0 0 (tloc date))"

definition hhmmToMinutes :: "string \<Rightarrow> int" where
  "hhmmToMinutes hhmm = (case split_first CHR '':'' hhmm of
      None \<Rightarrow> 0 | Some (a, b) \<Rightarrow> scan_or_zero a * 60 + scan_or_zero b)"

text \<open>
  \<^verbatim>\<open>time.LoadLocation\<close> with the engines' fallback: a name that does not load is UTC.
\<close>

definition location_or_utc :: "(string \<Rightarrow> location option) \<Rightarrow> string \<Rightarrow> location" where
  "location_or_utc tzdb name = (case LoadLocation tzdb name of Some l \<Rightarrow> l | None \<Rightarrow> UTC)"

subsection \<open>The settings table\<close>

record settings_row =
  sr_id :: nat
  sr_user :: uuid
  sr_settings :: Settings
  sr_last_run :: "int option"

type_synonym settings_db = "settings_row list"

definition default_settings :: Settings where
  "default_settings = \<lparr>
     se_work_start = ''09:00'', se_work_end = ''18:00'', se_timezone = ''UTC'',
     se_focus_min = 25, se_focus_max = 120, se_focus_target = 240,
     se_out_of_hours = 0, se_auto_decline = False,
     se_focus_label = ''Focus Time'', se_focus_color = ''#4F46E5'',
     se_lunch_start = ''12:00'', se_lunch_end = ''13:00'', se_protect_lunch = True,
     se_buffer_before = 5, se_buffer_after = 5, se_buffer_enabled = False,
     se_buffer_min = 30, se_buffer_skip = True,
     se_working_hours = defaultWorkingHours ''09:00'' ''18:00'', se_lunch_breaks = Map.empty,
     se_auto_schedule = False, se_cron = ''0 8 * * *'', se_provider = ''google''\<rparr>"

definition find_row :: "settings_db \<Rightarrow> uuid \<Rightarrow> settings_row option" where
  "find_row db u = find (\<lambda>r. sr_user r = u) db"

text \<open>The id and the user of a new row: the serial column is an argument.\<close>

definition GetOrCreateSettingsByUser :: "nat \<Rightarrow> uuid \<Rightarrow> settings_db \<Rightarrow> settings_db \<times> Settings result" where
  "GetOrCreateSettingsByUser newid u db =
     (if u = 0 then (db, Inl (OtherError ''userID is required''))
      else case find_row db u of
          Some r \<Rightarrow> (db, Inr (normalizeSchedules (sr_settings r)))
        | None \<Rightarrow> (db @ [\<lparr>sr_id = newid, sr_user = u, sr_settings = default_settings, sr_last_run = None\<rparr>],
                  Inr (normalizeSchedules default_settings)))"

text \<open>
  The watermark a save leaves: set to the save's instant when the save turns automatic
  scheduling on, or changes the schedule or the zone while it stays on; else as stored.
\<close>

definition watermark_after_save :: "settings_row option \<Rightarrow> Settings \<Rightarrow> int \<Rightarrow> int option" where
  "watermark_after_save old s now = (case old of
      None \<Rightarrow> if se_auto_schedule s then Some now else None
    | Some r \<Rightarrow>
        if se_auto_schedule s \<and> (\<not> se_auto_schedule (sr_settings r) \<or>
             se_cron (sr_settings r) \<noteq> se_cron s \<or> se_timezone (sr_settings r) \<noteq> se_timezone s)
        then Some now else sr_last_run r)"

definition SaveSettingsForUserAt :: "nat \<Rightarrow> uuid \<Rightarrow> Settings \<Rightarrow> int \<Rightarrow> settings_db \<Rightarrow> settings_db \<times> unit result" where
  "SaveSettingsForUserAt newid u s0 now db =
     (if u = 0 then (db, Inl (OtherError ''userID is required''))
      else let s = normalizeSchedules s0; wm = watermark_after_save (find_row db u) s now
           in (case find_row db u of
                 None \<Rightarrow> db @ [\<lparr>sr_id = newid, sr_user = u, sr_settings = s, sr_last_run = wm\<rparr>]
               | Some _ \<Rightarrow> map (\<lambda>r. if sr_user r = u then r\<lparr>sr_settings := s, sr_last_run := wm\<rparr> else r) db, Inr ()))"

record AutoScheduleCandidate =
  ac_user :: uuid
  ac_cron :: string
  ac_timezone :: string
  ac_last_run :: "int option"

definition candidate_of :: "settings_row \<Rightarrow> AutoScheduleCandidate" where
  "candidate_of r = \<lparr>ac_user = sr_user r, ac_cron = se_cron (sr_settings r),
     ac_timezone = se_timezone (sr_settings r), ac_last_run = sr_last_run r\<rparr>"

definition ListAutoScheduleCandidates :: "settings_db \<Rightarrow> AutoScheduleCandidate list" where
  "ListAutoScheduleCandidates db =
     map candidate_of (sort_key sr_id (filter (\<lambda>r. se_auto_schedule (sr_settings r)) db))"

definition GetAutoScheduleLastRun :: "settings_db \<Rightarrow> uuid \<Rightarrow> int option result" where
  "GetAutoScheduleLastRun db u =
     (if u = 0 then Inl (OtherError ''userID is required'')
      else Inr (case find_row db u of None \<Rightarrow> None | Some r \<Rightarrow> sr_last_run r))"

definition AdvanceAutoScheduleWatermark ::
  "uuid \<Rightarrow> int option \<Rightarrow> int \<Rightarrow> settings_db \<Rightarrow> settings_db \<times> bool result" where
  "AdvanceAutoScheduleWatermark u observed to db =
     (if u = 0 then (db, Inl (OtherError ''userID is required''))
      else let hit = (\<lambda>r. sr_user r = u \<and> se_auto_schedule (sr_settings r) \<and> sr_last_run r = observed)
           in (map (\<lambda>r. if hit r then r\<lparr>sr_last_run := Some to\<rparr> else r) db,
               Inr (length (filter hit db) = 1)))"

definition ListUsersWithAutoDecline :: "settings_db \<Rightarrow> uuid list" where
  "ListUsersWithAutoDecline db = map sr_user (filter (\<lambda>r. se_auto_decline (sr_settings r)) db)"

definition GetUserTimezone :: "settings_db \<Rightarrow> uuid \<Rightarrow> string option" where
  "GetUserTimezone db u = map_option (\<lambda>r. se_timezone (sr_settings r)) (find_row db u)"

subsection \<open>The table's invariant\<close>

text \<open>One row per user (\<^verbatim>\<open>UNIQUE (user_id)\<close>), and a user id is never nil.\<close>

definition settings_ok :: "settings_db \<Rightarrow> bool" where
  "settings_ok db \<longleftrightarrow> distinct (map sr_user db) \<and> list_all (\<lambda>r. sr_user r \<noteq> 0) db"

lemma find_row_None: "find_row db u = None \<longleftrightarrow> u \<notin> set (map sr_user db)"
  by (auto simp: find_row_def find_None_iff)

lemma find_row_Some: "find_row db u = Some r \<Longrightarrow> r \<in> set db \<and> sr_user r = u"
  by (auto simp: find_row_def find_Some_iff)

lemma find_row_map:
  assumes "\<And>r. sr_user (f r) = sr_user r"
  shows "find_row (map f db) u = map_option f (find_row db u)"
  using assms by (induction db) (auto simp: find_row_def)

lemma find_row_append: "find_row (db @ [r]) u = (case find_row db u of None \<Rightarrow> if sr_user r = u then Some r else None | Some x \<Rightarrow> Some x)"
  by (induction db) (auto simp: find_row_def)

lemma map_sr_user: "(\<And>r. sr_user (f r) = sr_user r) \<Longrightarrow> map sr_user (map f db) = map sr_user db"
  by simp

lemma settings_ok_map: "(\<And>r. sr_user (f r) = sr_user r) \<Longrightarrow> settings_ok db \<Longrightarrow> settings_ok (map f db)"
  by (simp add: settings_ok_def list_all_iff comp_def)

lemma settings_ok_append:
  "settings_ok db \<Longrightarrow> u \<noteq> 0 \<Longrightarrow> find_row db u = None \<Longrightarrow> sr_user r = u \<Longrightarrow> settings_ok (db @ [r])"
  by (auto simp: settings_ok_def find_row_None)

lemma settings_ok_steps:
  assumes "settings_ok db"
  shows "settings_ok (fst (GetOrCreateSettingsByUser i u db))"
    and "settings_ok (fst (SaveSettingsForUserAt i u s now db))"
    and "settings_ok (fst (AdvanceAutoScheduleWatermark u obs to db))"
  using assms
  by (auto simp: GetOrCreateSettingsByUser_def SaveSettingsForUserAt_def AdvanceAutoScheduleWatermark_def Let_def
      split: option.splits intro!: settings_ok_map settings_ok_append)

text \<open>What a save leaves of every row.\<close>

lemma SaveSettings_row:
  assumes "u \<noteq> 0"
  shows "find_row (fst (SaveSettingsForUserAt i u s now db)) v =
     (if v = u then
        Some (case find_row db u of
            None \<Rightarrow> \<lparr>sr_id = i, sr_user = u, sr_settings = normalizeSchedules s,
                     sr_last_run = watermark_after_save None (normalizeSchedules s) now\<rparr>
          | Some r \<Rightarrow> r\<lparr>sr_settings := normalizeSchedules s,
                        sr_last_run := watermark_after_save (Some r) (normalizeSchedules s) now\<rparr>)
      else find_row db v)"
proof (cases "find_row db u")
  case None
  then show ?thesis
    using assms by (auto simp: SaveSettingsForUserAt_def Let_def find_row_append split: option.splits)
next
  case (Some r)
  let ?f = "\<lambda>x. if sr_user x = u then x\<lparr>sr_settings := normalizeSchedules s,
              sr_last_run := watermark_after_save (Some r) (normalizeSchedules s) now\<rparr> else x"
  have "find_row (map ?f db) v = map_option ?f (find_row db v)" by (rule find_row_map) simp
  then show ?thesis
    using assms Some find_row_Some [of db u r] find_row_Some [of db v]
    by (auto simp: SaveSettingsForUserAt_def Let_def map_option_case split: option.splits)
qed

text \<open>Advancing is a compare-and-set on the user's own row.\<close>

lemma filter_one_user:
  assumes "distinct (map sr_user db)"
  shows "filter (\<lambda>r. sr_user r = u \<and> P r) db = (case find_row db u of None \<Rightarrow> [] | Some r \<Rightarrow> if P r then [r] else [])"
  using assms
proof (induction db)
  case (Cons r db)
  show ?case
  proof (cases "sr_user r = u")
    case True
    then have "find_row db u = None" using Cons.prems by (simp add: find_row_None)
    then have "filter (\<lambda>r. sr_user r = u \<and> P r) db = []" using Cons by simp
    then show ?thesis using True by (simp add: find_row_def)
  next
    case False
    then show ?thesis using Cons by (simp add: find_row_def)
  qed
qed (simp add: find_row_def)

lemma Advance_spec:
  assumes "settings_ok db" "u \<noteq> 0" "AdvanceAutoScheduleWatermark u obs to db = (db', Inr ok)"
  shows "ok \<longleftrightarrow> (\<exists>r. find_row db u = Some r \<and> se_auto_schedule (sr_settings r) \<and> sr_last_run r = obs)"
    and "find_row db' v = (if v = u \<and> ok then map_option (\<lambda>r. r\<lparr>sr_last_run := Some to\<rparr>) (find_row db u) else find_row db v)"
proof -
  let ?P = "\<lambda>r. se_auto_schedule (sr_settings r) \<and> sr_last_run r = obs"
  have d: "distinct (map sr_user db)" using assms(1) by (simp add: settings_ok_def)
  have f: "filter (\<lambda>r. sr_user r = u \<and> ?P r) db = (case find_row db u of None \<Rightarrow> [] | Some r \<Rightarrow> if ?P r then [r] else [])"
    by (rule filter_one_user [OF d])
  have ok: "ok \<longleftrightarrow> length (filter (\<lambda>r. sr_user r = u \<and> ?P r) db) = 1"
    and db': "db' = map (\<lambda>r. if sr_user r = u \<and> ?P r then r\<lparr>sr_last_run := Some to\<rparr> else r) db"
    using assms(2,3) by (auto simp: AdvanceAutoScheduleWatermark_def Let_def)
  show 1: "ok \<longleftrightarrow> (\<exists>r. find_row db u = Some r \<and> se_auto_schedule (sr_settings r) \<and> sr_last_run r = obs)"
    unfolding ok f by (auto split: option.splits)
  have "find_row db' v = map_option (\<lambda>r. if sr_user r = u \<and> ?P r then r\<lparr>sr_last_run := Some to\<rparr> else r) (find_row db v)"
    unfolding db' by (rule find_row_map) simp
  moreover have "sr_user r = v" if "find_row db v = Some r" for r using find_row_Some [OF that] by simp
  ultimately show "find_row db' v = (if v = u \<and> ok then map_option (\<lambda>r. r\<lparr>sr_last_run := Some to\<rparr>) (find_row db u) else find_row db v)"
    unfolding 1 by (cases "find_row db v") (auto simp del: map_option_is_None)
qed

subsection \<open>Windows\<close>

lemma Weekday_range: "0 \<le> Weekday t" "Weekday t < 7"
  by (simp_all add: Weekday_def)

lemma WorkWindow_enabled: "WorkWindow s day = (a, b, True) \<Longrightarrow> a \<noteq> '''' \<and> b \<noteq> ''''"
  by (auto simp: WorkWindow_def usable_def Let_def split: if_splits option.splits)

lemma LunchWindow_enabled: "LunchWindow s day = (a, b, True) \<Longrightarrow> a \<noteq> '''' \<and> b \<noteq> ''''"
  by (auto simp: LunchWindow_def usable_def Let_def split: if_splits option.splits)

lemma normalizeSchedules_idem: "normalizeSchedules (normalizeSchedules s) = normalizeSchedules s"
  by (simp add: normalizeSchedules_def Let_def defaultWorkingHours_def)

lemma WorkWindow_normalized: "WorkWindow (normalizeSchedules s) day = WorkWindow s day"
  by (simp add: WorkWindow_def normalizeSchedules_idem)

text \<open>The first day of the week is a Monday at most six days back, where its midnight exists.\<close>

lemma weekday_back:
  fixes d :: int
  defines "wd \<equiv> (if (d + 4) mod 7 = 0 then 7 else (d + 4) mod 7)"
  shows "(d - wd + 1 + 4) mod 7 = 1" "1 \<le> wd" "wd \<le> 7"
proof -
  show "1 \<le> wd" "wd \<le> 7"
    using pos_mod_bound [of 7 "d + 4"] pos_mod_sign [of 7 "d + 4"] unfolding wd_def by auto
  have "7 dvd (d + 4 - wd)"
  proof (cases "(d + 4) mod 7 = 0")
    case True
    then have "7 dvd (d + 4)" by (rule mod_0_imp_dvd)
    then have "7 dvd (d + 4 - 7)" by (rule dvd_diff) simp
    then show ?thesis using True by (simp add: wd_def)
  next
    case False
    then show ?thesis by (simp add: wd_def)
  qed
  then obtain k where "d + 4 - wd = 7 * k" by (rule dvdE)
  then have "(d - wd + 1 + 4) = 1 + 7 * k" by linarith
  then show "(d - wd + 1 + 4) mod 7 = 1" by (simp only: mod_mult_self2) simp
qed

definition week_day_number :: "gotime \<Rightarrow> int" where
  "week_day_number t = date_of t - (if Weekday t = 0 then 7 else Weekday t) + 1"

lemma startOfWeek_go_date: "startOfWeek t = go_date (week_day_number t) 0 0 0 0 (tloc t)"
  by (simp add: startOfWeek_def week_day_number_def)

lemma startOfWeek_spec:
  assumes "wf_zone (tloc t)" "one_change (tloc t) (week_day_number t * day_sec)"
    "x + offset_at (tloc t) x = week_day_number t * day_sec"
  shows "Weekday (startOfWeek t) = 1" "date_of (startOfWeek t) \<le> date_of t"
    "date_of t < date_of (startOfWeek t) + 7" "clock_sec (startOfWeek t) = 0"
proof -
  let ?n = "week_day_number t"
  have d: "date_of (startOfWeek t) = ?n" "clock_sec (startOfWeek t) = 0"
    using go_date_exact [of "tloc t" ?n 0 0 0 x] assms
    by (simp_all add: startOfWeek_go_date wall_sec_def)
  then show "clock_sec (startOfWeek t) = 0" by simp
  note wb = weekday_back [of "date_of t"]
  show "Weekday (startOfWeek t) = 1"
    unfolding Weekday_def d(1) week_day_number_def by (rule wb(1))
  show "date_of (startOfWeek t) \<le> date_of t" "date_of t < date_of (startOfWeek t) + 7"
    unfolding d(1) using wb(2,3) by (auto simp: week_day_number_def Weekday_def)
qed

end
