(* ===== verification/FocusStore.thy ===== *)
theory FocusStore
  imports Settings
begin

section \<open>FocusStore: focus blocks and the activity log\<close>

text \<open>
  \<^verbatim>\<open>backend/storage/focus_blocks.go\<close> and \<^verbatim>\<open>backend/storage/audit_log.go\<close>: the tables
  \<^verbatim>\<open>focus_blocks\<close> and \<^verbatim>\<open>audit_log\<close>. The \<^verbatim>\<open>date\<close> column holds the text \<^verbatim>\<open>YYYY-MM-DD\<close>, which is kept as
  its day number (the texts of two dates compare as the dates do). Instants are stored and
  read back in UTC. The details of an entry are kept as the values its JSON text is made of.
\<close>

record FocusRow =
  fb_id :: nat
  fb_user :: "uuid option"
  fb_event :: string
  fb_start :: gotime
  fb_end :: gotime
  fb_date :: int

datatype audit_details =
    FocusCreated (week_start: int) (created: nat) (total_minutes: int)
  | FocusCleared (week_start: int) (cleared: nat) (errors: "string list")
  | MeetingScheduled (event_id: string) (title: string)
  | MeetingMoved (event_id: string) (new_start: string)

record AuditRow =
  au_user :: uuid
  au_action :: string
  au_details :: audit_details

definition SaveFocusBlock :: "nat \<Rightarrow> uuid \<Rightarrow> string \<Rightarrow> int \<Rightarrow> gotime \<Rightarrow> gotime \<Rightarrow> FocusRow list \<Rightarrow> FocusRow list" where
  "SaveFocusBlock newid u ev date st en rows =
     (if list_ex (\<lambda>r. fb_event r = ev) rows then rows
      else rows @ [\<lparr>fb_id = newid, fb_user = Some u, fb_event = ev,
             fb_start = In st UTC, fb_end = In en UTC, fb_date = date\<rparr>])"

definition ListFocusBlocksForUserWeek :: "FocusRow list \<Rightarrow> uuid \<Rightarrow> gotime \<Rightarrow> FocusRow list" where
  "ListFocusBlocksForUserWeek rows u weekStart =
     sort_key (\<lambda>r. ns (fb_start r))
       (filter (\<lambda>r. fb_user r = Some u \<and> date_of weekStart \<le> fb_date r \<and> fb_date r < date_of (AddDays weekStart 7)) rows)"

definition DeleteFocusBlock :: "uuid \<Rightarrow> string \<Rightarrow> FocusRow list \<Rightarrow> FocusRow list" where
  "DeleteFocusBlock u ev rows = filter (\<lambda>r. \<not> (fb_user r = Some u \<and> fb_event r = ev)) rows"

text \<open>The database's cast of the exact sum to an integer rounds a half away from zero.\<close>

definition round_minutes :: "int \<Rightarrow> int" where
  "round_minutes d = sgn d * ((2 * \<bar>d\<bar> + minute_ns) div (2 * minute_ns))"

definition FocusMinutesForDay :: "FocusRow list \<Rightarrow> uuid \<Rightarrow> int \<Rightarrow> int" where
  "FocusMinutesForDay rows u date =
     round_minutes (sum_list (map (\<lambda>r. Sub (fb_end r) (fb_start r))
       (filter (\<lambda>r. fb_user r = Some u \<and> fb_date r = date) rows)))"

text \<open>An entry with no subject is refused; \<open>ok\<close> tells whether the insert succeeds.\<close>

definition WriteAuditLog :: "bool \<Rightarrow> uuid \<Rightarrow> string \<Rightarrow> audit_details \<Rightarrow> AuditRow list \<Rightarrow> AuditRow list" where
  "WriteAuditLog ok u action details log =
     (if u = 0 \<or> \<not> ok then log
      else log @ [\<lparr>au_user = u, au_action = action, au_details = details\<rparr>])"

definition AuditDefaultLimit :: int where "AuditDefaultLimit = 50"
definition AuditMaxLimit :: int where "AuditMaxLimit = 500"

definition audit_limit :: "int \<Rightarrow> int" where
  "audit_limit n = (if n \<le> 0 then AuditDefaultLimit else if n > AuditMaxLimit then AuditMaxLimit else n)"

text \<open>Newest first: rows are appended in the order they are created.\<close>

definition ListAuditLog :: "AuditRow list \<Rightarrow> uuid \<Rightarrow> int \<Rightarrow> AuditRow list" where
  "ListAuditLog log u limit = take (nat (audit_limit limit)) (rev (filter (\<lambda>r. au_user r = u) log))"

subsection \<open>Lemmas\<close>

definition focus_ok :: "FocusRow list \<Rightarrow> bool" where
  "focus_ok rows \<longleftrightarrow> distinct (map fb_event rows)"

lemma SaveFocusBlock_ok: "focus_ok rows \<Longrightarrow> focus_ok (SaveFocusBlock i u ev d a b rows)"
  by (auto simp: focus_ok_def SaveFocusBlock_def list_ex_iff)

lemma DeleteFocusBlock_ok: "focus_ok rows \<Longrightarrow> focus_ok (DeleteFocusBlock u ev rows)"
  by (simp add: focus_ok_def DeleteFocusBlock_def distinct_map_filter)

lemma ListFocusBlocks_set:
  "r \<in> set (ListFocusBlocksForUserWeek rows u w) \<longleftrightarrow>
   r \<in> set rows \<and> fb_user r = Some u \<and> date_of w \<le> fb_date r \<and> fb_date r < date_of (AddDays w 7)"
  by (auto simp: ListFocusBlocksForUserWeek_def)

text \<open>Deleting a list of events one by one.\<close>

lemma foldl_delete_set:
  "set (foldl (\<lambda>rs b. DeleteFocusBlock u (fb_event b) rs) rows bs) =
   {r \<in> set rows. \<not> (fb_user r = Some u \<and> fb_event r \<in> fb_event ` set bs)}"
  by (induction bs arbitrary: rows) (auto simp: DeleteFocusBlock_def)

lemma ListAuditLog_own: "r \<in> set (ListAuditLog log u n) \<Longrightarrow> au_user r = u"
  unfolding ListAuditLog_def by (auto dest: in_set_takeD)

lemma ListAuditLog_length: "length (ListAuditLog log u n) \<le> 500"
  by (auto simp: ListAuditLog_def audit_limit_def AuditDefaultLimit_def AuditMaxLimit_def)

end
