(* ===== verification/Peritem.thy ===== *)
theory Peritem
  imports GoTime
begin

section \<open>Peritem: per-item calls on a bounded pool\<close>

text \<open>
  \<^verbatim>\<open>backend/internal/peritem/peritem.go\<close>: \<^verbatim>\<open>Run\<close> calls a function for the items \<open>0..n-1\<close> on at
  most \<^verbatim>\<open>Workers\<close> goroutines. \<open>runOne\<close> is the gate before a call and the verdict after it, as a
  function of what it observes (the context's state, the time left). The goroutines are a
  step relation: the dispatcher checks for a cut, offers the next item, and a free worker
  takes it; workers finish in any order. The theorems: the pool is bounded, items start in
  order and once, the pool cannot get stuck and every run ends, and a run that ends without
  a cut has the result of every item; so \<^verbatim>\<open>Run\<close> refines the function \<open>run_items\<close> the engines'
  models call.
\<close>

datatype mode = Read | Create | Detached

text \<open>The time left to the earlier of the context's deadline and the end of the drain.\<close>

definition Remaining :: "int \<Rightarrow> int option \<Rightarrow> int option \<Rightarrow> int option" where
  "Remaining now deadline drain =
     (let e = (case drain of
          None \<Rightarrow> deadline
        | Some d \<Rightarrow> (case deadline of None \<Rightarrow> Some d | Some dl \<Rightarrow> if d < dl then Some d else Some dl))
      in map_option (\<lambda>x. x - now) e)"

text \<open>
  What \<^verbatim>\<open>runOne\<close> observes: whether the context has ended before the call, the time left, and
  after the call whether the call's own context and the request's context have ended.
\<close>

record run_obs =
  ob_ended_before :: bool
  ob_remaining :: "int option"
  ob_call_ended :: bool
  ob_ended_after :: bool

text \<open>A started call: its timeout, and whether the request's end also ends it.\<close>

datatype call = NotStarted | Started (timeout: int) (bound_to_request: bool)

definition runOne :: "mode \<Rightarrow> int \<Rightarrow> int \<Rightarrow> run_obs \<Rightarrow> call \<times> bool" where
  "runOne md limit margin ob =
     (if ob_ended_before ob then (NotStarted, False)
      else if md = Detached then (Started limit True, True)
      else if (case ob_remaining ob of None \<Rightarrow> False | Some r \<Rightarrow> r \<le> margin) then (NotStarted, False)
      else if md = Create then
        (if (case ob_remaining ob of None \<Rightarrow> False | Some r \<Rightarrow> r < limit + margin) then (NotStarted, False)
         else (Started limit False, True))
      else
        (let (d, shortened) = (case ob_remaining ob of
                None \<Rightarrow> (limit, False)
              | Some r \<Rightarrow> if r - margin < limit then (r - margin, True) else (limit, False))
         in (Started d True, \<not> (ob_call_ended ob \<and> (shortened \<or> ob_ended_after ob)))))"

lemma runOne_create:
  assumes "runOne Create limit margin ob = (c, ok)"
  shows "c \<noteq> NotStarted \<Longrightarrow> c = Started limit False \<and> ok \<and> (\<forall>r. ob_remaining ob = Some r \<longrightarrow> limit + margin \<le> r)"
  using assms by (auto simp: runOne_def split: if_splits option.splits)

lemma runOne_read:
  assumes "runOne Read limit margin ob = (Started d b, ok)" "0 < margin" "0 < limit"
  shows "0 < d" "d \<le> limit" "\<And>r. ob_remaining ob = Some r \<Longrightarrow> d \<le> r - margin"
    "ok \<Longrightarrow> ob_call_ended ob \<Longrightarrow> d = limit \<and> \<not> ob_ended_after ob"
  using assms by (auto simp: runOne_def split: if_splits option.splits)

lemma runOne_unstarted: "runOne md limit margin ob = (NotStarted, ok) \<Longrightarrow> \<not> ok"
  by (auto simp: runOne_def Let_def split: if_splits option.splits prod.splits)

subsection \<open>The pool\<close>

datatype dispatcher = Checking | Offering | Closed

record 'r pool =
  po_next :: nat
  po_disp :: dispatcher
  po_active :: "nat list"
  po_done :: "nat list"
  po_results :: "nat \<rightharpoonup> 'r"
  po_cut :: bool

definition pool_init :: "'r pool" where
  "pool_init = \<lparr>po_next = 0, po_disp = Checking, po_active = [], po_done = [], po_results = Map.empty, po_cut = False\<rparr>"

definition pool_size :: "int \<Rightarrow> nat \<Rightarrow> nat" where
  "pool_size workers n = min n (nat (if workers < 1 then 1 else workers))"

definition finish_item :: "nat \<Rightarrow> 'r pool \<Rightarrow> 'r pool" where
  "finish_item i p = p\<lparr>po_active := remove1 i (po_active p), po_done := i # po_done p\<rparr>"

text \<open>
  The steps. \<open>body i\<close> is what the item's call records when it is not cut; a call that is cut
  records something else, or nothing. \<open>stop\<close> is the check that sees a cut or an ended
  context.
\<close>

inductive pool_step :: "int \<Rightarrow> nat \<Rightarrow> (nat \<Rightarrow> 'r) \<Rightarrow> 'r pool \<Rightarrow> 'r pool \<Rightarrow> bool"
  for workers :: int and n :: nat and body :: "nat \<Rightarrow> 'r" where
  go: "po_disp p = Checking \<Longrightarrow> po_next p < n \<Longrightarrow> \<not> po_cut p \<Longrightarrow>
     pool_step workers n body p (p\<lparr>po_disp := Offering\<rparr>)"
| stop: "po_disp p = Checking \<Longrightarrow> po_next p < n \<Longrightarrow>
     pool_step workers n body p (p\<lparr>po_disp := Closed, po_cut := True\<rparr>)"
| hand: "po_disp p = Offering \<Longrightarrow> length (po_active p) < pool_size workers n \<Longrightarrow>
     pool_step workers n body p
       (p\<lparr>po_disp := Checking, po_active := po_next p # po_active p, po_next := Suc (po_next p)\<rparr>)"
| close: "po_disp p = Checking \<Longrightarrow> \<not> po_next p < n \<Longrightarrow>
     pool_step workers n body p (p\<lparr>po_disp := Closed\<rparr>)"
| item_ok: "i \<in> set (po_active p) \<Longrightarrow>
     pool_step workers n body p ((finish_item i p)\<lparr>po_results := (po_results p)(i \<mapsto> body i)\<rparr>)"
| item_cut: "i \<in> set (po_active p) \<Longrightarrow>
     pool_step workers n body p ((finish_item i p)\<lparr>po_results := (po_results p)(i := r), po_cut := True\<rparr>)"

inductive pool_reach :: "int \<Rightarrow> nat \<Rightarrow> (nat \<Rightarrow> 'r) \<Rightarrow> 'r pool \<Rightarrow> bool"
  for workers :: int and n :: nat and body :: "nat \<Rightarrow> 'r" where
  init: "pool_reach workers n body pool_init"
| step: "pool_reach workers n body p \<Longrightarrow> pool_step workers n body p q \<Longrightarrow> pool_reach workers n body q"

definition pool_finished :: "'r pool \<Rightarrow> bool" where
  "pool_finished p \<longleftrightarrow> po_disp p = Closed \<and> po_active p = []"

definition run_result :: "nat \<Rightarrow> 'r pool \<Rightarrow> 'r list result" where
  "run_result n p = (if po_cut p then Inl ErrExpired else Inr (map (\<lambda>i. the (po_results p i)) [0..<n]))"

text \<open>\<^verbatim>\<open>Run\<close> as the engines see it: the budget error when the run was cut, else every item's result.\<close>

definition run_items :: "bool \<Rightarrow> nat \<Rightarrow> (nat \<Rightarrow> 'r) \<Rightarrow> 'r list result" where
  "run_items wascut n body = (if wascut then Inl ErrExpired else Inr (map body [0..<n]))"

subsection \<open>The pool's invariant\<close>

definition pool_inv :: "int \<Rightarrow> nat \<Rightarrow> (nat \<Rightarrow> 'r) \<Rightarrow> 'r pool \<Rightarrow> bool" where
  "pool_inv workers n body p \<longleftrightarrow>
     length (po_active p) \<le> pool_size workers n \<and>
     distinct (po_active p @ po_done p) \<and> set (po_active p) \<union> set (po_done p) = {0..<po_next p} \<and>
     po_next p \<le> n \<and> (po_disp p = Offering \<longrightarrow> po_next p < n) \<and>
     (\<not> po_cut p \<longrightarrow> (\<forall>i \<in> set (po_done p). po_results p i = Some (body i)) \<and>
        (po_disp p = Closed \<longrightarrow> po_next p = n))"

lemma pool_inv_init: "pool_inv workers n body pool_init"
  by (simp add: pool_inv_def pool_init_def)

lemma pool_step_inv: "pool_step workers n body p q \<Longrightarrow> pool_inv workers n body p \<Longrightarrow> pool_inv workers n body q"
proof (induction rule: pool_step.induct)
  case (item_ok i p)
  then show ?case by (auto simp: pool_inv_def finish_item_def length_remove1)
next
  case (item_cut i p r)
  then show ?case by (auto simp: pool_inv_def finish_item_def length_remove1)
qed (auto simp: pool_inv_def)

lemma pool_reach_inv: "pool_reach workers n body p \<Longrightarrow> pool_inv workers n body p"
  by (induction rule: pool_reach.induct) (auto intro: pool_inv_init pool_step_inv)

lemma pool_finished_results:
  assumes "pool_reach workers n body p" "pool_finished p" "\<not> po_cut p" "i < n"
  shows "po_results p i = Some (body i)"
proof -
  have inv: "pool_inv workers n body p" using assms(1) by (rule pool_reach_inv)
  then have "set (po_done p) = {0..<n}" using assms(2,3) by (simp add: pool_inv_def pool_finished_def)
  then have "i \<in> set (po_done p)" using assms(4) by simp
  then show ?thesis using inv assms(3) by (simp add: pool_inv_def)
qed

lemma run_refines:
  assumes "pool_reach workers n body p" "pool_finished p"
  shows "run_result n p = run_items (po_cut p) n body"
  using pool_finished_results [OF assms] by (auto simp: run_result_def run_items_def)

text \<open>The pool never waits for nothing.\<close>

lemma pool_progress:
  assumes "pool_reach workers n body p" "\<not> pool_finished p"
  shows "\<exists>q. pool_step workers n body p q"
proof (cases "po_active p")
  case (Cons i rest)
  then show ?thesis using pool_step.item_ok [of i p] by auto
next
  case Nil
  show ?thesis
  proof (cases "po_disp p")
    case Checking
    then show ?thesis using pool_step.stop [of p] pool_step.close [of p] by blast
  next
    case Offering
    then have "po_next p < n" using pool_reach_inv [OF assms(1)] by (simp add: pool_inv_def)
    then have "length (po_active p) < pool_size workers n" using Nil by (auto simp: pool_size_def)
    then show ?thesis using Offering pool_step.hand [of p] by blast
  next
    case Closed
    then show ?thesis using assms(2) Nil by (simp add: pool_finished_def)
  qed
qed

definition pool_measure :: "nat \<Rightarrow> 'r pool \<Rightarrow> nat" where
  "pool_measure n p = 4 * (n - po_next p) +
     (case po_disp p of Checking \<Rightarrow> 2 | Offering \<Rightarrow> 1 | Closed \<Rightarrow> 0) + length (po_active p)"

lemma pool_step_measure:
  assumes "pool_step workers n body p q" "pool_inv workers n body p"
  shows "pool_measure n q < pool_measure n p"
  using assms
proof (cases rule: pool_step.cases)
  case (item_ok i)
  then show ?thesis using length_pos_if_in_set [of i "po_active p"]
    by (simp add: pool_measure_def finish_item_def length_remove1)
next
  case (item_cut i r)
  then show ?thesis using length_pos_if_in_set [of i "po_active p"]
    by (simp add: pool_measure_def finish_item_def length_remove1)
qed (auto simp: pool_measure_def pool_inv_def)

subsection \<open>The interface the engines use\<close>

text \<open>
  What an engine relies on when it hands \<open>n\<close> reads to the pool: either all results, each of
  its own item, or the budget error.
\<close>

locale item_runner =
  fixes run :: "bool \<Rightarrow> nat \<Rightarrow> (nat \<Rightarrow> 'r) \<Rightarrow> 'r list result"
  assumes run_length: "run wascut n f = Inr rs \<Longrightarrow> length rs = n"
    and run_nth: "run wascut n f = Inr rs \<Longrightarrow> i < n \<Longrightarrow> rs ! i = f i"
    and run_error: "run wascut n f = Inl e \<Longrightarrow> e = ErrExpired \<and> wascut"
    and run_uncut: "run False n f = Inr rs \<or> rs \<noteq> map f [0..<n]"
begin

lemma run_map: "run wascut n f = Inr rs \<Longrightarrow> rs = map f [0..<n]"
  by (rule nth_equalityI) (auto simp: run_length run_nth)

lemma run_over_list:
  assumes "run wascut (length xs) (\<lambda>i. g (xs ! i)) = Inr rs"
  shows "rs = map g xs"
  using run_length [OF assms] run_nth [OF assms] by (intro nth_equalityI) simp_all

lemma run_uncut_map: "run False n f = Inr (map f [0..<n])"
  using run_uncut by blast

end

interpretation pool: item_runner run_items
  by unfold_locales (auto simp: run_items_def split: if_splits)

subsection \<open>Properties\<close>

text \<open>
  C22. \<^verbatim>\<open>Run\<close> on the pool, whatever the interleaving of its goroutines, refines the function
  the engines rely on: a run that has ended is the budget error if it was cut, and
  otherwise the results of all items, each of its own call.
\<close>

theorem pool_refines_run:
  assumes "pool_reach workers n body p" "pool_finished p"
  shows "run_result n p = run_items (po_cut p) n body"
  using assms by (rule run_refines)

text \<open>A run of two items on one worker.\<close>

definition ex_pool :: "nat pool" where
  "ex_pool = \<lparr>po_next = 2, po_disp = Closed, po_active = [], po_done = [1, 0],
     po_results = [0 \<mapsto> 10, 1 \<mapsto> 11], po_cut = False\<rparr>"

lemma ex_pool_reached: "pool_reach 1 2 (\<lambda>i. i + 10) ex_pool"
proof -
  let ?go = "pool_reach 1 2 (\<lambda>i. i + 10)"
  note st = pool_reach.step [of 1 2 "\<lambda>i. i + 10"] and i = pool_step.item_ok [of _ _ 1 2 "\<lambda>i. i + 10"]
  have 1: "?go (pool_init\<lparr>po_disp := Offering\<rparr>)"
    by (rule st [OF pool_reach.init], rule pool_step.go) (simp_all add: pool_init_def)
  have 2: "?go \<lparr>po_next = 1, po_disp = Checking, po_active = [0], po_done = [], po_results = Map.empty, po_cut = False\<rparr>"
    using st [OF 1 pool_step.hand] by (simp add: pool_init_def pool_size_def)
  have 3: "?go \<lparr>po_next = 1, po_disp = Checking, po_active = [], po_done = [0], po_results = [0 \<mapsto> 10], po_cut = False\<rparr>"
    using st [OF 2 i [of 0]] by (simp add: finish_item_def)
  have 4: "?go \<lparr>po_next = 1, po_disp = Offering, po_active = [], po_done = [0], po_results = [0 \<mapsto> 10], po_cut = False\<rparr>"
    using st [OF 3 pool_step.go] by simp
  have 5: "?go \<lparr>po_next = 2, po_disp = Checking, po_active = [1], po_done = [0], po_results = [0 \<mapsto> 10], po_cut = False\<rparr>"
    using st [OF 4 pool_step.hand] by (simp add: pool_size_def numeral_2_eq_2)
  have 6: "?go \<lparr>po_next = 2, po_disp = Checking, po_active = [], po_done = [1, 0], po_results = [0 \<mapsto> 10, 1 \<mapsto> 11], po_cut = False\<rparr>"
    using st [OF 5 i [of 1]] by (simp add: finish_item_def)
  show ?thesis using st [OF 6 pool_step.close] by (simp add: ex_pool_def)
qed

theorem pool_refines_run_witness: "run_result 2 ex_pool = Inr [10, 11]"
  using pool_refines_run [OF ex_pool_reached]
  by (simp add: pool_finished_def run_items_def ex_pool_def numeral_2_eq_2)

text \<open>
  C23. At every moment of a run at most the configured number of calls are active, items are
  started in order and none twice, and no item is lost: those started are active or done.
\<close>

theorem pool_is_bounded:
  assumes "pool_reach workers n body p"
  shows "length (po_active p) \<le> nat (max 1 workers) \<and> distinct (po_active p @ po_done p) \<and>
     set (po_active p) \<union> set (po_done p) = {0..<po_next p} \<and> po_next p \<le> n"
proof -
  have "pool_size workers n \<le> nat (max 1 workers)" by (auto simp: pool_size_def)
  then show ?thesis using pool_reach_inv [OF assms] by (auto simp: pool_inv_def)
qed

theorem pool_is_bounded_witness:
  "length (po_active ex_pool) \<le> nat (max 1 1) \<and> distinct (po_active ex_pool @ po_done ex_pool) \<and>
     set (po_active ex_pool) \<union> set (po_done ex_pool) = {0..<po_next ex_pool} \<and> po_next ex_pool \<le> 2"
  by (rule pool_is_bounded [OF ex_pool_reached])

text \<open>
  C24. A run never gets stuck and always ends: while it has not ended some goroutine can move,
  and every move decreases a natural number.
\<close>

theorem pool_terminates:
  assumes "pool_reach workers n body p" "\<not> pool_finished p"
  shows "(\<exists>q. pool_step workers n body p q) \<and> (\<forall>q. pool_step workers n body p q \<longrightarrow> pool_measure n q < pool_measure n p)"
  using pool_progress [OF assms] pool_step_measure pool_reach_inv [OF assms(1)] by blast

theorem pool_terminates_witness:
  "\<exists>q. pool_step 3 4 (\<lambda>i. i) pool_init q \<and> pool_measure 4 q < pool_measure 4 (pool_init :: nat pool)"
proof -
  have "\<not> pool_finished (pool_init :: nat pool)" by (simp add: pool_finished_def pool_init_def)
  then show ?thesis using pool_terminates [OF pool_reach.init, of 3 4 "\<lambda>i. i"] by blast
qed

text \<open>
  A started read gets a positive limit of its own that ends at least the margin before the
  budget; and when the call's context has ended by itself, the item counts as done only if
  the limit was the full one and the request is still running, so a read the budget
  shortened is never taken for the provider's own timeout.
\<close>

theorem read_call_deadline:
  assumes "runOne Read limit margin ob = (Started d b, ok)" "0 < margin" "0 < limit"
  shows "0 < d \<and> d \<le> limit \<and> (\<forall>r. ob_remaining ob = Some r \<longrightarrow> d \<le> r - margin) \<and>
     (ok \<and> ob_call_ended ob \<longrightarrow> d = limit \<and> \<not> ob_ended_after ob)"
  using runOne_read [OF assms] by blast

theorem read_call_deadline_witness:
  "runOne Read 25 1 \<lparr>ob_ended_before = False, ob_remaining = Some 10, ob_call_ended = True, ob_ended_after = False\<rparr> =
     (Started 9 True, False) \<and> 0 < (9::int) \<and> (9::int) \<le> 25"
  using read_call_deadline [of 25 1 "\<lparr>ob_ended_before = False, ob_remaining = Some 10, ob_call_ended = True, ob_ended_after = False\<rparr>" 9 True False]
  by (simp add: runOne_def)

end
