(* ===== verification/Booking.thy ===== *)
theory Booking
  imports BookingWindow FocusStore Peritem
begin

section \<open>Booking: collective availability and the booking flow\<close>

text \<open>
  \<^verbatim>\<open>backend/engine/booking.go\<close>. \<^verbatim>\<open>CollectiveSlots\<close> lists the grid slots at which every accepted host
  is free; \<^verbatim>\<open>ConfirmBooking\<close> saves a booking; \<^verbatim>\<open>completeBooking\<close> creates the hosts' events. What a
  host's calendar answers is a parameter (the provider is outside the repository): \<open>Inl\<close> is an
  unreadable calendar (not connected, provider error, its own timeout). The storage reads are
  the fields of \<open>BookingReads\<close>, as in the source; \<open>storage_reads\<close> is their zero value, the
  storage package. \<open>wascut\<close> tells whether the request's budget cut a run of the pool (\<open>Peritem\<close>).
\<close>

record BookingReads =
  rd_hosts :: "uuid \<Rightarrow> string + LinkHost list"
  rd_focus :: "uuid \<Rightarrow> gotime \<Rightarrow> string + FocusRow list"
  rd_bookings :: "uuid \<Rightarrow> gotime \<Rightarrow> gotime \<Rightarrow> string + gotime list"

type_synonym calendars = "uuid \<Rightarrow> gotime \<Rightarrow> gotime \<Rightarrow> string + event list"

definition storage_reads :: "link_db \<Rightarrow> FocusRow list \<Rightarrow> BookingReads" where
  "storage_reads db rows = \<lparr>
     rd_hosts = (\<lambda>l. Inr (GetAcceptedHosts db l)),
     rd_focus = (\<lambda>u w. Inr (ListFocusBlocksForUserWeek rows u w)),
     rd_bookings = (\<lambda>u a b. Inr (GetBusyBookingsForUser db u a b))\<rparr>"

subsection \<open>Slugs\<close>

definition slug_char :: "char \<Rightarrow> string" where
  "slug_char c =
     (if (97 \<le> char_code c \<and> char_code c \<le> 122) \<or> is_digit c then [c]
      else if c = CHR ''-'' \<or> c = CHR ''_'' \<or> c = CHR '' '' then ''-'' else [])"

definition slugify :: "string \<Rightarrow> string" where
  "slugify s = trim_char CHR ''-'' (concat (map slug_char s))"

definition show_int :: "int \<Rightarrow> string" where
  "show_int v = (if v < 0 then CHR ''-'' # show_nat (nat (- v)) else show_nat (nat v))"

text \<open>
  \<^verbatim>\<open>GenerateSlug\<close>: up to ten candidates, each but the first with a random suffix (\<open>rnd\<close>, the
  hex text of two random bytes). A blank owner name has no first field: the index panics.
\<close>

datatype slug_outcome = Slug string | SlugError | SlugPanic

fun try_slugs :: "link_db \<Rightarrow> string \<Rightarrow> (nat \<Rightarrow> string) \<Rightarrow> nat \<Rightarrow> nat \<Rightarrow> string \<Rightarrow> slug_outcome" where
  "try_slugs db base rnd i 0 candidate = SlugError"
| "try_slugs db base rnd i (Suc n) candidate =
     (if \<not> SlugExists db candidate then Slug candidate
      else try_slugs db base rnd (Suc i) n (base @ ''-'' @ rnd i))"

definition GenerateSlug :: "link_db \<Rightarrow> (nat \<Rightarrow> string) \<Rightarrow> string \<Rightarrow> int \<Rightarrow> slug_outcome" where
  "GenerateSlug db rnd ownerName durationMinutes = (case Fields ownerName of
      [] \<Rightarrow> SlugPanic
    | f # _ \<Rightarrow>
        let base = slugify (ToLower f) @ ''-'' @ show_int durationMinutes @ ''min''
        in try_slugs db base rnd 0 10 base)"

subsection \<open>Busy time of one host\<close>

definition calendar_busy :: "event list \<Rightarrow> interval list" where
  "calendar_busy events = List.map_filter (\<lambda>ev.
      if ev_transparency ev = ''transparent'' then None
      else let (s, e) = parseEventTime ev
           in if \<not> IsZero s \<and> \<not> IsZero e then Some (ivl s e) else None) events"

definition with_buffers :: "SchedulingLink \<Rightarrow> interval list \<Rightarrow> interval list" where
  "with_buffers link busy =
     (if ln_buffer_before link > 0 \<or> ln_buffer_after link > 0
      then busy @ map (\<lambda>b. ivl (Add (istart b) (- (ln_buffer_before link * minute_ns)))
                              (Add (iend b) (ln_buffer_after link * minute_ns))) busy
      else busy)"

fun pair_up :: "gotime list \<Rightarrow> interval list" where
  "pair_up (a # b # ts) = ivl a b # pair_up ts"
| "pair_up ts = []"

definition hostBusy ::
  "BookingReads \<Rightarrow> calendars \<Rightarrow> SchedulingLink \<Rightarrow> gotime \<Rightarrow> gotime \<Rightarrow> uuid \<Rightarrow> interval list result" where
  "hostBusy reads cal link st en u = (case cal u st en of
      Inl e \<Rightarrow> Inl (OtherError e)
    | Inr events \<Rightarrow>
        let busy = with_buffers link (calendar_busy events)
        in (case rd_focus reads u st of
              Inl e \<Rightarrow> Inl (StorageReadError (''focus blocks: '' @ e))
            | Inr blocks \<Rightarrow>
                let busy = busy @ map (\<lambda>fb. ivl (fb_start fb) (fb_end fb)) blocks
                in (case rd_bookings reads u st en of
                      Inl e \<Rightarrow> Inl (StorageReadError (''host bookings: '' @ e))
                    | Inr tms \<Rightarrow> Inr (busy @ pair_up tms))))"

text \<open>
  One host's item: a storage failure is kept apart, an unreadable calendar is busy for the
  whole window.
\<close>

definition host_item ::
  "BookingReads \<Rightarrow> calendars \<Rightarrow> SchedulingLink \<Rightarrow> gotime \<Rightarrow> gotime \<Rightarrow> LinkHost \<Rightarrow> gerr option \<times> interval list" where
  "host_item reads cal link ws we h = (case hostBusy reads cal link ws we (lh_user h) of
      Inl (StorageReadError e) \<Rightarrow> (Some (StorageReadError e), [])
    | Inl _ \<Rightarrow> (None, [ivl ws we])
    | Inr busy \<Rightarrow> (None, busy))"

definition first_error :: "(gerr option \<times> 'a) list \<Rightarrow> gerr option" where
  "first_error rs = (case List.map_filter fst rs of [] \<Rightarrow> None | e # _ \<Rightarrow> Some e)"

definition slot_ivl :: "slot \<Rightarrow> interval" where
  "slot_ivl s = ivl (sl_start s) (sl_end s)"

definition CollectiveSlots ::
  "bool \<Rightarrow> BookingReads \<Rightarrow> calendars \<Rightarrow> SchedulingLink \<Rightarrow> gotime \<Rightarrow> int \<Rightarrow> slot list result" where
  "CollectiveSlots wascut reads cal link date durationMinutes = (case rd_hosts reads (ln_id link) of
      Inl e \<Rightarrow> Inl (OtherError e)
    | Inr hosts \<Rightarrow>
        if hosts = [] then Inr []
        else case LinkWindow link date of (ws, we, ok) \<Rightarrow>
          if \<not> ok then Inr []
          else (case run_items wascut (length hosts) (\<lambda>i. host_item reads cal link ws we (hosts ! i)) of
              Inl e \<Rightarrow> Inl e
            | Inr items \<Rightarrow> (case first_error items of
                  Some e \<Rightarrow> Inl e
                | None \<Rightarrow>
                    let merged = mergeIntervals (concat (map snd items))
                    in Inr (filter (\<lambda>c. \<not> overlapsMerged (slot_ivl c) merged) (GridSlots link date durationMinutes)))))"

subsection \<open>Saving a booking\<close>

text \<open>
  What happens around the insert: acquiring its connection, claiming the answer from the
  budget (\<open>Budget\<close>), and the insert itself.
\<close>

datatype conn_outcome = ConnOk | ConnCut | ConnError string

record insert_env =
  ie_conn :: conn_outcome
  ie_commit :: bool
  ie_insert_error :: "string option"
  ie_id :: uuid
  ie_now :: int

definition ConfirmBooking ::
  "bool \<Rightarrow> (string + LinkHost list) \<Rightarrow> calendars \<Rightarrow> insert_env \<Rightarrow> SchedulingLink \<Rightarrow> string \<Rightarrow> string
    \<Rightarrow> gotime \<Rightarrow> gotime \<Rightarrow> string \<Rightarrow> link_db \<Rightarrow> link_db \<times> Booking result" where
  "ConfirmBooking wascut hosts cal ie link bname email st en notes db = (case hosts of
      Inl e \<Rightarrow> (db, Inl (OtherError (''get hosts: '' @ e)))
    | Inr hosts \<Rightarrow>
        (case run_items wascut (length hosts) (\<lambda>i. case cal (lh_user (hosts ! i)) st en of Inl _ \<Rightarrow> True | Inr _ \<Rightarrow> False) of
           Inl e \<Rightarrow> (db, Inl e)
         | Inr unreadable \<Rightarrow>
             if list_ex (\<lambda>x. x) unreadable then (db, Inl ErrHostCalendarUnreadable)
             else (case ie_conn ie of
                 ConnCut \<Rightarrow> (db, Inl ErrExpired)
               | ConnError e \<Rightarrow> (db, Inl (OtherError (''booking connection: '' @ e)))
               | ConnOk \<Rightarrow>
                   if \<not> ie_commit ie then (db, Inl ErrExpired)
                   else (case ie_insert_error ie of
                       Some e \<Rightarrow> (db, Inl (OtherError (''create booking: '' @ e)))
                     | None \<Rightarrow>
                         let (db', row) = CreateBooking (ie_id ie) (ie_now ie)
                               \<lparr>bk_id = 0, bk_link = ln_id link, bk_name = bname, bk_email = email,
                                bk_start = st, bk_end = en, bk_status = '''', bk_notes = notes, bk_created_at = 0\<rparr> db
                         in (db', Inr row)))))"

subsection \<open>The completion unit\<close>

text \<open>
  After the insert: for each host whose user record is readable, an event with the hosts
  listed so far and the booker. \<open>users\<close> is the user read, \<open>create\<close> what the host's calendar
  answers to the creation (\<open>None\<close>: not connected), \<open>runs\<close> which items the pool ran.
\<close>

record host_event =
  he_user :: uuid
  he_attendees :: "attendee list"

fun host_events :: "(uuid \<Rightarrow> (string \<times> string) option) \<Rightarrow> string \<Rightarrow> string list \<Rightarrow> LinkHost list \<Rightarrow> host_event list" where
  "host_events users booker emails [] = []"
| "host_events users booker emails (h # hs) = (case users (lh_user h) of
      None \<Rightarrow> host_events users booker emails hs
    | Some (email, _) \<Rightarrow>
        \<lparr>he_user = lh_user h, he_attendees = map email_attendee (emails @ [email]) @ [email_attendee booker]\<rparr>
        # host_events users booker (emails @ [email]) hs)"

definition booking_event :: "SchedulingLink \<Rightarrow> Booking \<Rightarrow> host_event \<Rightarrow> event" where
  "booking_event link b he = empty_event\<lparr>ev_summary := ln_title link, ev_description := bk_notes b,
     ev_start := at_time (bk_start b), ev_end := at_time (bk_end b), ev_attendees := he_attendees he\<rparr>"

datatype create_answer = NotConnected | CreateFailed | CreatedAs string

record completion =
  cp_hosts :: "uuid list"
  cp_done :: "uuid list"
  cp_email_sent :: bool

text \<open>
  One item. The answer of a creation is always recorded, even when its row cannot be saved
  (\<open>save_ok\<close>).
\<close>

definition complete_item ::
  "(uuid \<Rightarrow> event \<Rightarrow> create_answer) \<Rightarrow> (uuid \<Rightarrow> bool) \<Rightarrow> SchedulingLink \<Rightarrow> Booking
    \<Rightarrow> link_db \<times> completion \<Rightarrow> host_event \<Rightarrow> link_db \<times> completion" where
  "complete_item create save_ok link b st he =
     (let (db, p) = st; mark = p\<lparr>cp_done := List.insert (he_user he) (cp_done p)\<rparr>
      in case create (he_user he) (booking_event link b he) of
           NotConnected \<Rightarrow> (db, mark)
         | CreateFailed \<Rightarrow> (db, p)
         | CreatedAs ident \<Rightarrow>
             ((if save_ok (he_user he) then SaveBookingEvent (bk_id b) (he_user he) ident db else db), mark))"

definition completeBooking ::
  "(uuid \<Rightarrow> (string \<times> string) option) \<Rightarrow> (uuid \<Rightarrow> event \<Rightarrow> create_answer) \<Rightarrow> (uuid \<Rightarrow> bool) \<Rightarrow> (nat \<Rightarrow> bool) \<Rightarrow> bool
    \<Rightarrow> SchedulingLink \<Rightarrow> Booking \<Rightarrow> LinkHost list \<Rightarrow> link_db \<Rightarrow> link_db \<times> completion" where
  "completeBooking users create save_ok runs mail_ok link b hosts db =
     (let evs = host_events users (bk_email b) [] hosts;
          p = \<lparr>cp_hosts = map lh_user hosts, cp_done = [], cp_email_sent = False\<rparr>;
          started = map snd (filter (\<lambda>(i, he). runs i) (enumerate 0 evs));
          (db, p) = foldl (complete_item create save_ok link b) (db, p) started
      in (db, p\<lparr>cp_email_sent := mail_ok\<rparr>))"

text \<open>\<^verbatim>\<open>summary\<close>: whether every host is done, as the log line decides it.\<close>

definition summary_all :: "completion \<Rightarrow> bool" where
  "summary_all p \<longleftrightarrow> length (cp_done p) = length (cp_hosts p)"

subsection \<open>Collective slots\<close>

lemma first_error_None: "first_error rs = None \<longleftrightarrow> (\<forall>r \<in> set rs. fst r = None)"
proof -
  have "List.map_filter fst rs = [] \<longleftrightarrow> (\<forall>r \<in> set rs. fst r = None)"
    by (auto simp: List.map_filter_def filter_empty_conv)
  then show ?thesis unfolding first_error_def by (auto split: list.splits)
qed

lemma first_error_Some: "first_error rs = Some e \<Longrightarrow> Some e \<in> fst ` set rs"
proof -
  assume "first_error rs = Some e"
  then have "e \<in> set (List.map_filter fst rs)" by (auto simp: first_error_def split: list.splits)
  then show ?thesis by (force simp: List.map_filter_def)
qed

text \<open>A host is free for a slot: its calendar and storage could be read and show no overlap.\<close>

definition host_free :: "BookingReads \<Rightarrow> calendars \<Rightarrow> SchedulingLink \<Rightarrow> gotime \<Rightarrow> gotime \<Rightarrow> slot \<Rightarrow> LinkHost \<Rightarrow> bool" where
  "host_free reads cal link ws we c h \<longleftrightarrow> (case hostBusy reads cal link ws we (lh_user h) of
      Inl _ \<Rightarrow> False | Inr busy \<Rightarrow> \<not> overlapsMerged (slot_ivl c) busy)"

text \<open>The busy intervals a host reports are not reversed.\<close>

definition busy_valid :: "BookingReads \<Rightarrow> calendars \<Rightarrow> SchedulingLink \<Rightarrow> gotime \<Rightarrow> gotime \<Rightarrow> LinkHost \<Rightarrow> bool" where
  "busy_valid reads cal link ws we h \<longleftrightarrow> (case hostBusy reads cal link ws we (lh_user h) of
      Inl _ \<Rightarrow> True | Inr busy \<Rightarrow> list_all valid_ivl busy)"

lemma overlapsMerged_concat: "overlapsMerged iv (concat bss) \<longleftrightarrow> (\<exists>bs \<in> set bss. overlapsMerged iv bs)"
  by (auto simp: overlapsMerged_def list_ex_iff)

lemma GridSlots_window:
  assumes "LinkWindow link day = (ws, we, ok)" "c \<in> set (GridSlots link day dur)"
  shows "ok" "ns ws \<le> ns (sl_start c)" "ns (sl_end c) \<le> ns we" "ns (sl_start c) < ns (sl_end c)"
  using assms by (auto simp: GridSlots_iff)

lemma host_item_free:
  assumes "fst (host_item reads cal link ws we h) = None"
    and "lo (slot_ivl c) < hi (slot_ivl c)" "ns ws \<le> lo (slot_ivl c)" "hi (slot_ivl c) \<le> ns we"
  shows "overlapsMerged (slot_ivl c) (snd (host_item reads cal link ws we h)) \<longleftrightarrow> \<not> host_free reads cal link ws we c h"
proof (cases "hostBusy reads cal link ws we (lh_user h)")
  case (Inl e)
  then have "snd (host_item reads cal link ws we h) = [ivl ws we]"
    using assms(1) by (cases e) (simp_all add: host_item_def)
  then show ?thesis using Inl assms(2-4) by (simp add: host_free_def overlapsMerged_iff)
qed (simp add: host_item_def host_free_def)

lemma host_item_valid:
  assumes "busy_valid reads cal link ws we h" "ns ws \<le> ns we"
  shows "list_all valid_ivl (snd (host_item reads cal link ws we h))"
proof (cases "hostBusy reads cal link ws we (lh_user h)")
  case (Inl e)
  then show ?thesis using assms(2) by (cases e) (simp_all add: host_item_def valid_ivl_def)
next
  case (Inr b)
  then show ?thesis using assms(1) by (simp add: host_item_def busy_valid_def)
qed

lemma host_item_error:
  "fst (host_item reads cal link ws we h) = Some e \<Longrightarrow> \<exists>m. e = StorageReadError m \<and> hostBusy reads cal link ws we (lh_user h) = Inl e"
  by (auto simp: host_item_def split: sum.splits gerr.splits)

text \<open>
  The listing, slot by slot: on success with at least one host and an open window, a slot is
  listed exactly when it is a slot of the grid for which every accepted host is free.
\<close>

lemma CollectiveSlots_spec:
  assumes res: "CollectiveSlots wascut reads cal link day dur = Inr slots"
    and hosts: "rd_hosts reads (ln_id link) = Inr hosts" "hosts \<noteq> []"
    and win: "LinkWindow link day = (ws, we, ok)"
    and valid: "list_all (busy_valid reads cal link ws we) hosts"
  shows "slots = filter (\<lambda>c. list_all (host_free reads cal link ws we c) hosts) (GridSlots link day dur)"
proof (cases ok)
  case False
  then have "slots = []" using res hosts win by (simp add: CollectiveSlots_def)
  moreover have "GridSlots link day dur = []" using False win by (simp add: GridSlots_def)
  ultimately show ?thesis by simp
next
  case True
  let ?item = "host_item reads cal link ws we"
  obtain items where items: "run_items wascut (length hosts) (\<lambda>i. ?item (hosts ! i)) = Inr items"
    and ne: "first_error items = None"
    and slots: "slots = filter (\<lambda>c. \<not> overlapsMerged (slot_ivl c) (mergeIntervals (concat (map snd items)))) (GridSlots link day dur)"
    using res hosts win True by (auto simp: CollectiveSlots_def Let_def split: sum.splits option.splits)
  have map: "items = map ?item hosts" using pool.run_over_list [OF items] .
  have noerr: "fst (?item h) = None" if "h \<in> set hosts" for h using ne that by (auto simp: first_error_None map)
  have wswe: "ns ws \<le> ns we" using win True
    by (auto simp: LinkWindow_def Let_def time_cmp_defs split: option.splits)
  have v: "list_all valid_ivl (concat (map snd items))"
    using valid host_item_valid [OF _ wswe, of reads cal link] by (fastforce simp: map list_all_iff)
  have "(\<not> overlapsMerged (slot_ivl c) (mergeIntervals (concat (map snd items)))) = list_all (host_free reads cal link ws we c) hosts"
    if "c \<in> set (GridSlots link day dur)" for c
  proof -
    note w = GridSlots_window [OF win that]
    have "overlapsMerged (slot_ivl c) (mergeIntervals (concat (map snd items))) \<longleftrightarrow> overlapsMerged (slot_ivl c) (concat (map snd items))"
      using mergeIntervals_overlaps [OF v] w(4) by (simp add: slot_ivl_def)
    also have "\<dots> \<longleftrightarrow> (\<exists>h \<in> set hosts. overlapsMerged (slot_ivl c) (snd (?item h)))"
      by (simp add: overlapsMerged_concat map)
    also have "\<dots> \<longleftrightarrow> (\<exists>h \<in> set hosts. \<not> host_free reads cal link ws we c h)"
      using host_item_free [OF noerr, of _ c] w by (auto simp: slot_ivl_def)
    finally show ?thesis by (auto simp: list_all_iff)
  qed
  then show ?thesis unfolding slots by (intro filter_cong) auto
qed

text \<open>
  Whatever the hosts' calendars hold, also reversed events: every listed slot is a grid slot
  at which every accepted host could be read and is free.
\<close>

lemma CollectiveSlots_sound:
  assumes res: "CollectiveSlots wascut reads cal link day dur = Inr slots" and s: "s \<in> set slots"
    and win: "LinkWindow link day = (ws, we, ok)"
  obtains hosts where "rd_hosts reads (ln_id link) = Inr hosts" "hosts \<noteq> []" "s \<in> set (GridSlots link day dur)"
    "list_all (host_free reads cal link ws we s) hosts" "\<not> wascut"
proof -
  let ?item = "host_item reads cal link ws we"
  obtain hosts where hosts: "rd_hosts reads (ln_id link) = Inr hosts" "hosts \<noteq> []" and ok: ok
    using res s win by (auto simp: CollectiveSlots_def split: sum.splits if_splits)
  obtain items where items: "run_items wascut (length hosts) (\<lambda>i. ?item (hosts ! i)) = Inr items"
    and ne: "first_error items = None"
    and slots: "slots = filter (\<lambda>c. \<not> overlapsMerged (slot_ivl c) (mergeIntervals (concat (map snd items)))) (GridSlots link day dur)"
    using res hosts win ok by (auto simp: CollectiveSlots_def Let_def split: sum.splits option.splits)
  have map: "items = map ?item hosts" using pool.run_over_list [OF items] .
  have grid: "s \<in> set (GridSlots link day dur)" using s slots by simp
  note w = GridSlots_window [OF win grid]
  have "\<not> overlapsMerged (slot_ivl s) (concat (map snd items))"
    using s slots mergeIntervals_overlaps_sound by auto
  then have "\<not> overlapsMerged (slot_ivl s) (snd (?item h))" if "h \<in> set hosts" for h
    using that by (auto simp: overlapsMerged_concat map)
  moreover have "fst (?item h) = None" if "h \<in> set hosts" for h using ne that by (auto simp: first_error_None map)
  ultimately have "list_all (host_free reads cal link ws we s) hosts"
    using host_item_free [of reads cal link ws we _ s] w by (auto simp: list_all_iff slot_ivl_def)
  moreover have "\<not> wascut" using items by (auto simp: run_items_def split: if_splits)
  ultimately show ?thesis using that hosts grid by blast
qed

lemma CollectiveSlots_error:
  assumes "CollectiveSlots wascut reads cal link day dur = Inl e"
  shows "e = ErrExpired \<and> wascut \<or> (\<exists>m. e = StorageReadError m) \<or> (\<exists>m. rd_hosts reads (ln_id link) = Inl m \<and> e = OtherError m)"
proof (cases "rd_hosts reads (ln_id link)")
  case (Inr hosts)
  obtain ws we ok where win: "LinkWindow link day = (ws, we, ok)" by (cases "LinkWindow link day")
  show ?thesis
  proof (cases "run_items wascut (length hosts) (\<lambda>i. host_item reads cal link ws we (hosts ! i))")
    case (Inl e')
    then show ?thesis using assms Inr win pool.run_error [OF Inl]
      by (auto simp: CollectiveSlots_def split: if_splits)
  next
    case items: (Inr items)
    then have "first_error items = Some e" using assms Inr win
      by (auto simp: CollectiveSlots_def Let_def split: if_splits option.splits)
    then obtain h where "fst (host_item reads cal link ws we h) = Some e"
      using first_error_Some [of items e] pool.run_over_list [OF items] by auto
    then show ?thesis using host_item_error by blast
  qed
qed (use assms in \<open>auto simp: CollectiveSlots_def\<close>)

text \<open>With no slot reported on a day the listing does not cover, there is no host at all or no window.\<close>

lemma CollectiveSlots_no_host:
  "rd_hosts reads (ln_id link) = Inr [] \<Longrightarrow> CollectiveSlots wascut reads cal link day dur = Inr []"
  by (simp add: CollectiveSlots_def)

lemma CollectiveSlots_grid:
  "CollectiveSlots wascut reads cal link day dur = Inr slots \<Longrightarrow> set slots \<subseteq> set (GridSlots link day dur)"
  by (auto simp: CollectiveSlots_def Let_def split: sum.splits if_splits prod.splits option.splits)

subsection \<open>Bookings of the host as busy time\<close>

lemma pair_up_concat: "pair_up (concat (map (\<lambda>b. [f b, g b]) bs)) = map (\<lambda>b. ivl (f b) (g b)) bs"
  by (induction bs) auto

lemma hostBusy_bookings:
  assumes "hostBusy (storage_reads db rows) cal link st en u = Inr busy"
    and "b \<in> set (busy_rows db u st en)"
  shows "ivl (bk_start b) (bk_end b) \<in> set busy"
  using assms by (auto simp: hostBusy_def storage_reads_def Let_def GetBusyBookingsForUser_def pair_up_concat split: sum.splits)

subsection \<open>Confirming\<close>

lemma ConfirmBooking_cases:
  assumes "ConfirmBooking wascut hosts cal ie link n e st en notes db = (db', res)"
  obtains (failed) err where "res = Inl err" "db' = db"
  | (saved) row hs where "res = Inr row" "hosts = Inr hs" "\<not> wascut" "ie_commit ie"
      "\<And>h. h \<in> set hs \<Longrightarrow> \<exists>evs. cal (lh_user h) st en = Inr evs"
      "row = \<lparr>bk_id = ie_id ie, bk_link = ln_id link, bk_name = n, bk_email = e, bk_start = st, bk_end = en,
              bk_status = ''confirmed'', bk_notes = notes, bk_created_at = ie_now ie\<rparr>"
      "db' = db\<lparr>t_bookings := t_bookings db @ [row]\<rparr>"
proof (cases res)
  case (Inl err)
  then have "db' = db" using assms
    by (auto simp: ConfirmBooking_def CreateBooking_def Let_def split: sum.splits if_splits conn_outcome.splits option.splits)
  then show ?thesis using failed Inl by blast
next
  case (Inr row)
  let ?f = "\<lambda>h. case cal (lh_user h) st en of Inl _ \<Rightarrow> True | Inr _ \<Rightarrow> False"
  obtain hs un where hs: "hosts = Inr hs" and un: "run_items wascut (length hs) (\<lambda>i. ?f (hs ! i)) = Inr un"
    and ok: "\<not> list_ex (\<lambda>x. x) un" "ie_commit ie"
    and row: "row = \<lparr>bk_id = ie_id ie, bk_link = ln_id link, bk_name = n, bk_email = e, bk_start = st, bk_end = en,
              bk_status = ''confirmed'', bk_notes = notes, bk_created_at = ie_now ie\<rparr>"
    and db': "db' = db\<lparr>t_bookings := t_bookings db @ [row]\<rparr>"
    using assms Inr
    by (auto simp: ConfirmBooking_def CreateBooking_def Let_def split: sum.splits if_splits conn_outcome.splits option.splits)
  have "\<not> wascut" using un by (auto simp: run_items_def split: if_splits)
  moreover have "\<exists>evs. cal (lh_user h) st en = Inr evs" if "h \<in> set hs" for h
  proof -
    have "un = map ?f hs" using pool.run_over_list [OF un] .
    then have "\<not> ?f h" using ok(1) that by (auto simp: list_ex_iff)
    then show ?thesis by (cases "cal (lh_user h) st en") auto
  qed
  ultimately show ?thesis using saved [OF Inr hs _ ok(2) _ row db'] by blast
qed

end
