(* ===== verification/RateLimit.thy ===== *)
theory RateLimit
  imports GoTime
begin

section \<open>RateLimit: fixed-window limits per client\<close>

text \<open>
  \<^verbatim>\<open>backend/api/ratelimit_booking.go\<close> (the two public booking routes) and
  \<^verbatim>\<open>backend/api/ratelimit_detect.go\<close> (sign-in detection). A client's window starts at its first
  counted request; requests beyond the limit are refused until the window has ended. Each
  call runs under one mutex, so a sequence of calls is a sequence of steps. Instants are
  nanoseconds; the zero \<^verbatim>\<open>lastSweep\<close> is the zero time.
\<close>

record ipBucket =
  bu_count :: int
  bu_end :: int

record limiter =
  lm_limit :: int
  lm_window :: int
  lm_buckets :: "string \<rightharpoonup> ipBucket"
  lm_sweep :: int

definition newFixedWindowLimiter :: "int \<Rightarrow> int \<Rightarrow> limiter" where
  "newFixedWindowLimiter limit window =
     \<lparr>lm_limit = limit, lm_window = window, lm_buckets = Map.empty, lm_sweep = ns zero_time\<rparr>"

definition drop_expired :: "int \<Rightarrow> (string \<rightharpoonup> ipBucket) \<Rightarrow> (string \<rightharpoonup> ipBucket)" where
  "drop_expired now bs = (\<lambda>k. case bs k of None \<Rightarrow> None | Some b \<Rightarrow> if bu_end b < now then None else Some b)"

definition sweep :: "int \<Rightarrow> limiter \<Rightarrow> limiter" where
  "sweep now l = (if now - lm_sweep l \<ge> lm_window l
      then l\<lparr>lm_buckets := drop_expired now (lm_buckets l), lm_sweep := now\<rparr> else l)"

text \<open>The decision for one client's bucket: the new bucket, whether allowed, and the wait.\<close>

definition count_request :: "int \<Rightarrow> int \<Rightarrow> int \<Rightarrow> ipBucket option \<Rightarrow> ipBucket \<times> bool \<times> int" where
  "count_request limit window now b = (case b of
      None \<Rightarrow> (\<lparr>bu_count = 1, bu_end = now + window\<rparr>, True, 0)
    | Some b \<Rightarrow>
        if bu_end b < now then (\<lparr>bu_count = 1, bu_end = now + window\<rparr>, True, 0)
        else if bu_count b \<ge> limit then (b, False, bu_end b - now)
        else (b\<lparr>bu_count := bu_count b + 1\<rparr>, True, 0))"

definition take_req :: "int \<Rightarrow> string \<Rightarrow> limiter \<Rightarrow> limiter \<times> bool \<times> int" where
  "take_req now key l =
     (let l1 = sweep now l;
          (b, ok, wait) = count_request (lm_limit l1) (lm_window l1) now (lm_buckets l1 key)
      in (l1\<lparr>lm_buckets := (lm_buckets l1)(key \<mapsto> b)\<rparr>, ok, wait))"

definition reset_limiter :: "limiter \<Rightarrow> limiter" where
  "reset_limiter l = l\<lparr>lm_buckets := Map.empty, lm_sweep := ns zero_time\<rparr>"

definition setLimit :: "int \<Rightarrow> limiter \<Rightarrow> limiter" where
  "setLimit n l = (if n \<le> 0 then l else l\<lparr>lm_limit := n\<rparr>)"

definition retryAfterSeconds :: "int \<Rightarrow> int \<Rightarrow> int" where
  "retryAfterSeconds wait window =
     (let s = go_quot (wait + sec_ns - 1) sec_ns;
          s = (if s > go_quot window sec_ns then go_quot window sec_ns else s)
      in if s < 1 then 1 else s)"

definition bookingCreateLimiter :: limiter where
  "bookingCreateLimiter = newFixedWindowLimiter 20 (10 * minute_ns)"

definition bookingSlotsLimiter :: limiter where
  "bookingSlotsLimiter = newFixedWindowLimiter 120 minute_ns"

text \<open>\<^verbatim>\<open>SetPublicBookingLimits\<close> replaces the counts of the two booking limiters.\<close>

definition SetPublicBookingLimits :: "int \<Rightarrow> int \<Rightarrow> limiter \<times> limiter \<Rightarrow> limiter \<times> limiter" where
  "SetPublicBookingLimits create slots ls = (setLimit create (fst ls), setLimit slots (snd ls))"

text \<open>\<^verbatim>\<open>allowDetect\<close> keeps its own map and writes the same steps out with 20 per minute.\<close>

definition detectRateLimit :: int where "detectRateLimit = 20"

definition allowDetect :: "int \<Rightarrow> string \<Rightarrow> (string \<rightharpoonup> ipBucket) \<times> int \<Rightarrow> ((string \<rightharpoonup> ipBucket) \<times> int) \<times> bool" where
  "allowDetect now ip st =
     (let (bs, lastSweep) = st;
          (bs, lastSweep) = (if now - lastSweep \<ge> minute_ns then (drop_expired now bs, now) else (bs, lastSweep))
      in case bs ip of
           None \<Rightarrow> ((bs(ip \<mapsto> \<lparr>bu_count = 1, bu_end = now + minute_ns\<rparr>), lastSweep), True)
         | Some b \<Rightarrow>
             if bu_end b < now then ((bs(ip \<mapsto> \<lparr>bu_count = 1, bu_end = now + minute_ns\<rparr>), lastSweep), True)
             else if bu_count b \<ge> detectRateLimit then ((bs, lastSweep), False)
             else ((bs(ip \<mapsto> b\<lparr>bu_count := bu_count b + 1\<rparr>), lastSweep), True))"

text \<open>A sequence of requests, each an instant and a client, against any limiter.\<close>

fun run_limiter :: "(int \<Rightarrow> string \<Rightarrow> 's \<Rightarrow> 's \<times> bool) \<Rightarrow> (int \<times> string) list \<Rightarrow> 's \<Rightarrow> 's \<times> bool list" where
  "run_limiter take1 [] s = (s, [])"
| "run_limiter take1 ((now, k) # rs) s =
     (let (s1, a) = take1 now k s; (s2, as) = run_limiter take1 rs s1 in (s2, a # as))"

definition take_ok :: "int \<Rightarrow> string \<Rightarrow> limiter \<Rightarrow> limiter \<times> bool" where
  "take_ok now key l = (let (l', ok, wait) = take_req now key l in (l', ok))"

subsection \<open>A limiter that never sweeps\<close>

definition take_ref :: "int \<Rightarrow> int \<Rightarrow> int \<Rightarrow> string \<Rightarrow> (string \<rightharpoonup> ipBucket) \<Rightarrow> (string \<rightharpoonup> ipBucket) \<times> bool \<times> int" where
  "take_ref limit window now key bs =
     (let (b, ok, wait) = count_request limit window now (bs key) in (bs(key \<mapsto> b), ok, wait))"

fun run_ref :: "int \<Rightarrow> int \<Rightarrow> (int \<times> string) list \<Rightarrow> (string \<rightharpoonup> ipBucket) \<Rightarrow> bool list" where
  "run_ref limit window [] bs = []"
| "run_ref limit window ((now, k) # rs) bs =
     (let (bs1, ok, wait) = take_ref limit window now k bs in ok # run_ref limit window rs bs1)"

text \<open>The two agree on every bucket whose window has not ended.\<close>

definition same_live :: "int \<Rightarrow> (string \<rightharpoonup> ipBucket) \<Rightarrow> (string \<rightharpoonup> ipBucket) \<Rightarrow> bool" where
  "same_live now bs cs \<longleftrightarrow> (\<forall>k. bs k = cs k \<or> (case bs k of None \<Rightarrow> True | Some b \<Rightarrow> bu_end b < now) \<and>
     (case cs k of None \<Rightarrow> True | Some b \<Rightarrow> bu_end b < now))"

lemma same_live_mono: "same_live now bs cs \<Longrightarrow> now \<le> now' \<Longrightarrow> same_live now' bs cs"
  unfolding same_live_def by (smt (verit) option.case_eq_if)

lemma same_live_sweep: "same_live now bs cs \<Longrightarrow> same_live now (drop_expired now bs) cs"
  unfolding same_live_def drop_expired_def
  by (smt (verit) option.case_eq_if option.collapse option.distinct(1) option.sel)

lemma count_request_live:
  assumes "bs k = cs k \<or> (case bs k of None \<Rightarrow> True | Some b \<Rightarrow> bu_end b < now) \<and> (case cs k of None \<Rightarrow> True | Some b \<Rightarrow> bu_end b < now)"
  shows "count_request limit window now (bs k) = count_request limit window now (cs k)"
  using assms by (auto simp: count_request_def split: option.splits)

lemma take_req_simulates:
  assumes "same_live now (lm_buckets l) cs" "take_req now k l = (l', a)"
    "take_ref (lm_limit l) (lm_window l) now k cs = (cs', a')"
  shows "a = a'" "same_live now (lm_buckets l') cs'" "lm_limit l' = lm_limit l" "lm_window l' = lm_window l"
proof -
  define l1 where "l1 = sweep now l"
  have l1: "lm_limit l1 = lm_limit l" "lm_window l1 = lm_window l" by (simp_all add: l1_def sweep_def)
  have live: "same_live now (lm_buckets l1) cs"
    using assms(1) same_live_sweep by (simp add: l1_def sweep_def)
  then have eq: "count_request (lm_limit l) (lm_window l) now (lm_buckets l1 k) = count_request (lm_limit l) (lm_window l) now (cs k)"
    by (intro count_request_live) (simp add: same_live_def)
  then show "a = a'" "lm_limit l' = lm_limit l" "lm_window l' = lm_window l"
    using assms(2,3) l1 by (auto simp: take_req_def take_ref_def Let_def l1_def [symmetric] split: prod.splits)
  obtain b ok w where c: "count_request (lm_limit l) (lm_window l) now (cs k) = (b, ok, w)"
    by (cases "count_request (lm_limit l) (lm_window l) now (cs k)")
  have "lm_buckets l' = (lm_buckets l1)(k \<mapsto> b)" "cs' = cs(k \<mapsto> b)"
    using assms(2,3) eq c l1 by (auto simp: take_req_def take_ref_def Let_def l1_def [symmetric])
  then show "same_live now (lm_buckets l') cs'" using live by (simp add: same_live_def)
qed

subsection \<open>How many requests a window allows\<close>

definition allowed_of :: "string \<Rightarrow> (int \<times> string) list \<Rightarrow> bool list \<Rightarrow> nat" where
  "allowed_of k rs as = length (filter (\<lambda>(r, a). snd r = k \<and> a) (zip rs as))"

definition requests_of :: "string \<Rightarrow> (int \<times> string) list \<Rightarrow> nat" where
  "requests_of k rs = length (filter (\<lambda>r. snd r = k) rs)"

lemma run_ref_in_window:
  assumes "cs k = Some b" "\<forall>r \<in> set rs. fst r \<le> bu_end b" "0 \<le> bu_count b" "bu_count b \<le> limit"
  shows "allowed_of k rs (run_ref limit window rs cs) = min (nat (limit - bu_count b)) (requests_of k rs)"
  using assms
proof (induction rs arbitrary: cs b)
  case (Cons r rs)
  obtain now k' where r: "r = (now, k')" by (cases r)
  have live: "\<not> bu_end b < now" using Cons.prems r by simp
  consider "k' \<noteq> k" | "k' = k" "limit \<le> bu_count b" | "k' = k" "bu_count b < limit" by linarith
  then show ?case
  proof cases
    case 1
    obtain c ok w where c: "count_request limit window now (cs k') = (c, ok, w)"
      by (cases "count_request limit window now (cs k')")
    have "allowed_of k rs (run_ref limit window rs (cs(k' \<mapsto> c))) = min (nat (limit - bu_count b)) (requests_of k rs)"
      by (rule Cons.IH) (use Cons.prems 1 in auto)
    then show ?thesis using 1 r c by (simp add: take_ref_def allowed_of_def requests_of_def)
  next
    case 2
    have "allowed_of k rs (run_ref limit window rs (cs(k \<mapsto> b))) = min (nat (limit - bu_count b)) (requests_of k rs)"
      by (rule Cons.IH) (use Cons.prems in auto)
    then show ?thesis
      using 2 Cons.prems r live
      by (auto simp: take_ref_def count_request_def allowed_of_def requests_of_def Let_def)
  next
    case 3
    let ?b = "b\<lparr>bu_count := bu_count b + 1\<rparr>"
    have "allowed_of k rs (run_ref limit window rs (cs(k \<mapsto> ?b))) = min (nat (limit - bu_count ?b)) (requests_of k rs)"
      by (rule Cons.IH) (use Cons.prems 3 in auto)
    then show ?thesis
      using Cons.prems(1) r live 3
      by (auto simp: take_ref_def count_request_def allowed_of_def requests_of_def Let_def)
  qed
qed (simp add: allowed_of_def requests_of_def)

text \<open>
  A client with no window open makes requests, all within one window of its first one: of
  these exactly the first \<open>limit\<close> are allowed.
\<close>

lemma run_ref_fresh:
  assumes "case cs k of None \<Rightarrow> True | Some b \<Rightarrow> bu_end b < t0" "1 \<le> limit" "0 \<le> window"
    and "\<forall>r \<in> set rs. t0 \<le> fst r \<and> fst r \<le> t0 + window" "rs \<noteq> []" "hd rs = (t0, k)"
  shows "allowed_of k rs (run_ref limit window rs cs) = min (nat limit) (requests_of k rs)"
proof -
  obtain rs' where rs: "rs = (t0, k) # rs'" using assms(5,6) by (cases rs) auto
  let ?b = "\<lparr>bu_count = 1, bu_end = t0 + window\<rparr>"
  have "count_request limit window t0 (cs k) = (?b, True, 0)"
    using assms(1) by (auto simp: count_request_def split: option.splits)
  then have "run_ref limit window rs cs = True # run_ref limit window rs' (cs(k \<mapsto> ?b))"
    by (simp add: rs take_ref_def)
  moreover have "allowed_of k rs' (run_ref limit window rs' (cs(k \<mapsto> ?b))) = min (nat (limit - 1)) (requests_of k rs')"
    using run_ref_in_window [of "cs(k \<mapsto> ?b)" k ?b rs' limit window] assms(2-4) rs by simp
  ultimately show ?thesis
    using assms(2) by (auto simp: rs allowed_of_def requests_of_def)
qed

lemma retryAfter_bounds:
  assumes "sec_ns \<le> window"
  shows "1 \<le> retryAfterSeconds wait window" "retryAfterSeconds wait window \<le> go_quot window sec_ns"
    "0 < wait \<Longrightarrow> wait \<le> window \<Longrightarrow> window mod sec_ns = 0 \<Longrightarrow> wait \<le> retryAfterSeconds wait window * sec_ns"
proof -
  have w: "1 \<le> go_quot window sec_ns" using assms by (simp add: go_quot_nonneg)
  show "1 \<le> retryAfterSeconds wait window" "retryAfterSeconds wait window \<le> go_quot window sec_ns"
    using w by (auto simp: retryAfterSeconds_def Let_def)
  assume a: "0 < wait" "wait \<le> window" "window mod sec_ns = 0"
  have q: "go_quot (wait + sec_ns - 1) sec_ns = (wait + sec_ns - 1) div sec_ns" "go_quot window sec_ns = window div sec_ns"
    using a by (simp_all add: go_quot_nonneg)
  obtain m where m: "window = m * sec_ns" using a(3) by (metis mod_0_imp_dvd dvd_div_mult_self)
  have "(wait + sec_ns - 1) div sec_ns \<le> (m * sec_ns + (sec_ns - 1)) div sec_ns"
    using a m by (intro zdiv_mono1) auto
  then have "(wait + sec_ns - 1) div sec_ns \<le> window div sec_ns" by (simp add: m)
  moreover have "wait \<le> (wait + sec_ns - 1) div sec_ns * sec_ns"
    using div_mod_decomp_int [of "wait + sec_ns - 1" sec_ns] pos_mod_bound [of sec_ns "wait + sec_ns - 1"]
    by linarith
  moreover have "1 \<le> (wait + sec_ns - 1) div sec_ns" using a(1) zdiv_mono1 [of sec_ns "wait + sec_ns - 1" sec_ns] by simp
  ultimately show "wait \<le> retryAfterSeconds wait window * sec_ns"
    unfolding retryAfterSeconds_def Let_def q by simp
qed

subsection \<open>The contract the two limiters share\<close>

text \<open>
  A limiter whose live buckets follow those of the limiter that never sweeps. Its clients
  rely on one fact: how many requests of a window are allowed.
\<close>

locale window_limiter =
  fixes step :: "int \<Rightarrow> string \<Rightarrow> 's \<Rightarrow> 's \<times> bool"
    and buckets :: "'s \<Rightarrow> (string \<rightharpoonup> ipBucket)"
    and limit window :: int
    and invar :: "'s \<Rightarrow> bool"
  assumes step_answer: "\<lbrakk>invar s; same_live now (buckets s) cs\<rbrakk> \<Longrightarrow>
      snd (step now k s) = fst (snd (take_ref limit window now k cs))"
    and step_live: "\<lbrakk>invar s; same_live now (buckets s) cs\<rbrakk> \<Longrightarrow>
      same_live now (buckets (fst (step now k s))) (fst (take_ref limit window now k cs))"
    and step_invar: "invar s \<Longrightarrow> invar (fst (step now k s))"
begin

lemma run_answers:
  assumes "invar s" "same_live t0 (buckets s) cs" "sorted (map fst rs)" "\<forall>r \<in> set rs. t0 \<le> fst r"
  shows "snd (run_limiter step rs s) = run_ref limit window rs cs"
  using assms
proof (induction rs arbitrary: s cs t0)
  case (Cons r rs)
  obtain now k where r: "r = (now, k)" by (cases r)
  have live: "same_live now (buckets s) cs" using Cons.prems r same_live_mono by fastforce
  have "snd (run_limiter step rs (fst (step now k s))) = run_ref limit window rs (fst (take_ref limit window now k cs))"
    by (rule Cons.IH [where ?t0.0 = now]) (use Cons.prems r live step_live step_invar in auto)
  then show ?case
    using step_answer [OF Cons.prems(1) live, of k] by (simp add: r split_beta Let_def)
qed simp

lemma allows_first:
  assumes "invar s" "case buckets s k of None \<Rightarrow> True | Some b \<Rightarrow> bu_end b < t0" "1 \<le> limit" "0 \<le> window"
    and "sorted (map fst rs)" "\<forall>r \<in> set rs. t0 \<le> fst r \<and> fst r \<le> t0 + window" "rs \<noteq> []" "hd rs = (t0, k)"
  shows "allowed_of k rs (snd (run_limiter step rs s)) = min (nat limit) (requests_of k rs)"
proof -
  have "same_live t0 (buckets s) (buckets s)" by (simp add: same_live_def)
  then have "snd (run_limiter step rs s) = run_ref limit window rs (buckets s)"
    using assms(1,5,6) by (intro run_answers) auto
  then show ?thesis using run_ref_fresh [where cs = "buckets s" and k = k and ?t0.0 = t0] assms by simp
qed

end

interpretation booking_limiter: window_limiter take_ok lm_buckets limit window
    "\<lambda>l. lm_limit l = limit \<and> lm_window l = window" for limit window
proof (unfold_locales, goal_cases)
  case (1 s now cs k)
  show ?case
    using take_req_simulates(1) [of now s cs k "fst (take_req now k s)" "snd (take_req now k s)"
      "fst (take_ref limit window now k cs)" "snd (take_ref limit window now k cs)"] 1
    by (simp add: take_ok_def split_beta Let_def)
next
  case (2 s now cs k)
  show ?case
    using take_req_simulates(2) [of now s cs k "fst (take_req now k s)" "snd (take_req now k s)"
      "fst (take_ref limit window now k cs)" "snd (take_ref limit window now k cs)"] 2
    by (simp add: take_ok_def split_beta Let_def)
next
  case (3 s now k)
  then show ?case by (auto simp: take_ok_def take_req_def sweep_def Let_def split: prod.splits)
qed

text \<open>\<^verbatim>\<open>allowDetect\<close> is the same step with the numbers written in.\<close>

lemma allowDetect_take:
  assumes "lm_limit l = detectRateLimit" "lm_window l = minute_ns"
  shows "allowDetect now ip (lm_buckets l, lm_sweep l) =
    (let (l', ok) = take_ok now ip l in ((lm_buckets l', lm_sweep l'), ok))"
  using assms
  by (auto simp: allowDetect_def take_ok_def take_req_def sweep_def count_request_def Let_def
      split: prod.splits option.splits if_splits)

definition detect_state :: "(string \<rightharpoonup> ipBucket) \<times> int \<Rightarrow> limiter" where
  "detect_state st = \<lparr>lm_limit = detectRateLimit, lm_window = minute_ns, lm_buckets = fst st, lm_sweep = snd st\<rparr>"

lemma allowDetect_take_state:
  "allowDetect now ip st =
    (let (l', ok) = take_ok now ip (detect_state st) in ((lm_buckets l', lm_sweep l'), ok))"
  using allowDetect_take [of "detect_state st" now ip] by (simp add: detect_state_def)

interpretation detect_limiter: window_limiter allowDetect fst detectRateLimit minute_ns "\<lambda>_. True"
proof (unfold_locales, goal_cases)
  case (1 s now cs k)
  then show ?case
    using booking_limiter.step_answer [of "detect_state s" detectRateLimit minute_ns now cs k]
    by (simp add: allowDetect_take_state split_beta Let_def detect_state_def)
next
  case (2 s now cs k)
  then show ?case
    using booking_limiter.step_live [of "detect_state s" detectRateLimit minute_ns now cs k]
    by (simp add: allowDetect_take_state split_beta Let_def detect_state_def)
qed simp

subsection \<open>The wait a refused client is told\<close>

text \<open>No window ends later than one window from now.\<close>

definition limiter_ok :: "int \<Rightarrow> limiter \<Rightarrow> bool" where
  "limiter_ok now l \<longleftrightarrow> (\<forall>k b. lm_buckets l k = Some b \<longrightarrow> bu_end b \<le> now + lm_window l)"

lemma limiter_ok_new: "limiter_ok now (newFixedWindowLimiter limit window)"
  by (simp add: limiter_ok_def newFixedWindowLimiter_def)

lemma limiter_ok_mono: "limiter_ok now l \<Longrightarrow> now \<le> now' \<Longrightarrow> limiter_ok now' l"
  by (fastforce simp: limiter_ok_def)

lemma limiter_ok_sweep: "limiter_ok now l \<Longrightarrow> limiter_ok now (sweep now l)"
  by (auto simp: limiter_ok_def sweep_def drop_expired_def split: option.splits if_splits)

lemma limiter_ok_take:
  assumes "limiter_ok now l" "take_req now k l = (l', a)"
  shows "limiter_ok now l'"
proof -
  have sw: "limiter_ok now (sweep now l)" using assms(1) by (rule limiter_ok_sweep)
  obtain b ok w where c: "count_request (lm_limit (sweep now l)) (lm_window (sweep now l)) now (lm_buckets (sweep now l) k) = (b, ok, w)"
    by (metis prod_cases3)
  have "bu_end b \<le> now + lm_window (sweep now l)"
    using c sw by (auto simp: count_request_def limiter_ok_def split: option.splits if_splits)
  then show ?thesis using assms(2) c sw by (auto simp: take_req_def Let_def limiter_ok_def split: if_splits)
qed

lemma take_req_refused:
  assumes "take_req now k l = (l', False, wait)"
  obtains b where "lm_buckets l k = Some b" "wait = bu_end b - now" "now \<le> bu_end b"
    "lm_limit l \<le> bu_count b" "lm_buckets l' k = Some b"
  using assms
  by (auto simp: take_req_def Let_def count_request_def sweep_def drop_expired_def
      split: prod.splits option.splits if_splits)

lemma take_req_fresh:
  assumes "case lm_buckets l k of None \<Rightarrow> True | Some b \<Rightarrow> bu_end b < now"
  shows "\<exists>l' wait. take_req now k l = (l', True, wait)"
  using assms
  by (auto simp: take_req_def Let_def count_request_def sweep_def drop_expired_def
      split: prod.splits option.splits if_splits)

subsection \<open>Properties\<close>

text \<open>
  C25. A client with no open window makes requests, interleaved with those of any
  other clients and all within one window of its first: exactly the first \<open>limit\<close> of its own
  requests are allowed, whatever sweeps run in between.
\<close>

theorem limiter_allows_first_requests:
  assumes "case lm_buckets l k of None \<Rightarrow> True | Some b \<Rightarrow> bu_end b < t0"
    and "1 \<le> lm_limit l" "0 \<le> lm_window l"
    and "sorted (map fst rs)" "\<forall>r \<in> set rs. t0 \<le> fst r \<and> fst r \<le> t0 + lm_window l"
    and "rs \<noteq> []" "hd rs = (t0, k)"
  shows "allowed_of k rs (snd (run_limiter take_ok rs l)) = min (nat (lm_limit l)) (requests_of k rs)"
  using assms by (intro booking_limiter.allows_first) auto

theorem limiter_allows_first_requests_witness:
  "allowed_of ''a'' [(5, ''a''), (6, ''b''), (7, ''a''), (8, ''a'')]
     (snd (run_limiter take_ok [(5, ''a''), (6, ''b''), (7, ''a''), (8, ''a'')] (newFixedWindowLimiter 2 60))) = 2"
proof -
  let ?l = "newFixedWindowLimiter 2 60"
  have "allowed_of ''a'' [(5, ''a''), (6, ''b''), (7, ''a''), (8, ''a'')]
     (snd (run_limiter take_ok [(5, ''a''), (6, ''b''), (7, ''a''), (8, ''a'')] ?l))
     = min (nat (lm_limit ?l)) (requests_of ''a'' [(5, ''a''), (6, ''b''), (7, ''a''), (8, ''a'')])"
    by (rule limiter_allows_first_requests [where ?t0.0 = 5]) (auto simp: newFixedWindowLimiter_def)
  then show ?thesis by (simp add: newFixedWindowLimiter_def requests_of_def)
qed

text \<open>
  C26. Sign-in detection writes the fixed window out a second time; on every state and
  every request it takes the step the booking routes' limiter takes when that is set to 20
  requests a minute, bucket by bucket, sweep included.
\<close>

theorem detect_is_the_booking_limiter:
  "allowDetect now ip (lm_buckets l, lm_sweep l) =
     (let (l', ok, wait) = take_req now ip (l\<lparr>lm_limit := detectRateLimit, lm_window := minute_ns\<rparr>)
      in ((lm_buckets l', lm_sweep l'), ok))"
  using allowDetect_take [of "l\<lparr>lm_limit := detectRateLimit, lm_window := minute_ns\<rparr>" now ip]
  by (simp add: take_ok_def split_beta Let_def)

text \<open>
  The Retry-After a refused client is sent is between one second and the window, and a
  client that waits any longer than it is let in again.
\<close>

theorem retry_after_is_enough:
  assumes "limiter_ok now l" "sec_ns \<le> lm_window l" "lm_window l mod sec_ns = 0"
    and "take_req now k l = (l', False, wait)"
    and "now + retryAfterSeconds wait (lm_window l) * sec_ns < later"
  shows "1 \<le> retryAfterSeconds wait (lm_window l) \<and>
    retryAfterSeconds wait (lm_window l) * sec_ns \<le> lm_window l \<and>
    (\<exists>l'' w. take_req later k l' = (l'', True, w))"
proof -
  obtain b where b: "lm_buckets l k = Some b" "wait = bu_end b - now" "now \<le> bu_end b" "lm_buckets l' k = Some b"
    using assms(4) by (rule take_req_refused)
  have wait: "wait \<le> lm_window l" "0 \<le> wait" using assms(1) b by (auto simp: limiter_ok_def dest!: spec [of _ k])
  have lo: "1 \<le> retryAfterSeconds wait (lm_window l)" and "retryAfterSeconds wait (lm_window l) \<le> go_quot (lm_window l) sec_ns"
    using retryAfter_bounds(1,2) [OF assms(2)] by auto
  then have hi: "retryAfterSeconds wait (lm_window l) * sec_ns \<le> lm_window l"
    using assms(2,3) mult_right_mono [of _ _ sec_ns] by (fastforce simp: go_quot_nonneg)
  have "wait \<le> retryAfterSeconds wait (lm_window l) * sec_ns"
    using retryAfter_bounds(3) [OF assms(2), of wait] wait lo assms(3) by (cases "wait = 0") auto
  then have "bu_end b < later" using assms(5) b(2) by simp
  then show ?thesis using lo hi take_req_fresh [where l = l' and k = k and now = later] b(4) by auto
qed

definition ex_full :: limiter where
  "ex_full = fst (take_req 3 ''a'' (newFixedWindowLimiter 1 minute_ns))"

theorem retry_after_is_enough_witness:
  "1 \<le> retryAfterSeconds (minute_ns - 2) minute_ns \<and> retryAfterSeconds (minute_ns - 2) minute_ns * sec_ns \<le> minute_ns \<and>
    (\<exists>l'' w. take_req (minute_ns + 6) ''a'' (fst (take_req 5 ''a'' ex_full)) = (l'', True, w))"
proof -
  have w: "lm_window ex_full = minute_ns" "snd (take_req 5 ''a'' ex_full) = (False, minute_ns - 2)"
    by code_simp+
  have ok: "limiter_ok 5 ex_full"
    unfolding ex_full_def
    by (rule limiter_ok_mono [of 3], rule limiter_ok_take [OF limiter_ok_new])
      (auto simp: prod_eq_iff)
  have later: "5 + retryAfterSeconds (minute_ns - 2) minute_ns * sec_ns < minute_ns + 6" by code_simp
  show ?thesis
    using retry_after_is_enough [OF ok, of "''a''" "fst (take_req 5 ''a'' ex_full)" "minute_ns - 2" "minute_ns + 6"]
      w later by (simp add: prod_eq_iff)
qed

end
