(* ===== verification/Users.thy ===== *)
theory Users
  imports Prelude
begin

section \<open>Users: the user table\<close>

text \<open>
  \<^verbatim>\<open>backend/storage/users.go\<close>: the rows of \<^verbatim>\<open>users\<close> and the three statements over them. The
  email is unique; a sign-in writes the row of its email or updates it. The organisation
  a user belongs to is kept as its id only.
\<close>

record User =
  us_id :: uuid
  us_email :: string
  us_name :: string
  us_avatar :: string
  us_provider :: string
  us_provider_id :: string
  us_org :: "uuid option"
  us_created_at :: int

definition UpsertUser ::
  "uuid \<Rightarrow> int \<Rightarrow> string \<Rightarrow> string \<Rightarrow> string \<Rightarrow> string \<Rightarrow> string \<Rightarrow> User list \<Rightarrow> User list" where
  "UpsertUser newid now email nm avatar provider pid us =
     (if list_ex (\<lambda>u. us_email u = email) us
      then map (\<lambda>u. if us_email u = email then u\<lparr>us_name := nm, us_avatar := avatar, us_provider_id := pid\<rparr> else u) us
      else us @ [\<lparr>us_id = newid, us_email = email, us_name = nm, us_avatar = avatar, us_provider = provider,
                  us_provider_id = pid, us_org = None, us_created_at = now\<rparr>])"

definition GetUserByEmail :: "User list \<Rightarrow> string \<Rightarrow> User option" where
  "GetUserByEmail us email = find (\<lambda>u. us_email u = email) us"

definition GetUserByID :: "User list \<Rightarrow> uuid \<Rightarrow> User option" where
  "GetUserByID us i = find (\<lambda>u. us_id u = i) us"

definition users_ok :: "User list \<Rightarrow> bool" where
  "users_ok us \<longleftrightarrow> distinct (map us_email us) \<and> distinct (map us_id us)"

lemma UpsertUser_ok:
  assumes "users_ok us" "newid \<notin> us_id ` set us"
  shows "users_ok (UpsertUser newid now email nm av pr pid us)"
proof -
  let ?f = "\<lambda>u. if us_email u = email then u\<lparr>us_name := nm, us_avatar := av, us_provider_id := pid\<rparr> else u"
  have "map us_email (map ?f us) = map us_email us" "map us_id (map ?f us) = map us_id us" by simp_all
  then show ?thesis using assms by (auto simp: users_ok_def UpsertUser_def list_ex_iff simp del: map_map)
qed

text \<open>After a sign-in the email has a user with the name it gave; every other email is as before.\<close>

lemma GetUserByEmail_Upsert:
  "map_option us_name (GetUserByEmail (UpsertUser i now email nm av pr pid us) e) =
     (if e = email then Some nm else map_option us_name (GetUserByEmail us e))"
proof -
  let ?f = "\<lambda>u. if us_email u = email then u\<lparr>us_name := nm, us_avatar := av, us_provider_id := pid\<rparr> else u"
  have f: "find (\<lambda>u. us_email u = e) (map ?f us) = map_option ?f (find (\<lambda>u. us_email u = e) us)" for e
    by (induction us) auto
  have hit: "us_email u = e" if "find (\<lambda>u. us_email u = e) us = Some u" for u
    using that by (auto simp: find_Some_iff)
  have app: "find P (xs @ ys) = (case find P xs of None \<Rightarrow> find P ys | Some x \<Rightarrow> Some x)" for P :: "User \<Rightarrow> bool" and xs ys
    by (induction xs) auto
  have none: "find (\<lambda>u. us_email u = e) us = None \<longleftrightarrow> \<not> list_ex (\<lambda>u. us_email u = e) us"
    by (auto simp: find_None_iff list_ex_iff)
  show ?thesis
    unfolding UpsertUser_def GetUserByEmail_def
    using hit none by (cases "find (\<lambda>u. us_email u = e) us") (auto simp: f app)
qed

end
