(* ===== verification/BookingRule.thy ===== *)
theory BookingRule
  imports Booking RateLimit Users
begin

section \<open>BookingRule: the offerable-start rule and the public booking routes\<close>

text \<open>
  \<^verbatim>\<open>backend/api/booking_rule.go\<close> and \<^verbatim>\<open>backend/api/handlers_booking.go\<close>: which slots a link offers
  on a day, why a requested start is refused, and the handlers of the three public routes
  (link information, slot listing, booking). A request carries the limiter key of its client,
  the clock, the faults of its storage reads and the cuts of its budget; the handlers map the
  server's state and the request to the new state and the response. The order of the refusal
  reasons is the linear order of the datatype \<open>refusal\<close>.
\<close>

subsection \<open>The rule\<close>

text \<open>\<^verbatim>\<open>time.Time.Sub\<close> saturates at the bounds of a 64-bit duration.\<close>

definition Sub64 :: "gotime \<Rightarrow> gotime \<Rightarrow> int" where
  "Sub64 a b = max (- (2 ^ 63)) (min (2 ^ 63 - 1) (Sub a b))"

text \<open>The owner's stored zone: \<open>Inl\<close> a failed read, \<open>None\<close> no settings row.\<close>

definition linkLocation :: "(string \<Rightarrow> location option) \<Rightarrow> string + string option \<Rightarrow> string + location" where
  "linkLocation tzdb read = (case read of
      Inl e \<Rightarrow> Inl e
    | Inr None \<Rightarrow> Inr UTC
    | Inr (Some tz) \<Rightarrow>
        if tz = '''' \<or> tz = ''Local'' then Inr UTC
        else (case LoadLocation tzdb tz of None \<Rightarrow> Inr UTC | Some loc \<Rightarrow> Inr loc))"

definition calendarDay :: "gotime \<Rightarrow> location \<Rightarrow> gotime" where
  "calendarDay t loc = go_date (date_of (In t loc)) 12 0 0 0 loc"

definition parseCalendarDay :: "string \<Rightarrow> location \<Rightarrow> gotime option" where
  "parseCalendarDay s loc = map_option (\<lambda>dn. go_date dn 12 0 0 0 loc) (parse_dateonly s)"

definition daysBetween :: "gotime \<Rightarrow> gotime \<Rightarrow> int" where
  "daysBetween a b =
     go_quot (Sub64 (go_date (date_of b) 0 0 0 0 UTC) (go_date (date_of a) 0 0 0 0 UTC)) (24 * hour_ns)"

definition horizonDays :: "SchedulingLink \<Rightarrow> int" where
  "horizonDays link = (if ln_horizon_days link \<le> 0 then DefaultBookingHorizonDays else ln_horizon_days link)"

definition inHorizon :: "SchedulingLink \<Rightarrow> gotime \<Rightarrow> gotime \<Rightarrow> bool" where
  "inHorizon link today day \<longleftrightarrow> (let n = daysBetween today day in n \<ge> 0 \<and> n < horizonDays link)"

definition linkOpenOn :: "SchedulingLink \<Rightarrow> gotime \<Rightarrow> bool" where
  "linkOpenOn link day \<longleftrightarrow> list_ex (\<lambda>d. d = Weekday day) (ln_days link)"

definition earliest_start :: "SchedulingLink \<Rightarrow> gotime \<Rightarrow> gotime" where
  "earliest_start link now = Add now (ln_min_notice link * minute_ns)"

definition offeredSlots ::
  "bool \<Rightarrow> BookingReads \<Rightarrow> calendars \<Rightarrow> SchedulingLink \<Rightarrow> location \<Rightarrow> gotime \<Rightarrow> int \<Rightarrow> gotime \<Rightarrow> slot list result" where
  "offeredSlots wascut reads cal link loc day duration now =
     (if \<not> inHorizon link (calendarDay now loc) day \<or> \<not> linkOpenOn link day then Inr []
      else case CollectiveSlots wascut reads cal link day duration of
          Inl e \<Rightarrow> Inl e
        | Inr slots \<Rightarrow>
            Inr (map (\<lambda>s. \<lparr>sl_start = In (sl_start s) UTC, sl_end = In (sl_end s) UTC\<rparr>)
              (filter (\<lambda>s. \<not> Before (sl_start s) (earliest_start link now)) slots)))"

subsection \<open>Refusals\<close>

datatype refusal = BeyondHorizon | OutsideLinkHours | TooSoon | Taken | HostBusy

definition refusal_rank :: "refusal \<Rightarrow> nat" where
  "refusal_rank r = (case r of BeyondHorizon \<Rightarrow> 0 | OutsideLinkHours \<Rightarrow> 1 | TooSoon \<Rightarrow> 2 | Taken \<Rightarrow> 3 | HostBusy \<Rightarrow> 4)"

instantiation refusal :: linorder
begin

definition less_eq_refusal :: "refusal \<Rightarrow> refusal \<Rightarrow> bool" where
  "less_eq_refusal a b \<longleftrightarrow> refusal_rank a \<le> refusal_rank b"

definition less_refusal :: "refusal \<Rightarrow> refusal \<Rightarrow> bool" where
  "less_refusal a b \<longleftrightarrow> refusal_rank a < refusal_rank b"

instance
proof
  fix x y z :: refusal
  show "x < y \<longleftrightarrow> x \<le> y \<and> \<not> y \<le> x" "x \<le> x" "x \<le> y \<or> y \<le> x"
    by (auto simp: less_eq_refusal_def less_refusal_def)
  show "x \<le> y \<Longrightarrow> y \<le> z \<Longrightarrow> x \<le> z" by (simp add: less_eq_refusal_def)
  show "x \<le> y \<Longrightarrow> y \<le> x \<Longrightarrow> x = y"
    by (cases x; cases y) (simp_all add: less_eq_refusal_def refusal_rank_def)
qed

end

definition refusalText :: "refusal \<Rightarrow> string" where
  "refusalText r = (case r of
      TooSoon \<Rightarrow> ''slot is too soon''
    | OutsideLinkHours \<Rightarrow> ''slot is outside the link's days or hours''
    | BeyondHorizon \<Rightarrow> ''slot is beyond the link's booking horizon''
    | HostBusy \<Rightarrow> ''a host is busy at that time''
    | Taken \<Rightarrow> ''slot is already booked'')"

definition slot_at :: "gotime \<Rightarrow> gotime \<Rightarrow> slot \<Rightarrow> bool" where
  "slot_at st en s \<longleftrightarrow> EqualT (sl_start s) st \<and> EqualT (sl_end s) en"

definition cheapRefusal ::
  "SchedulingLink \<Rightarrow> location \<Rightarrow> gotime \<Rightarrow> gotime \<Rightarrow> int \<Rightarrow> gotime \<Rightarrow> refusal option" where
  "cheapRefusal link loc st en duration now =
     (let day = calendarDay st loc
      in if daysBetween (calendarDay now loc) day \<ge> horizonDays link then Some BeyondHorizon
         else if \<not> (linkOpenOn link day \<and> list_ex (slot_at st en) (GridSlots link day duration)) then Some OutsideLinkHours
         else if Before st (earliest_start link now) then Some TooSoon
         else None)"

subsection \<open>Responses and requests\<close>

record publicHostDTO =
  ph_email :: string
  ph_name :: string
  ph_avatar :: string

record coverageDTO =
  cv_checked :: int
  cv_total :: int

record publicLinkDTO =
  pl_slug :: string
  pl_title :: string
  pl_durations :: "int list"
  pl_hosts :: "publicHostDTO list"
  pl_min_notice :: int
  pl_usage_type :: string
  pl_coverage :: coverageDTO
  pl_time_zone :: string
  pl_horizon :: int

datatype body =
    ErrorBody string
  | RefusalBody string refusal
  | SlotsBody "slot list"
  | DatesBody "string list"
  | LinkBody publicLinkDTO
  | ConfirmBody string string string int "publicHostDTO list" Booking

record response =
  rs_status :: int
  rs_body :: body
  rs_retry_after :: "int option"

definition writeError :: "string \<Rightarrow> int \<Rightarrow> response" where
  "writeError msg status = \<lparr>rs_status = status, rs_body = ErrorBody msg, rs_retry_after = None\<rparr>"

definition genericServerMessage :: "int \<Rightarrow> string" where
  "genericServerMessage code =
     (if code = 502 then ''upstream provider error'' else if code = 503 then ''service unavailable'' else ''internal error'')"

text \<open>The operation and the error only go to the log.\<close>

definition writeServerError :: "string \<Rightarrow> int \<Rightarrow> response" where
  "writeServerError op code = writeError (genericServerMessage code) code"

definition WriteExpired :: response where
  "WriteExpired = writeError ''request timed out'' 503"

definition writeRefusal :: "SchedulingLink \<Rightarrow> refusal \<Rightarrow> response" where
  "writeRefusal link reason =
     (if ln_refusal_message link \<noteq> RefusalSpecific then writeError ''slot is no longer available'' 409
      else \<lparr>rs_status = 409, rs_body = RefusalBody (refusalText reason) reason, rs_retry_after = None\<rparr>)"

record server =
  sv_db :: link_db
  sv_focus :: "FocusRow list"
  sv_settings :: settings_db
  sv_users :: "User list"
  sv_create_limiter :: limiter
  sv_slots_limiter :: limiter

record booking_body =
  bb_name :: string
  bb_email :: string
  bb_start :: string
  bb_end :: string
  bb_notes :: string
  bb_duration :: "int option"
  bb_duration_minutes :: "int option"

text \<open>
  A request: the limiter's key and clock, the rule's clock, which storage reads fail, the cuts
  of the pool runs (the \<open>i\<close>-th run) and of the request itself.
\<close>

record request =
  rq_key :: string
  rq_at :: int
  rq_now :: gotime
  rq_slug :: string
  rq_link_fails :: bool
  rq_has_token :: "uuid \<Rightarrow> bool"
  rq_zone_fails :: "string option"
  rq_overlap_fails :: bool
  rq_listing_fails :: "string option"
  rq_focus_fails :: "uuid \<Rightarrow> string option"
  rq_bookings_fail :: "uuid \<Rightarrow> string option"
  rq_hosts_fail :: "string option"
  rq_cut :: "nat \<Rightarrow> bool"
  rq_ended :: "nat \<Rightarrow> bool"
  rq_insert :: insert_env

definition req_zone :: "request \<Rightarrow> server \<Rightarrow> uuid \<Rightarrow> string + string option" where
  "req_zone rq sv owner = (case rq_zone_fails rq of Some e \<Rightarrow> Inl e | None \<Rightarrow> Inr (GetUserTimezone (sv_settings sv) owner))"

definition fail_or :: "string option \<Rightarrow> string + 'a \<Rightarrow> string + 'a" where
  "fail_or f r = (case f of Some e \<Rightarrow> Inl e | None \<Rightarrow> r)"

definition req_reads :: "request \<Rightarrow> server \<Rightarrow> BookingReads" where
  "req_reads rq sv = (let r = storage_reads (sv_db sv) (sv_focus sv) in \<lparr>
     rd_hosts = (\<lambda>l. fail_or (rq_listing_fails rq) (rd_hosts r l)),
     rd_focus = (\<lambda>u w. fail_or (rq_focus_fails rq u) (rd_focus r u w)),
     rd_bookings = (\<lambda>u a b. fail_or (rq_bookings_fail rq u) (rd_bookings r u a b))\<rparr>)"

definition req_hosts :: "request \<Rightarrow> server \<Rightarrow> uuid \<Rightarrow> string + LinkHost list" where
  "req_hosts rq sv l = (case rq_hosts_fail rq of Some e \<Rightarrow> Inl e | None \<Rightarrow> Inr (GetAcceptedHosts (sv_db sv) l))"

definition rate_limited :: "int \<Rightarrow> int \<Rightarrow> response" where
  "rate_limited wait window =
     \<lparr>rs_status = 429, rs_body = ErrorBody ''rate limit exceeded'', rs_retry_after = Some (retryAfterSeconds wait window)\<rparr>"

definition linkExhausted :: "SchedulingLink \<Rightarrow> bool" where
  "linkExhausted link =
     (if ln_usage_type link = ''single_use'' then ln_uses_count link \<ge> 1
      else ln_usage_type link = ''recurring'' \<and> (case ln_max_uses link of None \<Rightarrow> False | Some m \<Rightarrow> ln_uses_count link \<ge> m))"

definition durationAllowed :: "SchedulingLink \<Rightarrow> int \<Rightarrow> bool" where
  "durationAllowed link duration =
     (if duration \<le> 0 then False
      else if ln_durations link = [] then duration = 30
      else list_ex (\<lambda>a. a = duration) (ln_durations link))"

definition default_duration :: "SchedulingLink \<Rightarrow> int" where
  "default_duration link = (case ln_durations link of [] \<Rightarrow> 30 | d # _ \<Rightarrow> d)"

definition host_users :: "server \<Rightarrow> uuid \<Rightarrow> User list" where
  "host_users sv l = List.map_filter (\<lambda>h. GetUserByID (sv_users sv) (lh_user h)) (GetAcceptedHosts (sv_db sv) l)"

definition public_host :: "User \<Rightarrow> publicHostDTO" where
  "public_host u = \<lparr>ph_email = us_email u, ph_name = us_name u, ph_avatar = us_avatar u\<rparr>"

definition public_hosts :: "server \<Rightarrow> uuid \<Rightarrow> publicHostDTO list" where
  "public_hosts sv l = map public_host (host_users sv l)"

text \<open>The page of a link: who hosts it, and for how many of them a calendar can be checked.\<close>

definition publicLink :: "request \<Rightarrow> server \<Rightarrow> SchedulingLink \<Rightarrow> location \<Rightarrow> publicLinkDTO" where
  "publicLink rq sv link loc =
     (let us = host_users sv (ln_id link)
      in \<lparr>pl_slug = ln_slug link, pl_title = ln_title link, pl_durations = ln_durations link,
          pl_hosts = map public_host us, pl_min_notice = ln_min_notice link,
          pl_usage_type = (if ln_usage_type link = '''' then ''reusable'' else ln_usage_type link),
          pl_coverage = \<lparr>cv_checked = int (length (filter (\<lambda>u. rq_has_token rq (us_id u)) us)), cv_total = int (length us)\<rparr>,
          pl_time_zone = loc_name loc, pl_horizon = horizonDays link\<rparr>)"

text \<open>The link of a public request, or the answer when there is none or it is used up.\<close>

definition find_link :: "request \<Rightarrow> server \<Rightarrow> response + SchedulingLink" where
  "find_link rq sv =
     (if rq_link_fails rq then Inl (writeError ''internal error'' 500)
      else case GetSchedulingLinkBySlug (sv_db sv) (rq_slug rq) of
          None \<Rightarrow> Inl (writeError ''not found'' 404)
        | Some link \<Rightarrow> if linkExhausted link then Inl (writeError ''link is no longer accepting bookings'' 410) else Inr link)"

definition getLinkInfo :: "(string \<Rightarrow> location option) \<Rightarrow> request \<Rightarrow> server \<Rightarrow> response" where
  "getLinkInfo tzdb rq sv = (case find_link rq sv of
      Inl rsp \<Rightarrow> rsp
    | Inr link \<Rightarrow> (case linkLocation tzdb (req_zone rq sv (ln_owner link)) of
          Inl e \<Rightarrow> writeServerError ''link zone'' 500
        | Inr loc \<Rightarrow> \<lparr>rs_status = 200, rs_body = LinkBody (publicLink rq sv link loc), rs_retry_after = None\<rparr>))"

subsection \<open>The slot listing\<close>

definition budgetCut :: "gerr \<Rightarrow> bool" where "budgetCut e \<longleftrightarrow> e = ErrExpired"

text \<open>The days of the horizon that offer a slot; \<open>Inl\<close> is the budget's answer.\<close>

fun offered_days ::
  "request \<Rightarrow> server \<Rightarrow> calendars \<Rightarrow> SchedulingLink \<Rightarrow> location \<Rightarrow> int \<Rightarrow> nat list \<Rightarrow> response + string list" where
  "offered_days rq sv cal link loc duration [] = Inr []"
| "offered_days rq sv cal link loc duration (i # is) =
     (let date = AddDays (calendarDay (rq_now rq) loc) (int i);
          rest = offered_days rq sv cal link loc duration is
      in case offeredSlots (rq_cut rq i) (req_reads rq sv) cal link loc date duration (rq_now rq) of
           Inl e \<Rightarrow> if budgetCut e \<or> rq_ended rq i then Inl WriteExpired else rest
         | Inr slots \<Rightarrow> if slots \<noteq> [] then map_sum id (\<lambda>ds. format_date (date_of date) # ds) rest else rest)"

definition getSlots ::
  "(string \<Rightarrow> location option) \<Rightarrow> calendars \<Rightarrow> request \<Rightarrow> string \<Rightarrow> string \<Rightarrow> server \<Rightarrow> server \<times> response" where
  "getSlots tzdb cal rq raw dateStr sv0 =
     (let (lim, ok, wait) = take_req (rq_at rq) (rq_key rq) (sv_slots_limiter sv0);
          sv = sv0\<lparr>sv_slots_limiter := lim\<rparr>
      in (sv,
        if \<not> ok then rate_limited wait (lm_window lim)
        else case find_link rq sv of
          Inl rsp \<Rightarrow> rsp
        | Inr link \<Rightarrow>
            (case (if raw = '''' then Some (default_duration link) else
                     (case Atoi raw of None \<Rightarrow> None | Some d \<Rightarrow> if durationAllowed link d then Some d else None)) of
               None \<Rightarrow> writeError ''invalid duration'' 400
             | Some duration \<Rightarrow>
                 (case linkLocation tzdb (req_zone rq sv (ln_owner link)) of
                    Inl e \<Rightarrow> writeServerError ''link zone'' 500
                  | Inr loc \<Rightarrow>
                      if dateStr = ''''
                      then (case offered_days rq sv cal link loc duration [0..<nat (horizonDays link)] of
                              Inl rsp \<Rightarrow> rsp
                            | Inr days \<Rightarrow> \<lparr>rs_status = 200, rs_body = DatesBody days, rs_retry_after = None\<rparr>)
                      else (case parseCalendarDay dateStr loc of
                          None \<Rightarrow> writeError ''invalid date format, use YYYY-MM-DD'' 400
                        | Some date \<Rightarrow>
                            (case offeredSlots (rq_cut rq 0) (req_reads rq sv) cal link loc date duration (rq_now rq) of
                               Inl e \<Rightarrow> if budgetCut e then WriteExpired else writeError ''internal error'' 500
                             | Inr available \<Rightarrow> \<lparr>rs_status = 200, rs_body = SlotsBody available, rs_retry_after = None\<rparr>))))))"

subsection \<open>The booking\<close>

text \<open>The end and the duration a body asks for, or the message of the 400.\<close>

definition requested_end :: "SchedulingLink \<Rightarrow> booking_body \<Rightarrow> gotime \<Rightarrow> string + gotime \<times> int" where
  "requested_end link b st =
     (let req = (case bb_duration b of Some d \<Rightarrow> d | None \<Rightarrow> (case bb_duration_minutes b of Some d \<Rightarrow> d | None \<Rightarrow> 0))
      in if bb_end b \<noteq> ''''
         then (case parse_rfc3339 (bb_end b) of
                 None \<Rightarrow> Inl ''invalid end time, use RFC3339''
               | Some en \<Rightarrow>
                   let len = Sub64 en st; whole = (go_rem len minute_ns = 0); actual = go_quot len minute_ns
                   in if req \<noteq> 0 \<and> (\<not> whole \<or> req \<noteq> actual) then Inl ''duration does not match end time''
                      else if \<not> whole then Inl ''invalid duration'' else Inr (en, actual))
         else let req = (if req = 0 then default_duration link else req)
              in Inr (Add st (req * minute_ns), req))"

text \<open>The checks of the body, in the source's order, up to the rule.\<close>

definition read_body :: "SchedulingLink \<Rightarrow> booking_body option \<Rightarrow> string + (booking_body \<times> gotime \<times> gotime \<times> int)" where
  "read_body link body = (case body of
      None \<Rightarrow> Inl ''invalid request body''
    | Some b0 \<Rightarrow>
        let b = b0\<lparr>bb_name := TrimSpace (bb_name b0), bb_email := TrimSpace (bb_email b0)\<rparr>
        in if bb_name b = '''' \<or> bb_email b = '''' \<or> bb_start b = '''' then Inl ''name, email, and start are required''
           else case parse_rfc3339 (bb_start b) of
               None \<Rightarrow> Inl ''invalid start time, use RFC3339''
             | Some st \<Rightarrow> (case requested_end link b st of
                   Inl e \<Rightarrow> Inl e
                 | Inr (en, dur) \<Rightarrow>
                     if \<not> durationAllowed link dur then Inl ''invalid duration''
                     else if \<not> After en st then Inl ''end must be after start''
                     else Inr (b, st, en, dur)))"

definition confirmation :: "server \<Rightarrow> SchedulingLink \<Rightarrow> Booking \<Rightarrow> response" where
  "confirmation sv link b = \<lparr>rs_status = 201,
     rs_body = ConfirmBody (ln_slug link) (format_rfc3339 (In (bk_start b) UTC)) (format_rfc3339 (In (bk_end b) UTC))
       (minutes_of (Sub (bk_end b) (bk_start b))) (public_hosts sv (ln_id link)) b,
     rs_retry_after = None\<rparr>"

text \<open>The rule applied to a start and end: the offered slot, or the answer.\<close>

definition booking_slot ::
  "(string \<Rightarrow> location option) \<Rightarrow> calendars \<Rightarrow> request \<Rightarrow> SchedulingLink \<Rightarrow> gotime \<Rightarrow> gotime \<Rightarrow> int \<Rightarrow> server \<Rightarrow> response + slot" where
  "booking_slot tzdb cal rq link st en dur sv =
     (case linkLocation tzdb (req_zone rq sv (ln_owner link)) of
        Inl e \<Rightarrow> Inl (writeError ''booking conflict check failed'' 500)
      | Inr loc \<Rightarrow>
          (case cheapRefusal link loc st en dur (rq_now rq) of
             Some reason \<Rightarrow> Inl (writeRefusal link reason)
           | None \<Rightarrow>
               if rq_overlap_fails rq then Inl (writeError ''booking conflict check failed'' 500)
               else if HasOverlappingBooking (sv_db sv) (ln_id link) st en then Inl (writeRefusal link Taken)
               else (case offeredSlots (rq_cut rq 0) (req_reads rq sv) cal link loc (calendarDay st loc) dur (rq_now rq) of
                   Inl e \<Rightarrow> Inl (if budgetCut e then WriteExpired else writeError ''booking conflict check failed'' 500)
                 | Inr offered \<Rightarrow> (case find (slot_at st en) offered of
                       None \<Rightarrow> Inl (writeRefusal link HostBusy)
                     | Some s \<Rightarrow> Inr s))))"

definition createBooking ::
  "(string \<Rightarrow> location option) \<Rightarrow> calendars \<Rightarrow> request \<Rightarrow> booking_body option \<Rightarrow> server \<Rightarrow> server \<times> response" where
  "createBooking tzdb cal rq body sv0 =
     (let (lim, ok, wait) = take_req (rq_at rq) (rq_key rq) (sv_create_limiter sv0);
          sv = sv0\<lparr>sv_create_limiter := lim\<rparr>
      in if \<not> ok then (sv, rate_limited wait (lm_window lim))
         else case find_link rq sv of
             Inl rsp \<Rightarrow> (sv, rsp)
           | Inr link \<Rightarrow> (case read_body link body of
                 Inl msg \<Rightarrow> (sv, writeError msg 400)
               | Inr (b, st, en, dur) \<Rightarrow> (case booking_slot tzdb cal rq link st en dur sv of
                     Inl rsp \<Rightarrow> (sv, rsp)
                   | Inr s \<Rightarrow>
                       (case ConfirmBooking (rq_cut rq 1) (req_hosts rq sv (ln_id link)) cal (rq_insert rq) link
                               (bb_name b) (bb_email b) (sl_start s) (sl_end s) (bb_notes b) (sv_db sv) of
                          (db', Inl e) \<Rightarrow>
                            (sv\<lparr>sv_db := db'\<rparr>,
                             if e = ErrExpired then WriteExpired
                             else if e = ErrHostCalendarUnreadable then writeRefusal link HostBusy
                             else writeServerError ''booking failed'' 500)
                        | (db', Inr row) \<Rightarrow> let sv' = sv\<lparr>sv_db := db'\<rparr> in (sv', confirmation sv' link row)))))"

subsection \<open>Days and horizons\<close>

lemma go_date_midnight_ns: "ns (go_date d 0 0 0 0 UTC) = d * day_ns"
  by (simp add: go_date_def wall_sec_def)

text \<open>The 64-bit duration saturates at 106751 whole days, far beyond any horizon.\<close>

lemma daysBetween_eq: "daysBetween a b = max (- 106751) (min 106751 (date_of b - date_of a))"
proof -
  let ?d = "date_of b - date_of a"
  have s: "Sub (go_date (date_of b) 0 0 0 0 UTC) (go_date (date_of a) 0 0 0 0 UTC) = ?d * day_ns"
    by (simp add: Sub_def go_date_midnight_ns left_diff_distrib)
  consider "?d > 106751" | "?d < - 106751" | "- 106751 \<le> ?d" "?d \<le> 106751" by linarith
  then show ?thesis
  proof cases
    case 1
    then have "Sub64 (go_date (date_of b) 0 0 0 0 UTC) (go_date (date_of a) 0 0 0 0 UTC) = 2 ^ 63 - 1"
      by (simp add: Sub64_def s)
    then show ?thesis using 1 by (simp add: daysBetween_def go_quot_def)
  next
    case 2
    then have "Sub64 (go_date (date_of b) 0 0 0 0 UTC) (go_date (date_of a) 0 0 0 0 UTC) = - (2 ^ 63)"
      by (simp add: Sub64_def s)
    then show ?thesis using 2 by (simp add: daysBetween_def go_quot_def)
  next
    case 3
    then have "Sub64 (go_date (date_of b) 0 0 0 0 UTC) (go_date (date_of a) 0 0 0 0 UTC) = ?d * day_ns"
      by (simp add: Sub64_def s)
    then show ?thesis using 3 go_quot_mult_self [of day_ns ?d] by (simp add: daysBetween_def)
  qed
qed

lemma inHorizon_iff:
  assumes "horizonDays link \<le> 106751"
  shows "inHorizon link today day \<longleftrightarrow> date_of today \<le> date_of day \<and> date_of day < date_of today + horizonDays link"
  using assms by (auto simp: inHorizon_def daysBetween_eq Let_def)

lemma horizonDays_row: "link_row_ok link \<Longrightarrow> 1 \<le> horizonDays link \<and> horizonDays link \<le> 365"
  by (auto simp: horizonDays_def link_row_ok_def)

subsection \<open>What is offered\<close>

definition utc_slot :: "slot \<Rightarrow> slot" where
  "utc_slot s = \<lparr>sl_start = In (sl_start s) UTC, sl_end = In (sl_end s) UTC\<rparr>"

lemma utc_slot_ns [simp]: "ns (sl_start (utc_slot s)) = ns (sl_start s)" "ns (sl_end (utc_slot s)) = ns (sl_end s)"
  by (simp_all add: utc_slot_def)

lemma offeredSlots_cases:
  "offeredSlots wascut reads cal link loc day dur now = Inr slots \<longleftrightarrow>
   (if inHorizon link (calendarDay now loc) day \<and> linkOpenOn link day
    then \<exists>cs. CollectiveSlots wascut reads cal link day dur = Inr cs \<and>
       slots = map utc_slot (filter (\<lambda>s. \<not> Before (sl_start s) (earliest_start link now)) cs)
    else slots = [])"
  by (auto simp: offeredSlots_def utc_slot_def [abs_def] split: sum.splits)

lemma offeredSlots_sound:
  assumes "offeredSlots wascut reads cal link loc day dur now = Inr slots" "s \<in> set slots"
    and win: "LinkWindow link day = (ws, we, ok)"
  obtains c hosts where "c \<in> set (GridSlots link day dur)" "s = utc_slot c"
    "inHorizon link (calendarDay now loc) day" "linkOpenOn link day"
    "ns (earliest_start link now) \<le> ns (sl_start c)"
    "rd_hosts reads (ln_id link) = Inr hosts" "hosts \<noteq> []" "list_all (host_free reads cal link ws we c) hosts"
proof -
  have open_day: "inHorizon link (calendarDay now loc) day" "linkOpenOn link day"
    using assms(1,2) unfolding offeredSlots_cases by (auto split: if_splits)
  then obtain cs where cs: "CollectiveSlots wascut reads cal link day dur = Inr cs"
    "slots = map utc_slot (filter (\<lambda>s. \<not> Before (sl_start s) (earliest_start link now)) cs)"
    using assms(1) unfolding offeredSlots_cases by auto
  then obtain c where c: "c \<in> set cs" "s = utc_slot c" "ns (earliest_start link now) \<le> ns (sl_start c)"
    using assms(2) by (auto simp: time_cmp_defs)
  show ?thesis
    using CollectiveSlots_sound [OF cs(1) c(1) win] that [of c] c open_day by blast
qed

lemma offeredSlots_complete:
  assumes off: "offeredSlots wascut reads cal link loc day dur now = Inr slots"
    and c: "c \<in> set (GridSlots link day dur)" "inHorizon link (calendarDay now loc) day" "linkOpenOn link day"
      "ns (earliest_start link now) \<le> ns (sl_start c)"
    and hosts: "rd_hosts reads (ln_id link) = Inr hosts" "hosts \<noteq> []" "LinkWindow link day = (ws, we, ok)"
      "list_all (busy_valid reads cal link ws we) hosts" "list_all (host_free reads cal link ws we c) hosts"
  shows "utc_slot c \<in> set slots"
proof -
  obtain cs where cs: "CollectiveSlots wascut reads cal link day dur = Inr cs"
    and slots: "slots = map utc_slot (filter (\<lambda>s. \<not> Before (sl_start s) (earliest_start link now)) cs)"
    using off c(2,3) unfolding offeredSlots_cases by auto
  have "c \<in> set cs" using CollectiveSlots_spec [OF cs hosts(1-4)] c(1) hosts(5) by simp
  then show ?thesis using c(4) by (auto simp: slots time_cmp_defs)
qed

lemma calendarDay_tloc [simp]: "tloc (calendarDay t loc) = loc"
  by (simp add: calendarDay_def go_date_def)

subsection \<open>Why a start is refused\<close>

text \<open>When each reason holds of a start and end, taken by itself.\<close>

definition applies ::
  "calendars \<Rightarrow> request \<Rightarrow> SchedulingLink \<Rightarrow> location \<Rightarrow> gotime \<Rightarrow> gotime \<Rightarrow> int \<Rightarrow> server \<Rightarrow> refusal \<Rightarrow> bool" where
  "applies cal rq link loc st en dur sv r =
     (let day = calendarDay st loc; today = calendarDay (rq_now rq) loc in
      case r of
        BeyondHorizon \<Rightarrow> daysBetween today day \<ge> horizonDays link
      | OutsideLinkHours \<Rightarrow> \<not> (linkOpenOn link day \<and> list_ex (slot_at st en) (GridSlots link day dur))
      | TooSoon \<Rightarrow> Before st (earliest_start link (rq_now rq))
      | Taken \<Rightarrow> HasOverlappingBooking (sv_db sv) (ln_id link) st en
      | HostBusy \<Rightarrow> (\<forall>offered. offeredSlots (rq_cut rq 0) (req_reads rq sv) cal link loc day dur (rq_now rq) = Inr offered
            \<longrightarrow> \<not> list_ex (slot_at st en) offered))"

lemma refusal_less_simps [simp]:
  "BeyondHorizon \<le> r" "OutsideLinkHours \<le> r \<longleftrightarrow> r \<noteq> BeyondHorizon" "TooSoon \<le> r \<longleftrightarrow> r \<notin> {BeyondHorizon, OutsideLinkHours}"
  "Taken \<le> r \<longleftrightarrow> r \<in> {Taken, HostBusy}" "HostBusy \<le> r \<longleftrightarrow> r = HostBusy"
  by (cases r; simp add: less_eq_refusal_def refusal_rank_def)+

lemma cheapRefusal_first:
  "cheapRefusal link loc st en dur (rq_now rq) = Some r \<longleftrightarrow>
   r \<le> TooSoon \<and> applies cal rq link loc st en dur sv r \<and> (\<forall>r'. applies cal rq link loc st en dur sv r' \<longrightarrow> r \<le> r')"
  (is "?L \<longleftrightarrow> ?R")
proof
  assume ?L
  then show ?R
    by (auto simp: cheapRefusal_def Let_def applies_def not_less split: if_splits refusal.splits)
next
  assume R: ?R
  then have "r = BeyondHorizon \<or> r = OutsideLinkHours \<or> r = TooSoon"
    by (cases r) (simp_all add: less_eq_refusal_def refusal_rank_def)
  then show ?L
    using R by (elim disjE) (auto simp: cheapRefusal_def Let_def applies_def dest: spec [of _ BeyondHorizon] spec [of _ OutsideLinkHours])
qed

end
