(* ===== verification/BookingFlow.thy ===== *)
theory BookingFlow
  imports BookingRule
begin

section \<open>BookingFlow: what the public booking guarantees\<close>

text \<open>
  Lemmas about \<^verbatim>\<open>createBooking\<close> as a whole: what every answer leaves in the database, that a saved
  booking was offered, that an offered slot can be booked, that bookings taken one after the
  other never double-book a host, and what happens when two bookings interleave.
\<close>

subsection \<open>Statuses\<close>

lemma find_link_status: "find_link rq sv = Inl rsp \<Longrightarrow> rs_status rsp \<in> {500, 404, 410}"
  by (auto simp: find_link_def writeServerError_def writeError_def split: if_splits option.splits)

lemma writeRefusal_status [simp]: "rs_status (writeRefusal link r) = 409"
  by (simp add: writeRefusal_def writeServerError_def writeError_def)

lemma WriteExpired_status [simp]: "rs_status WriteExpired = 503"
  by (simp add: WriteExpired_def writeServerError_def writeError_def)

lemma booking_slot_status: "booking_slot tzdb cal rq link st en dur sv = Inl rsp \<Longrightarrow> rs_status rsp \<in> {500, 409, 503}"
  by (auto simp: booking_slot_def writeServerError_def writeError_def split: sum.splits option.splits if_splits)

lemma take_req_limits:
  "take_req now k l = (l', a) \<Longrightarrow> lm_limit l' = lm_limit l \<and> lm_window l' = lm_window l"
  by (auto simp: take_req_def sweep_def Let_def split: prod.splits if_splits)

text \<open>Every answer of \<^verbatim>\<open>createBooking\<close> either leaves the tables alone, or is a 201 for a saved slot.\<close>

lemma createBooking_cases:
  assumes "createBooking tzdb cal rq body sv = (sv', rsp)"
  obtains (answered) "rs_status rsp \<noteq> 201" "sv_db sv' = sv_db sv"
  | (booked) sv1 link b st en dur s row hs where "rs_status rsp = 201"
      "sv1 = sv\<lparr>sv_create_limiter := fst (take_req (rq_at rq) (rq_key rq) (sv_create_limiter sv))\<rparr>"
      "find_link rq sv1 = Inr link" "read_body link body = Inr (b, st, en, dur)"
      "booking_slot tzdb cal rq link st en dur sv1 = Inr s"
      "req_hosts rq sv1 (ln_id link) = Inr hs"
      "row = \<lparr>bk_id = ie_id (rq_insert rq), bk_link = ln_id link, bk_name = bb_name b, bk_email = bb_email b,
              bk_start = sl_start s, bk_end = sl_end s, bk_status = ''confirmed'', bk_notes = bb_notes b,
              bk_created_at = ie_now (rq_insert rq)\<rparr>"
      "sv_db sv' = (sv_db sv)\<lparr>t_bookings := t_bookings (sv_db sv) @ [row]\<rparr>"
proof -
  obtain lim ok wait where t: "take_req (rq_at rq) (rq_key rq) (sv_create_limiter sv) = (lim, ok, wait)"
    by (cases "take_req (rq_at rq) (rq_key rq) (sv_create_limiter sv)") auto
  let ?sv = "sv\<lparr>sv_create_limiter := lim\<rparr>"
  note unf = createBooking_def Let_def t prod.case
  show thesis
  proof (cases "ok")
    case False
    then show thesis using assms answered by (auto simp: unf rate_limited_def)
  next
    case ok: True
    show thesis
    proof (cases "find_link rq ?sv")
      case (Inl r)
      then show thesis using assms answered ok find_link_status [OF Inl] by (auto simp: unf)
    next
      case link: (Inr link)
      show thesis
      proof (cases "read_body link body")
        case (Inl m)
        then show thesis using assms answered ok link by (auto simp: unf writeServerError_def writeError_def)
      next
        case (Inr p)
        then obtain b st en dur where rb: "read_body link body = Inr (b, st, en, dur)" by (cases p) auto
        show thesis
        proof (cases "booking_slot tzdb cal rq link st en dur ?sv")
          case (Inl r)
          then show thesis using assms answered ok link rb booking_slot_status [OF Inl] by (auto simp: unf)
        next
          case slot: (Inr s)
          obtain db' res where cb: "ConfirmBooking (rq_cut rq 1) (req_hosts rq ?sv (ln_id link)) cal (rq_insert rq) link
              (bb_name b) (bb_email b) (sl_start s) (sl_end s) (bb_notes b) (sv_db ?sv) = (db', res)"
            by (cases "ConfirmBooking (rq_cut rq 1) (req_hosts rq ?sv (ln_id link)) cal (rq_insert rq) link
              (bb_name b) (bb_email b) (sl_start s) (sl_end s) (bb_notes b) (sv_db ?sv)")
          show thesis
            using cb
          proof (cases rule: ConfirmBooking_cases)
            case (failed err)
            then have "rs_status rsp \<in> {503, 409, 500}" "sv_db sv' = sv_db sv"
              using assms ok link rb slot cb by (auto simp: unf writeServerError_def writeError_def split: if_splits)
            then show thesis using answered by auto
          next
            case (saved row hs)
            have r: "rs_status rsp = 201" "sv_db sv' = db'"
              using assms ok link rb slot cb saved(1) by (auto simp: unf confirmation_def)
            show thesis
              using booked [OF r(1) _ link rb slot saved(2,6)] r(2) saved(7) by (simp add: t)
          qed
        qed
      qed
    qed
  qed
qed

subsection \<open>The slot that is booked\<close>

lemma find_slot_at: "find (slot_at st en) offered = Some s \<Longrightarrow> s \<in> set offered \<and> ns (sl_start s) = ns st \<and> ns (sl_end s) = ns en"
  by (auto simp: find_Some_iff slot_at_def EqualT_def)

lemma booking_slot_Inr:
  assumes "booking_slot tzdb cal rq link st en dur sv = Inr s"
  obtains loc offered where "linkLocation tzdb (req_zone rq sv (ln_owner link)) = Inr loc"
    "cheapRefusal link loc st en dur (rq_now rq) = None" "\<not> HasOverlappingBooking (sv_db sv) (ln_id link) st en"
    "offeredSlots (rq_cut rq 0) (req_reads rq sv) cal link loc (calendarDay st loc) dur (rq_now rq) = Inr offered"
    "s \<in> set offered" "ns (sl_start s) = ns st" "ns (sl_end s) = ns en"
  using assms find_slot_at
  by (auto simp: booking_slot_def split: sum.splits option.splits if_splits)

lemma req_hosts_Inr: "req_hosts rq sv l = Inr hs \<Longrightarrow> hs = GetAcceptedHosts (sv_db sv) l"
  by (auto simp: req_hosts_def split: option.splits)

lemma req_reads_hosts: "rd_hosts (req_reads rq sv) l = Inr hs \<Longrightarrow> hs = GetAcceptedHosts (sv_db sv) l"
  by (auto simp: req_reads_def storage_reads_def fail_or_def Let_def split: option.splits)

lemma req_reads_bookings:
  assumes "hostBusy (req_reads rq sv) cal link ws we u = Inr busy" "b \<in> set (busy_rows (sv_db sv) u ws we)"
  shows "ivl (bk_start b) (bk_end b) \<in> set busy"
  using assms
  by (auto simp: hostBusy_def req_reads_def storage_reads_def fail_or_def Let_def GetBusyBookingsForUser_def pair_up_concat
      split: sum.splits option.splits)

subsection \<open>No double booking, one request after the other\<close>

definition accepted_on :: "link_db \<Rightarrow> uuid \<Rightarrow> uuid \<Rightarrow> bool" where
  "accepted_on db l u \<longleftrightarrow> list_ex (\<lambda>h. lh_user h = u) (GetAcceptedHosts db l)"

text \<open>Two live bookings whose links share an accepted host do not overlap.\<close>

definition clash :: "link_db \<Rightarrow> Booking \<Rightarrow> Booking \<Rightarrow> bool" where
  "clash db a b \<longleftrightarrow> live_booking a \<and> live_booking b \<and> Before (bk_start a) (bk_end b) \<and> Before (bk_start b) (bk_end a) \<and>
     (\<exists>u. accepted_on db (bk_link a) u \<and> accepted_on db (bk_link b) u)"

definition no_double :: "link_db \<Rightarrow> bool" where
  "no_double db \<longleftrightarrow> sorted_wrt (\<lambda>a b. \<not> clash db a b) (t_bookings db)"

definition bookings_fk :: "link_db \<Rightarrow> bool" where
  "bookings_fk db \<longleftrightarrow> list_all (\<lambda>b. list_ex (\<lambda>l. ln_id l = bk_link b) (t_links db)) (t_bookings db)"

lemma accepted_on_append [simp]: "accepted_on (db\<lparr>t_bookings := bs\<rparr>) = accepted_on db"
  by (intro ext) (simp add: accepted_on_def GetAcceptedHosts_def)

lemma clash_append [simp]: "clash (db\<lparr>t_bookings := bs\<rparr>) = clash db"
  by (intro ext) (simp add: clash_def)

lemma accepted_hosts_link: "accepted_on db (ln_id l) u \<Longrightarrow> hosts_link db u l"
  by (auto simp: accepted_on_def GetAcceptedHosts_def hosts_link_def list_ex_iff)

lemma busy_row_of_clash:
  assumes "bookings_fk db" "a \<in> set (t_bookings db)" "live_booking a" "accepted_on db (bk_link a) u"
    "ns (bk_start a) < ns we" "ns ws < ns (bk_end a)"
  shows "a \<in> set (busy_rows db u ws we)"
proof -
  obtain l where l: "l \<in> set (t_links db)" "ln_id l = bk_link a"
    using assms(1,2) by (auto simp: bookings_fk_def list_all_iff list_ex_iff)
  then have "hosts_link db u l" using accepted_hosts_link [of db l u] assms(4) by simp
  then show ?thesis using assms l by (auto simp: busy_rows_def time_cmp_defs list_ex_iff)
qed

lemma find_link_row: "find_link rq sv = Inr link \<Longrightarrow> \<exists>l \<in> set (t_links (sv_db sv)). ln_id l = ln_id link"
  by (auto simp: find_link_def GetSchedulingLinkBySlug_def with_uses_def find_Some_iff split: if_splits option.splits)

text \<open>A booked slot does not clash with any booking there is.\<close>

lemma booked_slot_free:
  assumes slot: "booking_slot tzdb cal rq link st en dur sv = Inr s"
    and fk: "bookings_fk (sv_db sv)" and a: "a \<in> set (t_bookings (sv_db sv))"
    and row: "bk_link row = ln_id link" "bk_start row = sl_start s" "bk_end row = sl_end s"
  shows "\<not> clash (sv_db sv) a row"
proof
  assume c: "clash (sv_db sv) a row"
  obtain loc offered where
    off: "offeredSlots (rq_cut rq 0) (req_reads rq sv) cal link loc (calendarDay st loc) dur (rq_now rq) = Inr offered"
    and s: "s \<in> set offered"
    using slot by (rule booking_slot_Inr)
  obtain ws we ok where win: "LinkWindow link (calendarDay st loc) = (ws, we, ok)"
    by (cases "LinkWindow link (calendarDay st loc)")
  obtain c hosts where grid: "c \<in> set (GridSlots link (calendarDay st loc) dur)" and sc: "s = utc_slot c"
    and hosts: "rd_hosts (req_reads rq sv) (ln_id link) = Inr hosts"
    and free: "list_all (host_free (req_reads rq sv) cal link ws we c) hosts"
    using offeredSlots_sound [OF off s win] by blast
  note w = GridSlots_window [OF win grid]
  obtain u where u: "accepted_on (sv_db sv) (bk_link a) u" "accepted_on (sv_db sv) (ln_id link) u"
    using c row(1) by (auto simp: clash_def)
  then obtain h where h: "h \<in> set hosts" "lh_user h = u"
    using req_reads_hosts [OF hosts] by (auto simp: accepted_on_def list_ex_iff)
  have ov: "ns (bk_start a) < ns (sl_end c)" "ns (sl_start c) < ns (bk_end a)" "live_booking a"
    using c row(2,3) sc by (auto simp: clash_def time_cmp_defs)
  have "a \<in> set (busy_rows (sv_db sv) u ws we)"
    using busy_row_of_clash [OF fk a ov(3) u(1)] ov w by simp
  moreover obtain busy where busy: "hostBusy (req_reads rq sv) cal link ws we u = Inr busy"
    "\<not> overlapsMerged (slot_ivl c) busy"
  proof -
    have "host_free (req_reads rq sv) cal link ws we c h" using free h(1) by (simp add: list_all_iff)
    then show ?thesis using h(2) that by (auto simp: host_free_def split: sum.splits)
  qed
  ultimately have "ivl (bk_start a) (bk_end a) \<in> set busy" using req_reads_bookings by blast
  then have "overlapsMerged (slot_ivl c) busy"
    unfolding overlapsMerged_iff using ov by (intro bexI [of _ "ivl (bk_start a) (bk_end a)"]) (simp_all add: slot_ivl_def)
  then show False using busy(2) by simp
qed

lemma createBooking_no_double:
  assumes "createBooking tzdb cal rq body sv = (sv', rsp)" "no_double (sv_db sv)" "bookings_fk (sv_db sv)"
  shows "no_double (sv_db sv') \<and> bookings_fk (sv_db sv')"
  using assms(1)
proof (cases rule: createBooking_cases)
  case answered
  then show ?thesis using assms(2,3) by simp
next
  case (booked sv1 link b st en dur s row hs)
  have db1: "sv_db sv1 = sv_db sv" using booked(2) by simp
  have "\<not> clash (sv_db sv) a row" if "a \<in> set (t_bookings (sv_db sv))" for a
    using booked_slot_free [OF booked(5), of a row] that assms(3) booked(7) db1 by simp
  then have "no_double (sv_db sv')"
    using assms(2) unfolding booked(8) by (simp add: no_double_def sorted_wrt_append)
  moreover have "bookings_fk (sv_db sv')"
    using assms(3) find_link_row [OF booked(3)] db1 booked(7) unfolding booked(8)
    by (auto simp: bookings_fk_def list_all_iff list_ex_iff)
  ultimately show ?thesis ..
qed

fun book_all :: "(string \<Rightarrow> location option) \<Rightarrow> (nat \<Rightarrow> calendars) \<Rightarrow> (request \<times> booking_body option) list \<Rightarrow> nat \<Rightarrow> server \<Rightarrow> server" where
  "book_all tzdb cal [] i sv = sv"
| "book_all tzdb cal ((rq, body) # rs) i sv = book_all tzdb cal rs (Suc i) (fst (createBooking tzdb (cal i) rq body sv))"

lemma book_all_no_double:
  "no_double (sv_db sv) \<Longrightarrow> bookings_fk (sv_db sv) \<Longrightarrow> no_double (sv_db (book_all tzdb cal rs i sv))"
proof (induction tzdb cal rs i sv rule: book_all.induct)
  case (2 tzdb cal rq body rs i sv)
  have "no_double (sv_db (fst (createBooking tzdb (cal i) rq body sv))) \<and>
        bookings_fk (sv_db (fst (createBooking tzdb (cal i) rq body sv)))"
    by (rule createBooking_no_double [OF prod.collapse [symmetric] "2.prems"])
  then show ?case using "2.IH" by simp
qed simp

subsection \<open>An offered slot can be booked\<close>

lemma limiter_irrelevant [simp]:
  "find_link rq (sv\<lparr>sv_create_limiter := l\<rparr>) = find_link rq sv"
  "req_zone rq (sv\<lparr>sv_create_limiter := l\<rparr>) u = req_zone rq sv u"
  "req_reads rq (sv\<lparr>sv_create_limiter := l\<rparr>) = req_reads rq sv"
  "req_hosts rq (sv\<lparr>sv_create_limiter := l\<rparr>) u = req_hosts rq sv u"
  by (simp_all add: find_link_def req_zone_def req_reads_def req_hosts_def cong: option.case_cong)

lemma booking_slot_limiter [simp]:
  "booking_slot tzdb cal rq link st en dur (sv\<lparr>sv_create_limiter := l\<rparr>) = booking_slot tzdb cal rq link st en dur sv"
proof -
  have "sv_db (sv\<lparr>sv_create_limiter := l\<rparr>) = sv_db sv" by simp
  then show ?thesis unfolding booking_slot_def limiter_irrelevant by presburger
qed

lemma offered_no_overlap:
  assumes link: "\<exists>l \<in> set (t_links (sv_db sv)). ln_id l = ln_id link"
    and off: "offeredSlots wascut (req_reads rq sv) cal link loc day dur now = Inr offered"
    and s: "s \<in> set offered" "ns (sl_start s) = ns st" "ns (sl_end s) = ns en"
  shows "\<not> HasOverlappingBooking (sv_db sv) (ln_id link) st en"
proof
  assume "HasOverlappingBooking (sv_db sv) (ln_id link) st en"
  then obtain a where a: "a \<in> set (t_bookings (sv_db sv))" "bk_link a = ln_id link" "live_booking a"
    "ns (bk_start a) < ns en" "ns st < ns (bk_end a)"
    by (auto simp: HasOverlappingBooking_def list_ex_iff time_cmp_defs)
  obtain ws we ok where win: "LinkWindow link day = (ws, we, ok)" by (cases "LinkWindow link day")
  obtain c hosts where grid: "c \<in> set (GridSlots link day dur)" and sc: "s = utc_slot c"
    and hosts: "rd_hosts (req_reads rq sv) (ln_id link) = Inr hosts" "hosts \<noteq> []"
    and free: "list_all (host_free (req_reads rq sv) cal link ws we c) hosts"
    using offeredSlots_sound [OF off s(1) win] by blast
  note w = GridSlots_window [OF win grid]
  have cst: "ns (sl_start c) = ns st" "ns (sl_end c) = ns en" using s sc by simp_all
  obtain h where h: "h \<in> set hosts" using hosts(2) by (cases hosts) auto
  have acc: "accepted_on (sv_db sv) (ln_id link) (lh_user h)"
    using h req_reads_hosts [OF hosts(1)] by (auto simp: accepted_on_def list_ex_iff)
  obtain l where l: "l \<in> set (t_links (sv_db sv))" "ln_id l = ln_id link" using link by blast
  have "hosts_link (sv_db sv) (lh_user h) l" using accepted_hosts_link [of "sv_db sv" l] acc l by simp
  then have "a \<in> set (busy_rows (sv_db sv) (lh_user h) ws we)"
    using a l w cst by (auto simp: busy_rows_def time_cmp_defs list_ex_iff)
  moreover have "host_free (req_reads rq sv) cal link ws we c h" using free h by (simp add: list_all_iff)
  then obtain busy where busy: "hostBusy (req_reads rq sv) cal link ws we (lh_user h) = Inr busy"
    "\<not> overlapsMerged (slot_ivl c) busy" by (auto simp: host_free_def split: sum.splits)
  ultimately have "ivl (bk_start a) (bk_end a) \<in> set busy" using req_reads_bookings by blast
  then have "overlapsMerged (slot_ivl c) busy"
    unfolding overlapsMerged_iff using a cst by (intro bexI [of _ "ivl (bk_start a) (bk_end a)"]) (simp_all add: slot_ivl_def)
  then show False using busy(2) by simp
qed

lemma offered_not_cheap:
  assumes "offeredSlots wascut reads cal link loc (calendarDay st loc) dur now = Inr offered"
    "s \<in> set offered" "ns (sl_start s) = ns st" "ns (sl_end s) = ns en"
  shows "cheapRefusal link loc st en dur now = None"
proof -
  obtain ws we ok where win: "LinkWindow link (calendarDay st loc) = (ws, we, ok)"
    by (cases "LinkWindow link (calendarDay st loc)")
  obtain c where c: "c \<in> set (GridSlots link (calendarDay st loc) dur)" "s = utc_slot c"
    "inHorizon link (calendarDay now loc) (calendarDay st loc)" "linkOpenOn link (calendarDay st loc)"
    "ns (earliest_start link now) \<le> ns (sl_start c)"
    using offeredSlots_sound [OF assms(1,2) win] by blast
  have "slot_at st en c" using assms(3,4) c(2) by (simp add: slot_at_def EqualT_def)
  then have "list_ex (slot_at st en) (GridSlots link (calendarDay st loc) dur)" using c(1) by (auto simp: list_ex_iff)
  then show ?thesis
    using c assms(3) by (auto simp: cheapRefusal_def Let_def inHorizon_def time_cmp_defs)
qed

lemma booking_slot_offered:
  assumes "find_link rq sv = Inr link" "linkLocation tzdb (req_zone rq sv (ln_owner link)) = Inr loc" "\<not> rq_overlap_fails rq"
    and off: "offeredSlots (rq_cut rq 0) (req_reads rq sv) cal link loc (calendarDay st loc) dur (rq_now rq) = Inr offered"
    and s: "s \<in> set offered" "slot_at st en s"
  shows "\<exists>s'. booking_slot tzdb cal rq link st en dur sv = Inr s' \<and> slot_at st en s'"
proof -
  have eq: "ns (sl_start s) = ns st" "ns (sl_end s) = ns en" using s(2) by (simp_all add: slot_at_def EqualT_def)
  have "cheapRefusal link loc st en dur (rq_now rq) = None" using offered_not_cheap [OF off s(1) eq] .
  moreover have "\<not> HasOverlappingBooking (sv_db sv) (ln_id link) st en"
    using offered_no_overlap [OF find_link_row [OF assms(1)] off s(1) eq] .
  moreover obtain s' where "find (slot_at st en) offered = Some s'"
    using s by (metis find_None_iff option.exhaust)
  moreover then have "slot_at st en s'" by (auto simp: find_Some_iff)
  ultimately show ?thesis using assms(2,3) off by (simp add: booking_slot_def)
qed

lemma ConfirmBooking_saves:
  assumes "\<not> wascut" "hosts = Inr hs" "\<And>h. h \<in> set hs \<Longrightarrow> \<exists>evs. cal (lh_user h) st en = Inr evs"
    "ie_conn ie = ConnOk" "ie_commit ie" "ie_insert_error ie = None"
  shows "\<exists>db' row. ConfirmBooking wascut hosts cal ie link n e st en notes db = (db', Inr row)"
proof -
  let ?f = "\<lambda>h. case cal (lh_user h) st en of Inl _ \<Rightarrow> True | Inr _ \<Rightarrow> False"
  have "\<not> ?f h" if "h \<in> set hs" for h using assms(3) [OF that] by auto
  then have "\<not> list_ex (\<lambda>x. x) (map (\<lambda>i. ?f (hs ! i)) [0..<length hs])" by (auto simp: list_ex_iff)
  then show ?thesis
    using assms by (simp add: ConfirmBooking_def run_items_def CreateBooking_def Let_def)
qed

lemma createBooking_offered:
  assumes limit: "take_req (rq_at rq) (rq_key rq) (sv_create_limiter sv) = (lim, True, wait)"
    and link: "find_link rq sv = Inr link" "read_body link body = Inr (b, st, en, dur)"
      "linkLocation tzdb (req_zone rq sv (ln_owner link)) = Inr loc"
    and off: "offeredSlots (rq_cut rq 0) (req_reads rq sv) cal link loc (calendarDay st loc) dur (rq_now rq) = Inr offered"
      "s \<in> set offered" "slot_at st en s"
    and run: "\<not> rq_overlap_fails rq" "rq_hosts_fail rq = None" "\<not> rq_cut rq 1"
      "\<And>h a b. h \<in> set (GetAcceptedHosts (sv_db sv) (ln_id link)) \<Longrightarrow> \<exists>evs. cal (lh_user h) a b = Inr evs"
      "ie_conn (rq_insert rq) = ConnOk" "ie_commit (rq_insert rq)" "ie_insert_error (rq_insert rq) = None"
  shows "rs_status (snd (createBooking tzdb cal rq body sv)) = 201 \<and>
     (\<exists>row. sv_db (fst (createBooking tzdb cal rq body sv)) = (sv_db sv)\<lparr>t_bookings := t_bookings (sv_db sv) @ [row]\<rparr> \<and>
        bk_link row = ln_id link \<and> EqualT (bk_start row) st \<and> EqualT (bk_end row) en \<and> bk_status row = ''confirmed'' \<and>
        bk_name row = bb_name b \<and> bk_email row = bb_email b)"
proof -
  obtain s' where s': "booking_slot tzdb cal rq link st en dur sv = Inr s'"
    using booking_slot_offered [OF link(1,3) run(1) off] by blast
  let ?sv = "sv\<lparr>sv_create_limiter := lim\<rparr>"
  have "req_hosts rq sv (ln_id link) = Inr (GetAcceptedHosts (sv_db sv) (ln_id link))"
    using run(2) by (simp add: req_hosts_def)
  moreover have "\<exists>evs. cal (lh_user h) (sl_start s') (sl_end s') = Inr evs"
    if "h \<in> set (GetAcceptedHosts (sv_db sv) (ln_id link))" for h using run(4) [OF that] .
  ultimately have "\<exists>db' row. ConfirmBooking (rq_cut rq 1) (req_hosts rq sv (ln_id link)) cal (rq_insert rq) link
      (bb_name b) (bb_email b) (sl_start s') (sl_end s') (bb_notes b) (sv_db sv) = (db', Inr row)"
    using run(3,5-7) by (intro ConfirmBooking_saves) auto
  then have created: "rs_status (snd (createBooking tzdb cal rq body sv)) = 201"
    using limit link(1,2) s' by (auto simp: createBooking_def Let_def confirmation_def)
  obtain sv' rsp where run: "createBooking tzdb cal rq body sv = (sv', rsp)" by fastforce
  from run show ?thesis
  proof (cases rule: createBooking_cases)
    case answered
    then show ?thesis using created run by simp
  next
    case (booked sv1 link' b' st' en' dur' s1 row hs)
    have "find_link rq sv1 = find_link rq sv" unfolding booked(2) by (simp add: find_link_def)
    then have "link' = link" using booked(3) link(1) by simp
    then have "b' = b" "st' = st" "en' = en" using booked(4) link(2) by simp_all
    then have "ns (sl_start s1) = ns st" "ns (sl_end s1) = ns en" using booked(5) by (auto elim: booking_slot_Inr)
    then show ?thesis using booked(7,8) created run \<open>link' = link\<close> \<open>b' = b\<close> by (auto simp: EqualT_def)
  qed
qed

subsection \<open>The reason given\<close>

lemma booking_slot_refusal:
  assumes "booking_slot tzdb cal rq link st en dur sv = Inl rsp" "rs_status rsp = 409"
  obtains loc r where "linkLocation tzdb (req_zone rq sv (ln_owner link)) = Inr loc" "rsp = writeRefusal link r"
    "applies cal rq link loc st en dur sv r"
    "\<And>r'. applies cal rq link loc st en dur sv r' \<Longrightarrow> r \<le> r'"
proof (cases "linkLocation tzdb (req_zone rq sv (ln_owner link))")
  case (Inl e)
  then show ?thesis using assms by (auto simp: booking_slot_def writeServerError_def writeError_def)
next
  case loc: (Inr loc)
  show ?thesis
  proof (cases "cheapRefusal link loc st en dur (rq_now rq)")
    case (Some r)
    then have "rsp = writeRefusal link r" using assms(1) loc by (simp add: booking_slot_def)
    then show ?thesis
      using Some that [OF loc] unfolding cheapRefusal_first [of link loc st en dur rq r cal sv] by blast
  next
    case None
    have later: "\<not> applies cal rq link loc st en dur sv r" if "r \<le> TooSoon" for r
      using None that by (cases r) (auto simp: cheapRefusal_def applies_def Let_def split: if_splits)
    show ?thesis
    proof (cases "HasOverlappingBooking (sv_db sv) (ln_id link) st en")
      case True
      then have "rsp = writeRefusal link Taken"
        using assms loc None by (auto simp: booking_slot_def writeServerError_def writeError_def split: if_splits)
      moreover have "applies cal rq link loc st en dur sv Taken" using True by (simp add: applies_def)
      moreover have "Taken \<le> r'" if "applies cal rq link loc st en dur sv r'" for r'
        using later [of r'] that by (cases r') (auto simp: less_eq_refusal_def refusal_rank_def)
      ultimately show ?thesis using that [OF loc] by blast
    next
      case False
      obtain offered where off: "offeredSlots (rq_cut rq 0) (req_reads rq sv) cal link loc (calendarDay st loc) dur (rq_now rq) = Inr offered"
        and none: "find (slot_at st en) offered = None" and rsp: "rsp = writeRefusal link HostBusy"
        using assms loc None False
        by (auto simp: booking_slot_def writeServerError_def writeError_def split: if_splits sum.splits option.splits)
      have "applies cal rq link loc st en dur sv HostBusy"
        using off none by (auto simp: applies_def find_None_iff list_ex_iff)
      moreover have "HostBusy \<le> r'" if "applies cal rq link loc st en dur sv r'" for r'
        using later [of r'] that False by (cases r') (auto simp: less_eq_refusal_def refusal_rank_def applies_def)
      ultimately show ?thesis using that [OF loc rsp] by blast
    qed
  qed
qed

subsection \<open>Two bookings at once\<close>


subsection \<open>An example server\<close>

text \<open>One link, open every day from 09:00 to 10:00 UTC for 30 minutes, with one accepted host.\<close>

definition ex_link :: SchedulingLink where
  "ex_link = \<lparr>ln_id = 1, ln_owner = 7, ln_slug = ''intro'', ln_title = ''Intro'', ln_durations = [30],
     ln_days = [0, 1, 2, 3, 4, 5, 6], ln_window_start = ''09:00'', ln_window_end = ''10:00'',
     ln_buffer_before = 0, ln_buffer_after = 0, ln_min_notice = 60, ln_usage_type = ''reusable'', ln_max_uses = None,
     ln_uses_count = 0, ln_active = True, ln_created_at = 0, ln_horizon_days = 60, ln_refusal_message = ''specific''\<rparr>"

definition ex_db :: link_db where
  "ex_db = \<lparr>t_links = [ex_link], t_hosts = [\<lparr>lh_id = 2, lh_link = 1, lh_user = 7, lh_status = ''accepted'',
     lh_invited_at = 0, lh_responded_at = None\<rparr>], t_bookings = [], t_events = []\<rparr>"

definition ex_server :: server where
  "ex_server = \<lparr>sv_db = ex_db, sv_focus = [], sv_settings = [], sv_users = [],
     sv_create_limiter = bookingCreateLimiter, sv_slots_limiter = bookingSlotsLimiter\<rparr>"

definition ex_insert :: "nat \<Rightarrow> insert_env" where
  "ex_insert i = \<lparr>ie_conn = ConnOk, ie_commit = True, ie_insert_error = None, ie_id = i, ie_now = 0\<rparr>"

definition ex_request :: request where
  "ex_request = \<lparr>rq_key = ''203.0.113.9'', rq_at = 0, rq_now = \<lparr>ns = 0, tloc = UTC\<rparr>, rq_slug = ''intro'',
     rq_link_fails = False, rq_has_token = (\<lambda>_. False), rq_zone_fails = None, rq_overlap_fails = False, rq_listing_fails = None,
     rq_focus_fails = (\<lambda>_. None), rq_bookings_fail = (\<lambda>_. None), rq_hosts_fail = None,
     rq_cut = (\<lambda>_. False), rq_ended = (\<lambda>_. False), rq_insert = ex_insert 9\<rparr>"

definition ex_body :: "string \<Rightarrow> booking_body" where
  "ex_body st = \<lparr>bb_name = ''Ada'', bb_email = ''ada@example.org'', bb_start = st, bb_end = '''', bb_notes = '''',
     bb_duration = None, bb_duration_minutes = None\<rparr>"

definition ex_calendars :: calendars where "ex_calendars = (\<lambda>u a b. Inr [])"
definition ex_tzdb :: "string \<Rightarrow> location option" where "ex_tzdb = (\<lambda>_. None)"

definition ex_start :: gotime where "ex_start = \<lparr>ns = 32400 * sec_ns, tloc = UTC\<rparr>"
definition ex_end :: gotime where "ex_end = \<lparr>ns = 34200 * sec_ns, tloc = UTC\<rparr>"
definition ex_slot :: slot where "ex_slot = \<lparr>sl_start = ex_start, sl_end = ex_end\<rparr>"

lemma ex_offered:
  "offeredSlots False (req_reads ex_request ex_server) ex_calendars ex_link UTC (calendarDay ex_start UTC) 30 (rq_now ex_request) =
   Inr [ex_slot, \<lparr>sl_start = \<lparr>ns = 33300 * sec_ns, tloc = UTC\<rparr>, sl_end = \<lparr>ns = 35100 * sec_ns, tloc = UTC\<rparr>\<rparr>,
        \<lparr>sl_start = \<lparr>ns = 34200 * sec_ns, tloc = UTC\<rparr>, sl_end = \<lparr>ns = 36000 * sec_ns, tloc = UTC\<rparr>\<rparr>]"
  by code_simp

lemma ex_created: "rs_status (snd (createBooking ex_tzdb ex_calendars ex_request (Some (ex_body ''1970-01-01T09:00:00Z'')) ex_server)) = 201"
  by code_simp

lemma ex_refused: "rs_status (snd (createBooking ex_tzdb ex_calendars ex_request (Some (ex_body ''1970-01-01T09:05:00Z'')) ex_server)) = 409"
  by code_simp


subsection \<open>Properties\<close>

text \<open>
  C1. A 201 answers a request whose start and end are, as instants, exactly a slot the
  offerable-start rule offers in the state the request found, in the zone of the link's
  owner; and the only change to the tables is one confirmed booking of that slot, on that
  link, with the booker's trimmed name and address.
\<close>

theorem booking_saved_was_offered:
  assumes "createBooking tzdb cal rq body sv = (sv', rsp)" "rs_status rsp = 201"
  shows "\<exists>link b st en dur loc offered s row.
     find_link rq sv = Inr link \<and> read_body link body = Inr (b, st, en, dur) \<and>
     linkLocation tzdb (req_zone rq sv (ln_owner link)) = Inr loc \<and>
     offeredSlots (rq_cut rq 0) (req_reads rq sv) cal link loc (calendarDay st loc) dur (rq_now rq) = Inr offered \<and>
     s \<in> set offered \<and> EqualT (sl_start s) st \<and> EqualT (sl_end s) en \<and>
     bk_link row = ln_id link \<and> bk_start row = sl_start s \<and> bk_end row = sl_end s \<and> bk_status row = ''confirmed'' \<and>
     bk_name row = bb_name b \<and> bk_email row = bb_email b \<and>
     sv_db sv' = (sv_db sv)\<lparr>t_bookings := t_bookings (sv_db sv) @ [row]\<rparr>"
  using assms(1)
proof (cases rule: createBooking_cases)
  case (booked sv1 link b st en dur s row hs)
  have "booking_slot tzdb cal rq link st en dur sv = Inr s" "find_link rq sv = Inr link" using booked by simp_all
  then obtain loc offered where
    "linkLocation tzdb (req_zone rq sv (ln_owner link)) = Inr loc"
    "offeredSlots (rq_cut rq 0) (req_reads rq sv) cal link loc (calendarDay st loc) dur (rq_now rq) = Inr offered"
    "s \<in> set offered" "EqualT (sl_start s) st" "EqualT (sl_end s) en"
    by (elim booking_slot_Inr) (simp add: EqualT_def)
  moreover have "bk_link row = ln_id link" "bk_start row = sl_start s" "bk_end row = sl_end s" "bk_status row = ''confirmed''"
    "bk_name row = bb_name b" "bk_email row = bb_email b" using booked(7) by simp_all
  ultimately show ?thesis using \<open>find_link rq sv = Inr link\<close> booked(4,8) by blast
qed (use assms(2) in simp)

theorem booking_saved_was_offered_witness:
  "\<exists>link b st en dur loc offered s row.
     find_link ex_request ex_server = Inr link \<and> read_body link (Some (ex_body ''1970-01-01T09:00:00Z'')) = Inr (b, st, en, dur) \<and>
     linkLocation ex_tzdb (req_zone ex_request ex_server (ln_owner link)) = Inr loc \<and>
     offeredSlots (rq_cut ex_request 0) (req_reads ex_request ex_server) ex_calendars link loc (calendarDay st loc) dur (rq_now ex_request) = Inr offered \<and>
     s \<in> set offered \<and> EqualT (sl_start s) st \<and> EqualT (sl_end s) en \<and>
     bk_link row = ln_id link \<and> bk_start row = sl_start s \<and> bk_end row = sl_end s \<and> bk_status row = ''confirmed'' \<and>
     bk_name row = bb_name b \<and> bk_email row = bb_email b \<and>
     sv_db (fst (createBooking ex_tzdb ex_calendars ex_request (Some (ex_body ''1970-01-01T09:00:00Z'')) ex_server)) =
       (sv_db ex_server)\<lparr>t_bookings := t_bookings (sv_db ex_server) @ [row]\<rparr>"
  by (rule booking_saved_was_offered [OF prod.collapse [symmetric] ex_created])

text \<open>
  C4. Every answer other than the 201 (rate limit, unknown or used-up link, bad body,
  refusal, unreadable calendar, storage failure, budget) leaves links, hosts, bookings and
  events, focus blocks and settings exactly as they were.
\<close>

theorem booking_refused_writes_nothing:
  assumes "createBooking tzdb cal rq body sv = (sv', rsp)" "rs_status rsp \<noteq> 201"
  shows "sv_db sv' = sv_db sv \<and> sv_focus sv' = sv_focus sv \<and> sv_settings sv' = sv_settings sv"
proof -
  have "sv_focus sv' = sv_focus sv \<and> sv_settings sv' = sv_settings sv"
    using assms(1) by (auto simp: createBooking_def Let_def split: prod.splits if_splits sum.splits)
  moreover have "sv_db sv' = sv_db sv" using assms(1) by (cases rule: createBooking_cases) (use assms(2) in auto)
  ultimately show ?thesis by simp
qed

theorem booking_refused_writes_nothing_witness:
  "sv_db (fst (createBooking ex_tzdb ex_calendars ex_request (Some (ex_body ''1970-01-01T09:05:00Z'')) ex_server)) = ex_db"
  using booking_refused_writes_nothing [OF prod.collapse [symmetric],
      of ex_tzdb ex_calendars ex_request "Some (ex_body ''1970-01-01T09:05:00Z'')" ex_server] ex_refused
  by (simp add: ex_server_def)

text \<open>
  C2. Requests handled one after the other, in any number and on any links, never
  double-book a host: if no two live bookings on links with a common accepted host overlap
  before, none do after. The hosts' calendars may answer anything at each request.
\<close>

theorem no_double_booking:
  assumes "no_double (sv_db sv)" "bookings_fk (sv_db sv)"
  shows "no_double (sv_db (book_all tzdb cal rs 0 sv))"
  using assms by (rule book_all_no_double)

theorem no_double_booking_witness:
  "no_double (sv_db (book_all ex_tzdb (\<lambda>i. ex_calendars)
     [(ex_request, Some (ex_body ''1970-01-01T09:00:00Z'')), (ex_request, Some (ex_body ''1970-01-01T09:15:00Z''))] 0 ex_server))"
  by (rule no_double_booking) (simp_all add: ex_server_def ex_db_def no_double_def bookings_fk_def)

text \<open>
  C3. A slot the rule offers can be booked: when the client is within its limit, the
  reads work, every accepted host's calendar is still readable, and the insert goes
  through, the answer is the 201 and the tables gain exactly a confirmed booking of the requested
  start and end on the link, with the booker's name and address. Listing and booking agree.
\<close>

theorem offered_slot_is_bookable:
  assumes "take_req (rq_at rq) (rq_key rq) (sv_create_limiter sv) = (lim, True, wait)"
    and "find_link rq sv = Inr link" "read_body link body = Inr (b, st, en, dur)"
      "linkLocation tzdb (req_zone rq sv (ln_owner link)) = Inr loc"
    and "offeredSlots (rq_cut rq 0) (req_reads rq sv) cal link loc (calendarDay st loc) dur (rq_now rq) = Inr offered"
      "s \<in> set offered" "slot_at st en s"
    and "\<not> rq_overlap_fails rq" "rq_hosts_fail rq = None" "\<not> rq_cut rq 1"
      "\<And>h a b. h \<in> set (GetAcceptedHosts (sv_db sv) (ln_id link)) \<Longrightarrow> \<exists>evs. cal (lh_user h) a b = Inr evs"
      "ie_conn (rq_insert rq) = ConnOk" "ie_commit (rq_insert rq)" "ie_insert_error (rq_insert rq) = None"
  shows "rs_status (snd (createBooking tzdb cal rq body sv)) = 201 \<and>
     (\<exists>row. sv_db (fst (createBooking tzdb cal rq body sv)) = (sv_db sv)\<lparr>t_bookings := t_bookings (sv_db sv) @ [row]\<rparr> \<and>
        bk_link row = ln_id link \<and> EqualT (bk_start row) st \<and> EqualT (bk_end row) en \<and> bk_status row = ''confirmed'' \<and>
        bk_name row = bb_name b \<and> bk_email row = bb_email b)"
  by (rule createBooking_offered) (fact assms)+

lemma ex_request_parts:
  "snd (take_req (rq_at ex_request) (rq_key ex_request) (sv_create_limiter ex_server)) = (True, 0)"
  "find_link ex_request ex_server = Inr ex_link"
  "read_body ex_link (Some (ex_body ''1970-01-01T09:00:00Z'')) =
     Inr (ex_body ''1970-01-01T09:00:00Z'', ex_start, ex_end, 30)"
  "linkLocation ex_tzdb (req_zone ex_request ex_server (ln_owner ex_link)) = Inr UTC"
  "rq_cut ex_request 0 = False" "\<not> rq_overlap_fails ex_request" "rq_hosts_fail ex_request = None" "\<not> rq_cut ex_request 1"
  "ie_conn (rq_insert ex_request) = ConnOk" "ie_commit (rq_insert ex_request)" "ie_insert_error (rq_insert ex_request) = None"
  by code_simp+

theorem offered_slot_is_bookable_witness:
  "rs_status (snd (createBooking ex_tzdb ex_calendars ex_request (Some (ex_body ''1970-01-01T09:00:00Z'')) ex_server)) = 201 \<and>
   (\<exists>row. t_bookings (sv_db (fst (createBooking ex_tzdb ex_calendars ex_request (Some (ex_body ''1970-01-01T09:00:00Z'')) ex_server))) = [row] \<and>
      EqualT (bk_start row) ex_start \<and> EqualT (bk_end row) ex_end)"
proof -
  let ?lim = "fst (take_req (rq_at ex_request) (rq_key ex_request) (sv_create_limiter ex_server))"
  have "rs_status (snd (createBooking ex_tzdb ex_calendars ex_request (Some (ex_body ''1970-01-01T09:00:00Z'')) ex_server)) = 201 \<and>
     (\<exists>row. sv_db (fst (createBooking ex_tzdb ex_calendars ex_request (Some (ex_body ''1970-01-01T09:00:00Z'')) ex_server)) =
        (sv_db ex_server)\<lparr>t_bookings := t_bookings (sv_db ex_server) @ [row]\<rparr> \<and> bk_link row = ln_id ex_link \<and> EqualT (bk_start row) ex_start \<and>
        EqualT (bk_end row) ex_end \<and> bk_status row = ''confirmed'' \<and> bk_name row = bb_name (ex_body ''1970-01-01T09:00:00Z'') \<and>
        bk_email row = bb_email (ex_body ''1970-01-01T09:00:00Z''))"
  proof (rule offered_slot_is_bookable [OF _ ex_request_parts(2-4)])
  show "take_req (rq_at ex_request) (rq_key ex_request) (sv_create_limiter ex_server) =
     (fst (take_req (rq_at ex_request) (rq_key ex_request) (sv_create_limiter ex_server)), True, 0)"
    using ex_request_parts(1) by (metis prod.collapse)
  show "offeredSlots (rq_cut ex_request 0) (req_reads ex_request ex_server) ex_calendars ex_link UTC (calendarDay ex_start UTC) 30
      (rq_now ex_request) = Inr [ex_slot, \<lparr>sl_start = \<lparr>ns = 33300 * sec_ns, tloc = UTC\<rparr>, sl_end = \<lparr>ns = 35100 * sec_ns, tloc = UTC\<rparr>\<rparr>,
        \<lparr>sl_start = \<lparr>ns = 34200 * sec_ns, tloc = UTC\<rparr>, sl_end = \<lparr>ns = 36000 * sec_ns, tloc = UTC\<rparr>\<rparr>]"
    unfolding ex_request_parts(5) by (rule ex_offered)
  show "slot_at ex_start ex_end ex_slot" by (simp add: slot_at_def ex_slot_def EqualT_def)
  qed (use ex_request_parts in \<open>simp_all add: ex_calendars_def\<close>)
  then show ?thesis by (auto simp: ex_server_def ex_db_def)
qed

text \<open>
  C5. A 409 of the rule names the first reason that holds, in the order beyond the horizon,
  outside days or hours, too soon, already booked, host busy (the order of \<open>refusal\<close>): the
  reason holds, and none before it does.
\<close>

theorem refusal_gives_first_reason:
  assumes "booking_slot tzdb cal rq link st en dur sv = Inl rsp" "rs_status rsp = 409"
  shows "\<exists>loc r. linkLocation tzdb (req_zone rq sv (ln_owner link)) = Inr loc \<and> rsp = writeRefusal link r \<and>
     applies cal rq link loc st en dur sv r \<and> (\<forall>r'. applies cal rq link loc st en dur sv r' \<longrightarrow> r \<le> r')"
  by (rule booking_slot_refusal [OF assms]) blast

theorem refusal_gives_first_reason_witness:
  "\<exists>loc r. linkLocation ex_tzdb (req_zone ex_request ex_server (ln_owner ex_link)) = Inr loc \<and>
     writeRefusal ex_link OutsideLinkHours = writeRefusal ex_link r \<and>
     applies ex_calendars ex_request ex_link loc ex_end ex_start 30 ex_server r \<and>
     (\<forall>r'. applies ex_calendars ex_request ex_link loc ex_end ex_start 30 ex_server r' \<longrightarrow> r \<le> r')"
proof (rule refusal_gives_first_reason)
  show "booking_slot ex_tzdb ex_calendars ex_request ex_link ex_end ex_start 30 ex_server = Inl (writeRefusal ex_link OutsideLinkHours)"
    by code_simp
qed simp






end
