(* ===== verification/LinkHandlers.thy ===== *)
theory LinkHandlers
  imports BookingRule
begin

section \<open>LinkHandlers: the owner's and co-hosts' routes\<close>

text \<open>
  \<^verbatim>\<open>backend/api/handlers_scheduling_links.go\<close>: reading and validating a link, creating,
  changing, listing and deleting links, and the co-host invitations. A handler maps the
  signed-in request and the server's state to the new state and the answer; the request
  carries which storage calls fail, the ids and the clock the database uses for new rows, and
  the random suffixes of generated slugs. A Go panic is the answer \<open>Panic\<close>.
\<close>

subsection \<open>Wire records\<close>

record schedulingHostDTO =
  hd_user :: uuid
  hd_email :: string
  hd_name :: string
  hd_avatar :: string
  hd_is_owner :: bool
  hd_status :: string

record schedulingLinkDTO =
  ld_link :: SchedulingLink
  ld_days :: "string list"
  ld_hosts :: "schedulingHostDTO list"
  ld_is_owner :: bool
  ld_my_status :: string
  ld_horizon_days :: int
  ld_refusal_message :: string
  ld_usage_type :: string
  ld_time_zone :: string

record hostInviteDTO =
  hi_link :: uuid
  hi_title :: string
  hi_owner_name :: string
  hi_owner_email :: string
  hi_invited_at :: int

record schedulingLinkInput =
  in_title :: string
  in_slug :: string
  in_duration_options :: "int list option"
  in_durations :: "int list option"
  in_days_of_week :: "int list option"
  in_days :: "string list option"
  in_window_start :: string
  in_window_start_alias :: string
  in_window_end :: string
  in_window_end_alias :: string
  in_buffer_before :: int
  in_buffer_after :: int
  in_min_notice :: int
  in_usage_type :: string
  in_max_uses :: "int option"
  in_co_hosts :: "string list"
  in_horizon :: "int option"
  in_refusal :: "string option"

record schedulingLinkPatch =
  pa_title :: "string option"
  pa_slug :: "string option"
  pa_duration_options :: "int list option"
  pa_durations :: "int list option"
  pa_days_of_week :: "int list option"
  pa_days :: "string list option"
  pa_window_start :: "string option"
  pa_window_start_alias :: "string option"
  pa_window_end :: "string option"
  pa_window_end_alias :: "string option"
  pa_buffer_before :: "int option"
  pa_buffer_after :: "int option"
  pa_min_notice :: "int option"
  pa_usage_type :: "string option"
  pa_max_uses :: "int option"
  pa_active :: "bool option"
  pa_co_hosts :: "string list option"
  pa_horizon :: "int option"
  pa_refusal :: "string option"

datatype link_body =
    NoBody
  | LinkError string
  | OneLink schedulingLinkDTO
  | LinkLists "schedulingLinkDTO list" "schedulingLinkDTO list"
  | BookingList "Booking list"
  | HostRow LinkHost
  | InviteList "hostInviteDTO list"
  | HostStatus string

datatype link_answer = Answer (answer_status: int) (answer_body: link_body) | Panic

subsection \<open>Reading a link's fields\<close>

definition day_name :: "int \<Rightarrow> string option" where
  "day_name d = (if 0 \<le> d \<and> d \<le> 6 then Some ([''sun'', ''mon'', ''tue'', ''wed'', ''thu'', ''fri'', ''sat''] ! nat d) else None)"

definition dayNames :: "int list \<Rightarrow> string list" where
  "dayNames days = List.map_filter day_name days"

definition day_number :: "string \<Rightarrow> int option" where
  "day_number raw =
     (let d = ToLower (TrimSpace raw)
      in if d = ''sun'' \<or> d = ''sunday'' \<or> d = ''0'' then Some 0
         else if d = ''mon'' \<or> d = ''monday'' \<or> d = ''1'' then Some 1
         else if d = ''tue'' \<or> d = ''tuesday'' \<or> d = ''2'' then Some 2
         else if d = ''wed'' \<or> d = ''wednesday'' \<or> d = ''3'' then Some 3
         else if d = ''thu'' \<or> d = ''thursday'' \<or> d = ''4'' then Some 4
         else if d = ''fri'' \<or> d = ''friday'' \<or> d = ''5'' then Some 5
         else if d = ''sat'' \<or> d = ''saturday'' \<or> d = ''6'' then Some 6
         else None)"

definition dayNumbers :: "string list \<Rightarrow> int list" where
  "dayNumbers days = List.map_filter day_number days"

definition slug_keeps :: "char \<Rightarrow> bool" where
  "slug_keeps c \<longleftrightarrow> (97 \<le> char_code c \<and> char_code c \<le> 122) \<or> is_digit c"

text \<open>The loop of \<^verbatim>\<open>normalizeSlug\<close>: what was written, and whether it ends in a dash.\<close>

fun slug_loop :: "string \<Rightarrow> string \<Rightarrow> bool \<Rightarrow> string" where
  "slug_loop [] b lastDash = b"
| "slug_loop (c # cs) b lastDash =
     (if slug_keeps c then slug_loop cs (b @ [c]) False
      else if \<not> lastDash \<and> b \<noteq> [] then slug_loop cs (b @ ''-'') True
      else slug_loop cs b lastDash)"

definition normalizeSlug :: "string \<Rightarrow> string" where
  "normalizeSlug raw = trim_char CHR ''-'' (slug_loop (ToLower (TrimSpace raw)) [] False)"

text \<open>
  \<^verbatim>\<open>parseClock\<close> tries the layouts \<^verbatim>\<open>15:04\<close> and \<^verbatim>\<open>15:04:05\<close>; the result is the time of day as hour,
  minute and the nanoseconds beyond it.
\<close>

definition parseClock :: "string \<Rightarrow> (int \<times> int \<times> int) option" where
  "parseClock value = (let t = TrimSpace value in case parse_hm t of Some c \<Rightarrow> Some c | None \<Rightarrow> parse_hms t)"

definition clock_ns :: "int \<times> int \<times> int \<Rightarrow> int" where
  "clock_ns c = (case c of (h, m, n) \<Rightarrow> (h * 60 + m) * minute_ns + n)"

definition clock_text :: "int \<times> int \<times> int \<Rightarrow> string" where
  "clock_text c = (case c of (h, m, n) \<Rightarrow> pad2 h @ '':'' @ pad2 m)"

definition usage_of :: "SchedulingLink \<Rightarrow> string" where
  "usage_of link = (let u = ToLower (TrimSpace (ln_usage_type link)) in if u = '''' then ''reusable'' else u)"

text \<open>\<^verbatim>\<open>validateSchedulingLink\<close>: the message of the 422, or the link as it is then stored.\<close>

definition validateSchedulingLink :: "SchedulingLink \<Rightarrow> string + SchedulingLink" where
  "validateSchedulingLink link =
     (if TrimSpace (ln_title link) = '''' then Inl ''title is required''
      else if ln_durations link = [] then Inl ''at least one duration is required''
      else if list_ex (\<lambda>d. d \<le> 0) (ln_durations link) then Inl ''durations must be positive integers''
      else if ln_days link = [] then Inl ''at least one day is required''
      else if list_ex (\<lambda>d. d < 0 \<or> d > 6) (ln_days link) then Inl ''days_of_week must contain values between 0 and 6''
      else case parseClock (ln_window_start link) of
          None \<Rightarrow> Inl ''window times must use HH:MM''
        | Some st \<Rightarrow> (case parseClock (ln_window_end link) of
            None \<Rightarrow> Inl ''window times must use HH:MM''
          | Some en \<Rightarrow>
              if \<not> clock_ns st < clock_ns en then Inl ''window_start must be before window_end''
              else if ln_buffer_before link < 0 \<or> ln_buffer_after link < 0 then Inl ''buffers must be zero or positive''
              else if ln_min_notice link < 0 then Inl ''min_notice_minutes must be zero or positive''
              else let usage = usage_of link
                   in if usage \<noteq> ''reusable'' \<and> usage \<noteq> ''recurring'' \<and> usage \<noteq> ''single_use''
                      then Inl ''usage_type must be reusable, recurring, or single_use''
                      else if usage = ''recurring'' \<and> (case ln_max_uses link of None \<Rightarrow> True | Some m \<Rightarrow> m \<le> 0)
                      then Inl ''max_uses must be set to a positive integer for recurring links''
                      else if ln_horizon_days link < 1 \<or> ln_horizon_days link > 365
                      then Inl ''booking_horizon_days must be between 1 and 365''
                      else if ln_refusal_message link \<noteq> RefusalGeneric \<and> ln_refusal_message link \<noteq> RefusalSpecific
                      then Inl ''refusal_message must be generic or specific''
                      else Inr (link\<lparr>ln_usage_type := usage,
                             ln_max_uses := (if usage = ''recurring'' then ln_max_uses link else None),
                             ln_window_start := clock_text st, ln_window_end := clock_text en\<rparr>)))"

definition first_text :: "string list \<Rightarrow> string" where
  "first_text ts = (case find (\<lambda>t. t \<noteq> '''') ts of Some t \<Rightarrow> t | None \<Rightarrow> '''')"

definition normalized :: "schedulingLinkInput \<Rightarrow> string + SchedulingLink" where
  "normalized i = validateSchedulingLink \<lparr>
     ln_id = 0, ln_owner = 0, ln_slug = normalizeSlug (in_slug i), ln_title = TrimSpace (in_title i),
     ln_durations = (case in_duration_options i of Some ds \<Rightarrow> ds
        | None \<Rightarrow> (case in_durations i of Some ds \<Rightarrow> ds | None \<Rightarrow> [30])),
     ln_days = (case in_days_of_week i of Some ds \<Rightarrow> ds
        | None \<Rightarrow> (case in_days i of Some ds \<Rightarrow> dayNumbers ds | None \<Rightarrow> [1, 2, 3, 4, 5])),
     ln_window_start = first_text [in_window_start i, in_window_start_alias i, ''09:00''],
     ln_window_end = first_text [in_window_end i, in_window_end_alias i, ''17:00''],
     ln_buffer_before = in_buffer_before i, ln_buffer_after = in_buffer_after i,
     ln_min_notice = in_min_notice i, ln_usage_type = in_usage_type i, ln_max_uses = in_max_uses i,
     ln_uses_count = 0, ln_active = False, ln_created_at = 0,
     ln_horizon_days = (case in_horizon i of Some n \<Rightarrow> n | None \<Rightarrow> DefaultBookingHorizonDays),
     ln_refusal_message = (case in_refusal i of Some r \<Rightarrow> r | None \<Rightarrow> RefusalGeneric)\<rparr>"

subsection \<open>Requests\<close>

text \<open>
  A signed-in request: the caller, the id in the path (\<open>None\<close> when it does not parse), the
  calls that fail (\<open>lr_stmt_fails\<close> is the handler's own statement), and what the database and
  the random source supply.
\<close>

record link_request =
  lr_user :: uuid
  lr_id :: "uuid option"
  lr_read_fails :: bool
  lr_owner_fails :: bool
  lr_zone_fails :: "uuid \<Rightarrow> string option"
  lr_slug_fails :: bool
  lr_stmt_fails :: bool
  lr_owner_host_fails :: bool
  lr_status_fails :: bool
  lr_hosts_fail :: bool
  lr_user_fails :: "uuid \<Rightarrow> bool"
  lr_email_fails :: "string \<Rightarrow> bool"
  lr_host_write_fails :: "uuid \<Rightarrow> bool"
  lr_remove_fails :: bool
  lr_invite_link_fails :: "uuid \<Rightarrow> bool"
  lr_now :: int
  lr_new_id :: uuid
  lr_host_id :: "uuid \<Rightarrow> uuid"
  lr_random :: "nat \<Rightarrow> string"

definition fails :: "string \<Rightarrow> int \<Rightarrow> link_answer" where
  "fails msg status = Answer status (LinkError msg)"

definition server_fails :: "string \<Rightarrow> int \<Rightarrow> link_answer" where
  "server_fails op status = fails (genericServerMessage status) status"

definition zoneOf :: "(string \<Rightarrow> location option) \<Rightarrow> link_request \<Rightarrow> server \<Rightarrow> uuid \<Rightarrow> string + location" where
  "zoneOf tzdb rq sv owner = linkLocation tzdb
     (case lr_zone_fails rq owner of Some e \<Rightarrow> Inl e | None \<Rightarrow> Inr (GetUserTimezone (sv_settings sv) owner))"

definition read_user :: "link_request \<Rightarrow> server \<Rightarrow> uuid \<Rightarrow> User option" where
  "read_user rq sv u = (if lr_user_fails rq u then None else GetUserByID (sv_users sv) u)"

definition read_email :: "link_request \<Rightarrow> server \<Rightarrow> string \<Rightarrow> User option" where
  "read_email rq sv raw =
     (let e = ToLower (TrimSpace raw) in if lr_email_fails rq e then None else GetUserByEmail (sv_users sv) e)"

definition host_dto :: "link_request \<Rightarrow> server \<Rightarrow> SchedulingLink \<Rightarrow> LinkHost \<Rightarrow> schedulingHostDTO" where
  "host_dto rq sv link h =
     (let d = \<lparr>hd_user = lh_user h, hd_email = '''', hd_name = '''', hd_avatar = '''',
               hd_is_owner = (lh_user h = ln_owner link), hd_status = lh_status h\<rparr>
      in case read_user rq sv (lh_user h) of
           None \<Rightarrow> d
         | Some u \<Rightarrow> d\<lparr>hd_email := us_email u, hd_name := us_name u, hd_avatar := us_avatar u\<rparr>)"

definition roster :: "link_request \<Rightarrow> server \<Rightarrow> SchedulingLink \<Rightarrow> LinkHost list" where
  "roster rq sv link = (if lr_hosts_fail rq then [] else GetLinkHosts (sv_db sv) (ln_id link))"

definition my_status :: "uuid \<Rightarrow> LinkHost list \<Rightarrow> string" where
  "my_status viewer hosts = foldl (\<lambda>st h. if lh_user h = viewer then lh_status h else st) '''' hosts"

text \<open>
  The wire record of a link. With \<open>strict\<close> a roster that cannot be read is an error;
  without it the roster degrades.
\<close>

definition buildSchedulingLinkDTO ::
  "link_request \<Rightarrow> server \<Rightarrow> SchedulingLink \<Rightarrow> location \<Rightarrow> bool \<Rightarrow> bool \<Rightarrow> string + schedulingLinkDTO" where
  "buildSchedulingLinkDTO rq sv link loc includeHosts strict =
     (let hosts = (if includeHosts then roster rq sv link else [])
      in if includeHosts \<and> strict \<and> (lr_hosts_fail rq \<or> list_ex (\<lambda>h. read_user rq sv (lh_user h) = None) hosts)
         then Inl ''roster''
         else Inr \<lparr>ld_link = link, ld_days = dayNames (ln_days link), ld_hosts = map (host_dto rq sv link) hosts,
                   ld_is_owner = (ln_owner link = lr_user rq), ld_my_status = my_status (lr_user rq) hosts,
                   ld_horizon_days = horizonDays link,
                   ld_refusal_message = (if ln_refusal_message link = '''' then RefusalGeneric else ln_refusal_message link),
                   ld_usage_type = (if ln_usage_type link = '''' then ''reusable'' else ln_usage_type link),
                   ld_time_zone = loc_name loc\<rparr>)"

definition writeLink :: "int \<Rightarrow> link_request \<Rightarrow> server \<Rightarrow> SchedulingLink \<Rightarrow> location \<Rightarrow> link_answer" where
  "writeLink status rq sv link loc = (case buildSchedulingLinkDTO rq sv link loc True False of
      Inl e \<Rightarrow> fails e 500 | Inr dto \<Rightarrow> Answer status (OneLink dto))"

text \<open>The start of the handlers on one link: the id, the read, the missing link, the owner.\<close>

definition with_link :: "link_request \<Rightarrow> server \<Rightarrow> link_answer + uuid \<times> SchedulingLink" where
  "with_link rq sv = (case lr_id rq of
      None \<Rightarrow> Inl (fails ''invalid id'' 400)
    | Some i \<Rightarrow>
        if lr_read_fails rq then Inl (fails ''internal error'' 500)
        else case GetSchedulingLinkByID (sv_db sv) i of
            None \<Rightarrow> Inl (fails ''not found'' 404)
          | Some link \<Rightarrow> Inr (i, link))"

definition with_owned_link :: "link_request \<Rightarrow> server \<Rightarrow> link_answer + uuid \<times> SchedulingLink" where
  "with_owned_link rq sv = (case with_link rq sv of
      Inl a \<Rightarrow> Inl a
    | Inr (i, link) \<Rightarrow> if ln_owner link \<noteq> lr_user rq then Inl (fails ''forbidden'' 403) else Inr (i, link))"

subsection \<open>Handlers\<close>

definition put_db :: "link_db \<Rightarrow> server \<Rightarrow> server" where
  "put_db db sv = sv\<lparr>sv_db := db\<rparr>"

text \<open>The co-hosts of a new link: every email of a known user becomes a pending host row.\<close>

definition add_cohost :: "link_request \<Rightarrow> uuid \<Rightarrow> server \<Rightarrow> string \<Rightarrow> server" where
  "add_cohost rq l sv email = (case read_email rq sv email of
      None \<Rightarrow> sv
    | Some u \<Rightarrow>
        if lr_host_write_fails rq (us_id u) then sv
        else put_db (AddLinkHost (lr_host_id rq (us_id u)) (lr_now rq) l (us_id u) ''pending'' (sv_db sv)) sv)"

text \<open>The slug a new link gets: a generated one when none was asked for.\<close>

definition choose_slug :: "link_request \<Rightarrow> server \<Rightarrow> User \<Rightarrow> SchedulingLink \<Rightarrow> link_answer + string" where
  "choose_slug rq sv owner link =
     (if ln_slug link = ''''
      then (case GenerateSlug (sv_db sv) (lr_random rq) (us_name owner) (hd (ln_durations link)) of
              SlugPanic \<Rightarrow> Inl Panic
            | Slug s \<Rightarrow> if lr_slug_fails rq then Inl (fails ''slug generation failed'' 500) else Inr s
            | SlugError \<Rightarrow> Inl (fails ''slug generation failed'' 500))
      else if lr_slug_fails rq then Inl (fails ''slug check failed'' 500)
      else if SlugExists (sv_db sv) (ln_slug link) then Inl (fails ''slug already exists'' 409)
      else Inr (ln_slug link))"

definition createLink ::
  "(string \<Rightarrow> location option) \<Rightarrow> link_request \<Rightarrow> schedulingLinkInput option \<Rightarrow> server \<Rightarrow> server \<times> link_answer" where
  "createLink tzdb rq body sv = (case body of
      None \<Rightarrow> (sv, fails ''invalid request body'' 400)
    | Some input \<Rightarrow> (case normalized input of
        Inl msg \<Rightarrow> (sv, fails msg 422)
      | Inr link \<Rightarrow> (case (if lr_owner_fails rq then None else GetUserByID (sv_users sv) (lr_user rq)) of
          None \<Rightarrow> (sv, fails ''user not found'' 500)
        | Some owner \<Rightarrow> (case zoneOf tzdb rq sv (lr_user rq) of
            Inl e \<Rightarrow> (sv, server_fails ''create link zone'' 500)
          | Inr loc \<Rightarrow> (case choose_slug rq sv owner link of
              Inl a \<Rightarrow> (sv, a)
            | Inr slug \<Rightarrow>
                if lr_stmt_fails rq then (sv, server_fails ''create failed'' 500)
                else (case CreateSchedulingLink (lr_new_id rq) (lr_now rq)
                             (link\<lparr>ln_slug := slug, ln_owner := lr_user rq\<rparr>) (sv_db sv) of
                    (db, Inl e) \<Rightarrow> (put_db db sv, server_fails ''create failed'' 500)
                  | (db, Inr newlink) \<Rightarrow>
                      if lr_owner_host_fails rq then (put_db db sv, server_fails ''owner host failed'' 500)
                      else let sv1 = put_db (AddLinkHost (lr_host_id rq (lr_user rq)) (lr_now rq) (ln_id newlink) (lr_user rq) ''accepted'' db) sv;
                               sv2 = foldl (add_cohost rq (ln_id newlink)) sv1 (in_co_hosts input)
                           in (sv2, writeLink 201 rq sv2 newlink loc)))))))"

text \<open>The zones of a list's owners; \<open>None\<close> when one of them cannot be read.\<close>

definition list_dto :: "(string \<Rightarrow> location option) \<Rightarrow> link_request \<Rightarrow> server \<Rightarrow> SchedulingLink \<Rightarrow> schedulingLinkDTO option" where
  "list_dto tzdb rq sv link = (case zoneOf tzdb rq sv (ln_owner link) of
      Inl e \<Rightarrow> None
    | Inr loc \<Rightarrow> (case buildSchedulingLinkDTO rq sv link loc True False of Inl e \<Rightarrow> None | Inr dto \<Rightarrow> Some dto))"

definition listLinks :: "(string \<Rightarrow> location option) \<Rightarrow> link_request \<Rightarrow> server \<Rightarrow> link_answer" where
  "listLinks tzdb rq sv =
     (if lr_read_fails rq then fails ''internal error'' 500
      else let dtos = map (list_dto tzdb rq sv) (ListSchedulingLinksByUser (sv_db sv) (lr_user rq))
           in if list_ex (\<lambda>d. d = None) dtos then server_fails ''list links zone'' 500
              else let ds = map the dtos in Answer 200 (LinkLists (filter ld_is_owner ds) (filter (\<lambda>d. \<not> ld_is_owner d) ds)))"

definition getLink :: "(string \<Rightarrow> location option) \<Rightarrow> link_request \<Rightarrow> server \<Rightarrow> link_answer" where
  "getLink tzdb rq sv = (case with_link rq sv of
      Inl a \<Rightarrow> a
    | Inr (i, link) \<Rightarrow>
        if ln_owner link \<noteq> lr_user rq \<and> lr_status_fails rq then server_fails ''getLink host status'' 500
        else if ln_owner link \<noteq> lr_user rq \<and> GetLinkHostStatus (sv_db sv) (ln_id link) (lr_user rq) \<noteq> Some ''accepted''
        then fails ''not found'' 404
        else (case zoneOf tzdb rq sv (ln_owner link) of
            Inl e \<Rightarrow> server_fails ''getLink zone'' 500
          | Inr loc \<Rightarrow> (case buildSchedulingLinkDTO rq sv link loc True True of
                Inl e \<Rightarrow> server_fails ''getLink roster'' 500
              | Inr dto \<Rightarrow> Answer 200 (OneLink dto))))"

definition or_else :: "'a option \<Rightarrow> 'a \<Rightarrow> 'a" where
  "or_else v d = (case v of Some x \<Rightarrow> x | None \<Rightarrow> d)"

text \<open>The fields a patch gives, over the stored link.\<close>

definition patched :: "schedulingLinkPatch \<Rightarrow> SchedulingLink \<Rightarrow> SchedulingLink" where
  "patched p l = l\<lparr>
     ln_title := or_else (map_option TrimSpace (pa_title p)) (ln_title l),
     ln_slug := or_else (map_option normalizeSlug (pa_slug p)) (ln_slug l),
     ln_durations := or_else (pa_durations p) (or_else (pa_duration_options p) (ln_durations l)),
     ln_days := or_else (map_option dayNumbers (pa_days p)) (or_else (pa_days_of_week p) (ln_days l)),
     ln_window_start := or_else (pa_window_start p) (or_else (pa_window_start_alias p) (ln_window_start l)),
     ln_window_end := or_else (pa_window_end p) (or_else (pa_window_end_alias p) (ln_window_end l)),
     ln_buffer_before := or_else (pa_buffer_before p) (ln_buffer_before l),
     ln_buffer_after := or_else (pa_buffer_after p) (ln_buffer_after l),
     ln_min_notice := or_else (pa_min_notice p) (ln_min_notice l),
     ln_usage_type := or_else (map_option (\<lambda>u. ToLower (TrimSpace u)) (pa_usage_type p)) (ln_usage_type l),
     ln_max_uses := (case pa_max_uses p of Some m \<Rightarrow> Some m | None \<Rightarrow> ln_max_uses l),
     ln_active := or_else (pa_active p) (ln_active l),
     ln_horizon_days := or_else (pa_horizon p) (ln_horizon_days l),
     ln_refusal_message := or_else (pa_refusal p) (ln_refusal_message l)\<rparr>"

text \<open>The co-host list of a patch, set by difference: who is not listed goes, new ones are invited.\<close>

definition invite_kept :: "link_request \<Rightarrow> uuid \<Rightarrow> server \<Rightarrow> uuid \<Rightarrow> server" where
  "invite_kept rq l sv u =
     (if u = lr_user rq \<or> lr_host_write_fails rq u then sv
      else put_db (fst (InviteLinkHost (lr_host_id rq u) (lr_now rq) l u (sv_db sv))) sv)"

definition set_cohosts :: "link_request \<Rightarrow> uuid \<Rightarrow> string list \<Rightarrow> server \<Rightarrow> server" where
  "set_cohosts rq l emails sv =
     (let keep = map us_id (List.map_filter (read_email rq sv) emails);
          sv1 = (if lr_remove_fails rq then sv else put_db (RemoveLinkHostsExcept l (lr_user rq) keep (sv_db sv)) sv)
      in foldl (invite_kept rq l) sv1 keep)"

definition updateLink ::
  "(string \<Rightarrow> location option) \<Rightarrow> link_request \<Rightarrow> schedulingLinkPatch option \<Rightarrow> server \<Rightarrow> server \<times> link_answer" where
  "updateLink tzdb rq body sv = (case with_owned_link rq sv of
      Inl a \<Rightarrow> (sv, a)
    | Inr (i, existing) \<Rightarrow> (case body of
        None \<Rightarrow> (sv, fails ''invalid request body'' 400)
      | Some p \<Rightarrow>
          if pa_slug p \<noteq> None \<and> ln_slug (patched p existing) = '''' then (sv, fails ''slug cannot be empty'' 422)
          else (case validateSchedulingLink (patched p existing) of
              Inl msg \<Rightarrow> (sv, fails msg 422)
            | Inr updated \<Rightarrow> (case zoneOf tzdb rq sv (ln_owner existing) of
                Inl e \<Rightarrow> (sv, server_fails ''update link zone'' 500)
              | Inr loc \<Rightarrow>
                  if ln_slug updated \<noteq> ln_slug existing \<and> lr_slug_fails rq then (sv, fails ''slug check failed'' 500)
                  else if ln_slug updated \<noteq> ln_slug existing \<and> SlugExists (sv_db sv) (ln_slug updated)
                  then (sv, fails ''slug already exists'' 409)
                  else if lr_stmt_fails rq then (sv, server_fails ''update failed'' 500)
                  else (case UpdateSchedulingLink i updated (sv_db sv) of
                      (db, Inl e) \<Rightarrow> (put_db db sv, server_fails ''update failed'' 500)
                    | (db, Inr result) \<Rightarrow>
                        let sv1 = put_db db sv;
                            sv2 = (case pa_co_hosts p of None \<Rightarrow> sv1 | Some emails \<Rightarrow> set_cohosts rq i emails sv1)
                        in (sv2, case result of None \<Rightarrow> Panic | Some l \<Rightarrow> writeLink 200 rq sv2 l loc))))))"

definition deleteLink :: "link_request \<Rightarrow> server \<Rightarrow> server \<times> link_answer" where
  "deleteLink rq sv = (case with_owned_link rq sv of
      Inl a \<Rightarrow> (sv, a)
    | Inr (i, link) \<Rightarrow>
        if lr_stmt_fails rq then (sv, server_fails ''delete failed'' 500)
        else (put_db (DeleteSchedulingLink i (sv_db sv)) sv, Answer 204 NoBody))"

definition listBookings :: "link_request \<Rightarrow> server \<Rightarrow> link_answer" where
  "listBookings rq sv = (case with_owned_link rq sv of
      Inl a \<Rightarrow> a
    | Inr (i, link) \<Rightarrow>
        if lr_stmt_fails rq then fails ''internal error'' 500
        else Answer 200 (BookingList (GetBookingsByLink (sv_db sv) i)))"

definition inviteHost :: "link_request \<Rightarrow> string option \<Rightarrow> server \<Rightarrow> server \<times> link_answer" where
  "inviteHost rq body sv = (case with_owned_link rq sv of
      Inl a \<Rightarrow> (sv, a)
    | Inr (i, link) \<Rightarrow> (case body of
        None \<Rightarrow> (sv, fails ''email is required'' 400)
      | Some email \<Rightarrow>
          if TrimSpace email = '''' then (sv, fails ''email is required'' 400)
          else (case read_email rq sv email of
              None \<Rightarrow> (sv, fails ''user not found'' 404)
            | Some u \<Rightarrow>
                if lr_stmt_fails rq then (sv, server_fails ''invite failed'' 500)
                else (case InviteLinkHost (lr_host_id rq (us_id u)) (lr_now rq) i (us_id u) (sv_db sv) of
                    (db, h, isnew) \<Rightarrow> (put_db db sv, Answer (if isnew then 201 else 200) (HostRow h))))))"

definition invite_dto :: "link_request \<Rightarrow> server \<Rightarrow> LinkHost \<Rightarrow> hostInviteDTO option" where
  "invite_dto rq sv h = (case (if lr_invite_link_fails rq (lh_link h) then None else GetSchedulingLinkByID (sv_db sv) (lh_link h)) of
      None \<Rightarrow> None
    | Some link \<Rightarrow> map_option (\<lambda>u. \<lparr>hi_link = ln_id link, hi_title = ln_title link, hi_owner_name = us_name u,
         hi_owner_email = us_email u, hi_invited_at = lh_invited_at h\<rparr>) (read_user rq sv (ln_owner link)))"

definition listHostInvites :: "link_request \<Rightarrow> server \<Rightarrow> link_answer" where
  "listHostInvites rq sv =
     (if lr_read_fails rq then fails ''internal error'' 500
      else Answer 200 (InviteList (List.map_filter (invite_dto rq sv) (GetPendingInvitesForUser (sv_db sv) (lr_user rq)))))"

definition respondToInvite :: "link_request \<Rightarrow> string \<Rightarrow> server \<Rightarrow> server \<times> link_answer" where
  "respondToInvite rq status sv = (case lr_id rq of
      None \<Rightarrow> (sv, fails ''invalid id'' 400)
    | Some i \<Rightarrow>
        if lr_stmt_fails rq then (sv, server_fails ''update failed'' 500)
        else (case RespondToHostInvite (lr_now rq) i (lr_user rq) status (sv_db sv) of
            (db, matched) \<Rightarrow> (put_db db sv, if matched then Answer 200 (HostStatus status) else fails ''not found'' 404)))"

definition acceptInvite :: "link_request \<Rightarrow> server \<Rightarrow> server \<times> link_answer" where
  "acceptInvite rq sv = respondToInvite rq ''accepted'' sv"

definition declineInvite :: "link_request \<Rightarrow> server \<Rightarrow> server \<times> link_answer" where
  "declineInvite rq sv = respondToInvite rq ''declined'' sv"

definition leaveLink :: "link_request \<Rightarrow> server \<Rightarrow> server \<times> link_answer" where
  "leaveLink rq sv = (case with_link rq sv of
      Inl a \<Rightarrow> (sv, a)
    | Inr (i, link) \<Rightarrow>
        if ln_owner link = lr_user rq then (sv, fails ''owner cannot leave link'' 400)
        else if lr_stmt_fails rq then (sv, server_fails ''leave failed'' 500)
        else (case RemoveLinkHost i (lr_user rq) (sv_db sv) of
            (db, removed) \<Rightarrow> (put_db db sv, if removed then Answer 204 NoBody else fails ''not found'' 404)))"

subsection \<open>Clock texts\<close>

lemma get2_range: "get2 s = Some (v, r) \<Longrightarrow> 0 \<le> v \<and> v < 100"
  by (auto simp: get2_def is_digit_def digit_val_def split: list.splits if_splits)

lemma get1or2_range: "get1or2 s = Some (v, r) \<Longrightarrow> 0 \<le> v"
  by (auto simp: get1or2_def is_digit_def digit_val_def split: list.splits if_splits option.splits dest: get2_range)

lemma digits_val_range: "list_all is_digit ds \<Longrightarrow> 0 \<le> digits_val ds \<and> digits_val ds < 10 ^ length ds"
proof (induction ds rule: rev_induct)
  case (snoc d ds)
  then have "0 \<le> digits_val ds" "digits_val ds < 10 ^ length ds" "0 \<le> digit_val d" "digit_val d \<le> 9"
    by (auto simp: is_digit_def digit_val_def)
  then show ?case by (simp add: digits_val_def)
qed (simp add: digits_val_def)

lemma get_frac_range: "get_frac s = (f, r) \<Longrightarrow> 0 \<le> f \<and> f < sec_ns"
proof -
  have "0 \<le> frac_ns (takeWhile is_digit t) \<and> frac_ns (takeWhile is_digit t) < sec_ns" for t
  proof -
    let ?ds = "take 9 (takeWhile is_digit t @ replicate 9 CHR ''0'')"
    have "is_digit CHR ''0''" by (simp add: is_digit_def)
    then have "list_all is_digit ?ds"
      unfolding list_all_iff by (metis Un_iff in_set_replicate in_set_takeD set_append set_takeWhileD)
    moreover have "length ?ds = 9" by simp
    ultimately show ?thesis using digits_val_range [of ?ds] unfolding frac_ns_def by simp
  qed
  then show "get_frac s = (f, r) \<Longrightarrow> 0 \<le> f \<and> f < sec_ns"
    by (auto simp: get_frac_def simp del: takeWhile.simps dropWhile.simps split: list.splits if_splits)
qed

lemma parseClock_range:
  assumes "parseClock t = Some (h, m, n)"
  shows "0 \<le> h" "h < 24" "0 \<le> m" "m < 60" "0 \<le> n" "n < minute_ns"
proof -
  have "0 \<le> h \<and> h < 24 \<and> 0 \<le> m \<and> m < 60 \<and> 0 \<le> n \<and> n < minute_ns"
    using assms
    by (auto simp: parseClock_def parse_hm_def parse_hms_def valid_clock_def Let_def
        split: option.splits if_splits prod.splits Option.bind_splits
        dest!: get1or2_range get2_range get_frac_range)
  then show "0 \<le> h" "h < 24" "0 \<le> m" "m < 60" "0 \<le> n" "n < minute_ns" by auto
qed

lemma clockMinutes_text:
  assumes "0 \<le> h" "h < 24" "0 \<le> m" "m < 60"
  shows "clockMinutes (clock_text (h, m, n)) = Some (h * 60 + m)"
proof -
  have "TrimSpace (clock_text (h, m, n)) = clock_text (h, m, n)"
    using assms by (simp add: TrimSpace_def clock_text_def pad2_def digit_char_plain)
  moreover have "split_first CHR '':'' (clock_text (h, m, n)) = Some (pad2 h, pad2 m)"
    using assms by (simp add: clock_text_def pad2_def digit_char_plain)
  ultimately show ?thesis using assms by (simp add: clockMinutes_def scan_pad2)
qed

lemma parseClock_text:
  assumes "0 \<le> h" "h < 24" "0 \<le> m" "m < 60"
  shows "parseClock (clock_text (h, m, n)) = Some (h, m, 0)"
proof -
  have "TrimSpace (clock_text (h, m, n)) = clock_text (h, m, n)"
    using assms by (simp add: TrimSpace_def clock_text_def pad2_def digit_char_plain)
  moreover have "parse_hm (pad2 h @ CHR '':'' # pad2 m) = Some (h, m, 0)"
    using assms get2_pad2 [of m "[]"] by (simp add: parse_hm_def valid_clock_def)
  ultimately show ?thesis by (simp add: parseClock_def clock_text_def)
qed

subsection \<open>Validation\<close>

definition usage_ok :: "string \<Rightarrow> int option \<Rightarrow> bool" where
  "usage_ok usage uses \<longleftrightarrow> (case uses of
      Some m \<Rightarrow> usage = ''recurring'' \<and> 0 < m
    | None \<Rightarrow> usage = ''reusable'' \<or> usage = ''single_use'')"

text \<open>What the rest of the program relies on of a stored link.\<close>

definition link_wf :: "SchedulingLink \<Rightarrow> bool" where
  "link_wf l \<longleftrightarrow> TrimSpace (ln_title l) \<noteq> '''' \<and>
     ln_durations l \<noteq> [] \<and> list_all (\<lambda>d. 0 < d) (ln_durations l) \<and>
     ln_days l \<noteq> [] \<and> list_all (\<lambda>d. 0 \<le> d \<and> d \<le> 6) (ln_days l) \<and>
     (case (clockMinutes (ln_window_start l), clockMinutes (ln_window_end l)) of
        (Some a, Some b) \<Rightarrow> a \<le> b | _ \<Rightarrow> False) \<and>
     0 \<le> ln_buffer_before l \<and> 0 \<le> ln_buffer_after l \<and> 0 \<le> ln_min_notice l \<and>
     usage_ok (ln_usage_type l) (ln_max_uses l) \<and> link_row_ok l"

lemma clock_ns_minutes:
  assumes "parseClock a = Some c" "parseClock b = Some d" "clock_ns c < clock_ns d"
  shows "case (clockMinutes (clock_text c), clockMinutes (clock_text d)) of (Some x, Some y) \<Rightarrow> x \<le> y | _ \<Rightarrow> False"
proof -
  obtain h m n h' m' n' where c: "c = (h, m, n)" "d = (h', m', n')" by (cases c, cases d) auto
  note ra = parseClock_range [of a h m n] and rb = parseClock_range [of b h' m' n']
  have r: "0 \<le> h" "h < 24" "0 \<le> m" "m < 60" "0 \<le> n" "0 \<le> h'" "h' < 24" "0 \<le> m'" "m' < 60" "n' < minute_ns"
    using ra rb assms(1,2) c by auto
  have "(h * 60 + m) * minute_ns < (h' * 60 + m' + 1) * minute_ns"
    using assms(3) c r by (simp add: clock_ns_def algebra_simps)
  then have "h * 60 + m \<le> h' * 60 + m'" by (simp add: mult_less_cancel_right)
  then show ?thesis using r c by (simp add: clockMinutes_text)
qed

lemma validate_Inr:
  assumes "validateSchedulingLink l = Inr l'"
  obtains c d where "parseClock (ln_window_start l) = Some c" "parseClock (ln_window_end l) = Some d"
    "clock_ns c < clock_ns d"
    "l' = l\<lparr>ln_usage_type := usage_of l, ln_max_uses := (if usage_of l = ''recurring'' then ln_max_uses l else None),
            ln_window_start := clock_text c, ln_window_end := clock_text d\<rparr>"
    "TrimSpace (ln_title l) \<noteq> ''''" "ln_durations l \<noteq> []" "list_all (\<lambda>d. 0 < d) (ln_durations l)"
    "ln_days l \<noteq> []" "list_all (\<lambda>d. 0 \<le> d \<and> d \<le> 6) (ln_days l)"
    "0 \<le> ln_buffer_before l" "0 \<le> ln_buffer_after l" "0 \<le> ln_min_notice l"
    "usage_ok (ln_usage_type l') (ln_max_uses l')" "link_row_ok l"
proof -
  note a = assms [unfolded validateSchedulingLink_def]
  obtain c where c: "parseClock (ln_window_start l) = Some c" using a by (auto split: if_splits option.splits)
  obtain d where d: "parseClock (ln_window_end l) = Some d" using a by (auto split: if_splits option.splits)
  show ?thesis
    by (rule that [OF c d])
      (use a in \<open>auto simp: c d Let_def usage_ok_def link_row_ok_def list_ex_iff list_all_iff not_less not_le
         split: if_splits option.splits\<close>)
qed

lemma validate_wf: "validateSchedulingLink l = Inr l' \<Longrightarrow> link_wf l'"
  by (erule validate_Inr) (use clock_ns_minutes in \<open>auto simp: link_wf_def link_row_ok_def\<close>)

subsection \<open>What the link tables keep\<close>

definition links_inv :: "link_db \<Rightarrow> bool" where
  "links_inv db \<longleftrightarrow> distinct (map ln_id (t_links db)) \<and> distinct (map ln_slug (t_links db)) \<and>
     list_all link_wf (t_links db) \<and> hosts_unique db"

lemma links_inv_hosts:
  "links_inv db \<Longrightarrow> t_links db' = t_links db \<Longrightarrow> hosts_unique db' \<Longrightarrow> links_inv db'"
  by (simp add: links_inv_def)

lemma links_inv_links:
  assumes "links_inv db" "map ln_id ls = map ln_id (t_links db)" "distinct (map ln_slug ls)" "list_all link_wf ls"
  shows "links_inv (db\<lparr>t_links := ls\<rparr>)"
  using assms by (simp add: links_inv_def hosts_unique_def)

lemma host_ops_links [simp]:
  "t_links (AddLinkHost i now l u st db) = t_links db"
  "t_links (fst (InviteLinkHost i now l u db)) = t_links db"
  "t_links (RemoveLinkHostsExcept l u keep db) = t_links db"
  "t_links (fst (RemoveLinkHost l u db)) = t_links db"
  "t_links (fst (RespondToHostInvite now l u st db)) = t_links db"
  by (auto simp: AddLinkHost_def InviteLinkHost_def RemoveLinkHostsExcept_def RemoveLinkHost_def
      RespondToHostInvite_def Let_def split: option.splits)

lemma host_ops_inv:
  assumes "links_inv db"
  shows "links_inv (AddLinkHost i now l u st db)" "links_inv (fst (InviteLinkHost i now l u db))"
    "links_inv (RemoveLinkHostsExcept l u keep db)" "links_inv (fst (RemoveLinkHost l u db))"
    "links_inv (fst (RespondToHostInvite now l u st db))"
proof -
  have h: "hosts_unique db" using assms by (simp add: links_inv_def)
  show "links_inv (AddLinkHost i now l u st db)" "links_inv (fst (InviteLinkHost i now l u db))"
    "links_inv (RemoveLinkHostsExcept l u keep db)" "links_inv (fst (RemoveLinkHost l u db))"
    "links_inv (fst (RespondToHostInvite now l u st db))"
    by (rule links_inv_hosts [OF assms]; simp add: hosts_unique_steps [OF h])+
qed

lemma link_wf_fields:
  "link_wf l \<Longrightarrow> ln_usage_type l \<noteq> '''' \<and> ln_durations l \<noteq> [] \<and> ln_days l \<noteq> [] \<and> ln_horizon_days l \<noteq> 0 \<and>
     ln_refusal_message l \<noteq> ''''"
  by (auto simp: link_wf_def usage_ok_def link_row_ok_def RefusalGeneric_def RefusalSpecific_def split: option.splits)

lemma link_defaults_wf: "link_wf l \<Longrightarrow> link_defaults l = l"
  using link_wf_fields [of l] by (simp add: link_defaults_def)

lemma link_wf_written:
  assumes "link_wf l"
  shows "link_wf (link_written l old)"
proof -
  have "ln_horizon_days (link_written l old) = ln_horizon_days l" "ln_refusal_message (link_written l old) = ln_refusal_message l"
    using link_wf_fields [OF assms] by (simp_all add: link_written_def)
  moreover have "ln_title (link_written l old) = ln_title l" "ln_durations (link_written l old) = ln_durations l"
    "ln_days (link_written l old) = ln_days l" "ln_window_start (link_written l old) = ln_window_start l"
    "ln_window_end (link_written l old) = ln_window_end l" "ln_buffer_before (link_written l old) = ln_buffer_before l"
    "ln_buffer_after (link_written l old) = ln_buffer_after l" "ln_min_notice (link_written l old) = ln_min_notice l"
    "ln_usage_type (link_written l old) = ln_usage_type l" "ln_max_uses (link_written l old) = ln_max_uses l"
    by (simp_all add: link_written_def)
  ultimately show ?thesis using assms unfolding link_wf_def link_row_ok_def by (simp only: simp_thms)
qed

lemma link_wf_ids [simp]:
  "link_wf (l\<lparr>ln_id := i, ln_active := a, ln_created_at := c\<rparr>) = link_wf l"
  "link_wf (l\<lparr>ln_slug := s, ln_owner := u\<rparr>) = link_wf l" "link_wf (l\<lparr>ln_active := a\<rparr>) = link_wf l"
  by (simp_all add: link_wf_def link_row_ok_def)

lemma CreateSchedulingLink_inv:
  assumes "links_inv db" "link_wf l" "i \<notin> ln_id ` set (t_links db)"
  shows "links_inv (fst (CreateSchedulingLink i now l db))"
  using assms(1,3) link_defaults_wf [OF assms(2)] assms(2)
  by (auto simp: CreateSchedulingLink_def Let_def links_inv_def hosts_unique_def SlugExists_def list_ex_iff)

lemma UpdateSchedulingLink_inv:
  assumes "links_inv db" "link_wf l"
  shows "links_inv (fst (UpdateSchedulingLink i l db))"
proof -
  let ?f = "\<lambda>x. if ln_id x = i then link_written l x else x"
  have ids: "map ln_id (map ?f ls) = map ln_id ls" for ls by (simp add: link_written_def)
  have wf: "list_all link_wf (map ?f (t_links db))"
    using assms link_wf_written by (auto simp: links_inv_def list_all_iff)
  have slugs: "distinct (map ln_slug (map ?f ls))"
    if "distinct (map ln_id ls)" "distinct (map ln_slug ls)" "\<not> list_ex (\<lambda>x. ln_slug x = ln_slug l \<and> ln_id x \<noteq> i) ls" for ls
    using that
  proof (induction ls)
    case (Cons a ls)
    have "ln_slug (?f a) \<notin> set (map ln_slug (map ?f ls))"
      using Cons.prems by (auto simp: link_written_def list_ex_iff image_iff)
    with Cons show ?case by (simp del: map_map set_map)
  qed simp
  have "links_inv (db\<lparr>t_links := map ?f (t_links db)\<rparr>)"
    if "\<not> list_ex (\<lambda>x. ln_slug x = ln_slug l \<and> ln_id x \<noteq> i) (t_links db)"
    using assms(1) slugs [OF _ _ that] by (intro links_inv_links [OF assms(1) ids _ wf]) (simp add: links_inv_def)
  then show ?thesis
    using assms(1) by (auto simp: UpdateSchedulingLink_def Let_def split: option.splits)
qed

lemma DeleteSchedulingLink_inv: "links_inv db \<Longrightarrow> links_inv (DeleteSchedulingLink i db)"
proof -
  assume inv: "links_inv db"
  let ?f = "\<lambda>x. if ln_id x = i then x\<lparr>ln_active := False\<rparr> else x"
  have ids: "map ln_id (map ?f (t_links db)) = map ln_id (t_links db)" by simp
  have slugs: "map ln_slug (map ?f (t_links db)) = map ln_slug (t_links db)" by simp
  have "list_all link_wf (map ?f (t_links db))" using inv by (auto simp: links_inv_def list_all_iff)
  moreover have "distinct (map ln_slug (map ?f (t_links db)))" unfolding slugs using inv by (simp add: links_inv_def)
  ultimately show ?thesis unfolding DeleteSchedulingLink_def by (intro links_inv_links [OF inv ids])
qed

lemma foldl_inv: "(\<And>s x. P s \<Longrightarrow> P (f s x)) \<Longrightarrow> P s \<Longrightarrow> P (foldl f s xs)"
  by (induction xs arbitrary: s) auto

lemma put_db_db [simp]: "sv_db (put_db db sv) = db"
  by (simp add: put_db_def)

lemma add_cohost_inv: "links_inv (sv_db sv) \<Longrightarrow> links_inv (sv_db (add_cohost rq l sv e))"
  by (auto simp: add_cohost_def host_ops_inv split: option.splits)

lemma set_cohosts_inv: "links_inv (sv_db sv) \<Longrightarrow> links_inv (sv_db (set_cohosts rq l emails sv))"
  unfolding set_cohosts_def Let_def
  by (rule foldl_inv [where P = "\<lambda>s. links_inv (sv_db s)"]) (auto simp: invite_kept_def host_ops_inv)

lemma createLink_inv:
  assumes "links_inv (sv_db sv)" "lr_new_id rq \<notin> ln_id ` set (t_links (sv_db sv))"
  shows "links_inv (sv_db (fst (createLink tzdb rq body sv)))"
proof -
  have c: "links_inv db" if "normalized input = Inr link"
    "CreateSchedulingLink (lr_new_id rq) (lr_now rq) (link\<lparr>ln_slug := slug, ln_owner := lr_user rq\<rparr>) (sv_db sv) = (db, res)"
    for input link slug db res
    using CreateSchedulingLink_inv [OF assms(1) _ assms(2), of "link\<lparr>ln_slug := slug, ln_owner := lr_user rq\<rparr>" "lr_now rq"]
      validate_wf that by (auto simp: normalized_def)
  have f: "links_inv (sv_db (foldl (add_cohost rq l) sv1 es))" if "links_inv (sv_db sv1)" for l sv1 es
    using that by (rule foldl_inv [where P = "\<lambda>s. links_inv (sv_db s)", rotated]) (rule add_cohost_inv)
  show ?thesis
    unfolding createLink_def Let_def
    by (auto simp: assms(1) host_ops_inv c intro!: f split: option.splits sum.splits prod.splits)
qed

lemma updateLink_inv:
  assumes "links_inv (sv_db sv)"
  shows "links_inv (sv_db (fst (updateLink tzdb rq body sv)))"
proof -
  have u: "links_inv db" if "validateSchedulingLink l = Inr l'" "UpdateSchedulingLink i l' (sv_db sv) = (db, res)" for l l' i db res
    using UpdateSchedulingLink_inv [OF assms validate_wf [OF that(1)], of i] that(2) by simp
  show ?thesis
    unfolding updateLink_def Let_def
    by (auto simp: assms u intro!: set_cohosts_inv split: option.splits sum.splits prod.splits)
qed

lemma other_handlers_inv:
  assumes "links_inv (sv_db sv)"
  shows "links_inv (sv_db (fst (deleteLink rq sv)))" "links_inv (sv_db (fst (inviteHost rq e sv)))"
    "links_inv (sv_db (fst (respondToInvite rq st sv)))" "links_inv (sv_db (fst (leaveLink rq sv)))"
proof -
  show "links_inv (sv_db (fst (deleteLink rq sv)))"
    using assms by (auto simp: deleteLink_def DeleteSchedulingLink_inv split: sum.splits)
  show "links_inv (sv_db (fst (inviteHost rq e sv)))"
    using assms host_ops_inv(2) [OF assms]
    by (auto simp: inviteHost_def split: sum.splits option.splits prod.splits) (metis fst_conv)
  show "links_inv (sv_db (fst (respondToInvite rq st sv)))"
    using assms host_ops_inv(5) [OF assms]
    by (auto simp: respondToInvite_def split: option.splits prod.splits) (metis fst_conv)
  show "links_inv (sv_db (fst (leaveLink rq sv)))"
    using assms host_ops_inv(4) [OF assms]
    by (auto simp: leaveLink_def split: sum.splits prod.splits) (metis fst_conv)
qed


subsection \<open>Slugs\<close>

definition slug_ok :: "string \<Rightarrow> bool" where
  "slug_ok s \<longleftrightarrow> list_all (\<lambda>c. slug_keeps c \<or> c = CHR ''-'') s \<and>
     successively (\<lambda>a b. \<not> (a = CHR ''-'' \<and> b = CHR ''-'')) s \<and>
     (s \<noteq> [] \<longrightarrow> hd s \<noteq> CHR ''-'' \<and> List.last s \<noteq> CHR ''-'')"

definition slug_prefix :: "string \<Rightarrow> bool \<Rightarrow> bool" where
  "slug_prefix b d \<longleftrightarrow> list_all (\<lambda>c. slug_keeps c \<or> c = CHR ''-'') b \<and>
     successively (\<lambda>a b. \<not> (a = CHR ''-'' \<and> b = CHR ''-'')) b \<and>
     (b \<noteq> [] \<longrightarrow> hd b \<noteq> CHR ''-'') \<and> (d \<longleftrightarrow> b \<noteq> [] \<and> List.last b = CHR ''-'')"

lemma slug_keeps_dash: "\<not> slug_keeps CHR ''-''"
  by (simp add: slug_keeps_def is_digit_def)

lemma slug_prefix_snoc:
  assumes "slug_prefix b d"
  shows "slug_keeps c \<Longrightarrow> slug_prefix (b @ [c]) False" "b \<noteq> [] \<Longrightarrow> \<not> d \<Longrightarrow> slug_prefix (b @ [CHR ''-'']) True"
  using assms slug_keeps_dash by (auto simp: slug_prefix_def successively_append_iff hd_append)

lemma slug_loop_prefix: "slug_prefix b d \<Longrightarrow> \<exists>d'. slug_prefix (slug_loop cs b d) d'"
proof (induction cs b d rule: slug_loop.induct)
  case (2 c cs b d)
  then show ?case using slug_prefix_snoc [OF 2(4)] by auto
qed auto

lemma trim_end:
  assumes "slug_prefix b d"
  shows "slug_ok (trim_char CHR ''-'' b)"
proof (cases "b = []")
  case False
  have hd: "dropWhile (\<lambda>x. x = CHR ''-'') b = b" using assms False by (cases b) (auto simp: slug_prefix_def)
  obtain b' where b': "b = b' @ [List.last b]" using False by (metis append_butlast_last_id)
  show ?thesis
  proof (cases "List.last b = CHR ''-''")
    case True
    then have "b' \<noteq> []" using assms b' by (auto simp: slug_prefix_def)
    then have l: "List.last b' \<noteq> CHR ''-''" using assms b' True by (auto simp: slug_prefix_def successively_append_iff)
    then have "trim_char CHR ''-'' b = b'"
      unfolding trim_char_def hd by (subst b', cases b' rule: rev_cases) (auto simp: True)
    then show ?thesis using assms b' l \<open>b' \<noteq> []\<close> by (metis (no_types, lifting) append_is_Nil_conv hd_append2 list_all_append slug_ok_def slug_prefix_def successively_append_iff)
  next
    case False
    then have "trim_char CHR ''-'' b = b" unfolding trim_char_def hd by (subst (1 2) b') simp
    then show ?thesis using assms False \<open>b \<noteq> []\<close> by (simp add: slug_prefix_def slug_ok_def)
  qed
qed (simp add: trim_char_def slug_ok_def)

lemma normalizeSlug_ok: "slug_ok (normalizeSlug raw)"
proof -
  have "slug_prefix [] False" by (simp add: slug_prefix_def)
  then obtain d where "slug_prefix (slug_loop (ToLower (TrimSpace raw)) [] False) d" using slug_loop_prefix by blast
  then show ?thesis unfolding normalizeSlug_def by (rule trim_end)
qed

lemma slug_loop_same:
  assumes "slug_prefix b d" "list_all (\<lambda>c. slug_keeps c \<or> c = CHR ''-'') cs"
    "successively (\<lambda>a b. \<not> (a = CHR ''-'' \<and> b = CHR ''-'')) (b @ cs)" "b @ cs \<noteq> [] \<longrightarrow> hd (b @ cs) \<noteq> CHR ''-''"
  shows "slug_loop cs b d = b @ cs"
  using assms
proof (induction cs arbitrary: b d)
  case (Cons c cs)
  have c: "slug_keeps c \<or> c = CHR ''-''" using Cons.prems(2) by simp
  have rest: "successively (\<lambda>a b. \<not> (a = CHR ''-'' \<and> b = CHR ''-'')) ((b @ [c]) @ cs)" "hd ((b @ [c]) @ cs) \<noteq> CHR ''-''"
    using Cons.prems(3,4) by simp_all
  show ?case
  proof (cases "slug_keeps c")
    case True
    then show ?thesis
      using Cons.IH [OF slug_prefix_snoc(1) [OF Cons.prems(1) True]] Cons.prems(2) rest by simp
  next
    case False
    then have dash: "c = CHR ''-''" "b \<noteq> []" using c Cons.prems(4) by (auto simp: hd_append)
    moreover have "\<not> d" using Cons.prems(1,3) dash by (auto simp: slug_prefix_def successively_append_iff)
    ultimately show ?thesis
      using Cons.IH [OF slug_prefix_snoc(2) [OF Cons.prems(1)]] Cons.prems(2) rest False by simp
  qed
qed simp

lemma slug_char_same: "slug_keeps c \<or> c = CHR ''-'' \<Longrightarrow> lower_char c = c \<and> \<not> is_space c"
  by (auto simp: slug_keeps_def is_digit_def lower_char_def is_space_def)

lemma dropWhile_none: "list_all (\<lambda>x. \<not> P x) xs \<Longrightarrow> dropWhile P xs = xs"
  by (cases xs) auto

lemma normalizeSlug_same:
  assumes "slug_ok s"
  shows "normalizeSlug s = s"
proof -
  have chars: "list_all (\<lambda>c. slug_keeps c \<or> c = CHR ''-'') s" using assms by (simp add: slug_ok_def)
  then have "TrimSpace s = s" "ToLower s = s"
    using slug_char_same by (auto simp: TrimSpace_def ToLower_def list_all_iff dropWhile_none map_idI)
  moreover have "slug_loop s [] False = s"
    using slug_loop_same [of "[]" False s] assms by (simp add: slug_prefix_def slug_ok_def)
  moreover have "trim_char CHR ''-'' s = s"
  proof (cases "s = []")
    case False
    have "dropWhile (\<lambda>x. x = CHR ''-'') s = s" "dropWhile (\<lambda>x. x = CHR ''-'') (rev s) = rev s"
      using assms False by (simp_all add: dropWhile_eq_self_iff hd_rev slug_ok_def)
    then show ?thesis by (simp add: trim_char_def)
  qed (simp add: trim_char_def)
  ultimately show ?thesis by (simp add: normalizeSlug_def)
qed

subsection \<open>Host statuses\<close>

lemma find_append: "find P (xs @ ys) = (case find P xs of None \<Rightarrow> find P ys | Some x \<Rightarrow> Some x)"
  by (induction xs) auto

lemma find_filter_keep:
  "(\<And>x. P x \<Longrightarrow> Q x = q) \<Longrightarrow> find P (filter Q xs) = (if q then find P xs else None)"
  by (induction xs) auto

lemma status_Invite:
  "GetLinkHostStatus (fst (InviteLinkHost i now l u db)) l' v =
     (if l' = l \<and> v = u then Some (or_else (GetLinkHostStatus db l u) ''pending'') else GetLinkHostStatus db l' v)"
proof (cases "find (is_host_row l u) (t_hosts db)")
  case None
  have "is_host_row l' v (new_host i now l u ''pending'') \<longleftrightarrow> l' = l \<and> v = u"
    by (auto simp: is_host_row_def new_host_def)
  with None show ?thesis
    by (auto simp: GetLinkHostStatus_def InviteLinkHost_def Let_def find_append or_else_def new_host_def split: option.splits)
qed (auto simp: GetLinkHostStatus_def InviteLinkHost_def or_else_def)

lemma status_RemoveExcept:
  "GetLinkHostStatus (RemoveLinkHostsExcept l ow keep db) l' v =
     (if l' = l \<and> v \<noteq> ow \<and> v \<notin> set keep then None else GetLinkHostStatus db l' v)"
proof -
  have "find (is_host_row l' v) (filter (\<lambda>h. \<not> (lh_link h = l \<and> lh_user h \<noteq> ow \<and> \<not> List.member keep (lh_user h))) (t_hosts db)) =
    (if \<not> (l' = l \<and> v \<noteq> ow \<and> v \<notin> set keep) then find (is_host_row l' v) (t_hosts db) else None)"
    by (rule find_filter_keep) (auto simp: is_host_row_def)
  then show ?thesis by (auto simp: GetLinkHostStatus_def RemoveLinkHostsExcept_def)
qed

lemma status_Add:
  "GetLinkHostStatus (AddLinkHost i now l u st db) l' v =
     (if l' = l \<and> v = u then Some st else GetLinkHostStatus db l' v)"
proof (cases "list_ex (is_host_row l u) (t_hosts db)")
  case True
  let ?f = "\<lambda>h. if is_host_row l u h then h\<lparr>lh_status := st\<rparr> else h"
  have "find (is_host_row l' v) (map ?f (t_hosts db)) = map_option ?f (find (is_host_row l' v) (t_hosts db))"
    by (rule find_map_same) (simp add: is_host_row_def)
  moreover have "find (is_host_row l u) (t_hosts db) \<noteq> None" using True by (auto simp: list_ex_iff find_None_iff)
  moreover have "is_host_row l' v h" if "find (is_host_row l' v) (t_hosts db) = Some h" for h
    using that by (auto simp: find_Some_iff)
  ultimately show ?thesis
    using True by (auto simp: GetLinkHostStatus_def AddLinkHost_def option.map_comp comp_def is_host_row_def
        intro!: option.map_cong)
next
  case False
  then have "find (is_host_row l u) (t_hosts db) = None" by (auto simp: list_ex_iff find_None_iff)
  moreover have "is_host_row l' v (new_host i now l u st) \<longleftrightarrow> l' = l \<and> v = u"
    by (auto simp: is_host_row_def new_host_def)
  ultimately show ?thesis
    using False by (auto simp: GetLinkHostStatus_def AddLinkHost_def find_append new_host_def split: option.splits)
qed

lemma status_invite_all:
  assumes "\<And>u. \<not> lr_host_write_fails rq u"
  shows "GetLinkHostStatus (sv_db (foldl (invite_kept rq l) sv keep)) l' v =
     (if l' = l \<and> v \<noteq> lr_user rq \<and> v \<in> set keep then Some (or_else (GetLinkHostStatus (sv_db sv) l v) ''pending'')
      else GetLinkHostStatus (sv_db sv) l' v)"
proof (induction keep arbitrary: sv)
  case (Cons u keep)
  show ?case
    unfolding foldl_Cons Cons.IH
    using assms by (auto simp: invite_kept_def status_Invite or_else_def)
qed simp

text \<open>The rows the co-host loop of a new link leaves: a listed user's row is set to pending.\<close>

lemma status_add_all:
  assumes "\<And>u. \<not> lr_host_write_fails rq u"
  shows "GetLinkHostStatus (sv_db (foldl (add_cohost rq l) sv es)) l' v =
     (if l' = l \<and> list_ex (\<lambda>e. map_option us_id (read_email rq sv e) = Some v) es then Some ''pending''
      else GetLinkHostStatus (sv_db sv) l' v)"
proof (induction es arbitrary: sv)
  case (Cons e es)
  have users: "sv_users (add_cohost rq l sv e) = sv_users sv"
    by (simp add: add_cohost_def put_db_def split: option.splits)
  then have "read_email rq (add_cohost rq l sv e) = read_email rq sv" by (simp add: read_email_def fun_eq_iff Let_def)
  then show ?case
    unfolding foldl_Cons Cons.IH
    using assms by (auto simp: add_cohost_def status_Add split: option.splits)
qed simp

lemma foldl_add_cohost_bookings: "t_bookings (sv_db (foldl (add_cohost rq l) sv es)) = t_bookings (sv_db sv)"
proof (induction es arbitrary: sv)
  case (Cons e es)
  have "t_bookings (sv_db (add_cohost rq l sv e)) = t_bookings (sv_db sv)"
    by (simp add: add_cohost_def AddLinkHost_def split: option.splits)
  with Cons show ?case by simp
qed simp

lemma AddLinkHost_bookings [simp]: "t_bookings (AddLinkHost i now l u st db) = t_bookings db"
  by (simp add: AddLinkHost_def)

lemma read_email_put [simp]: "read_email rq (put_db db sv) e = read_email rq sv e"
  by (simp add: read_email_def put_db_def Let_def)

lemma link_wf_uses [simp]: "link_wf (l\<lparr>ln_uses_count := n\<rparr>) = link_wf l"
  by (simp add: link_wf_def link_row_ok_def)

subsection \<open>A created link\<close>

lemma writeLink_status: "writeLink st rq sv link loc \<noteq> Panic \<and> answer_status (writeLink st rq sv link loc) = st"
  by (simp add: writeLink_def buildSchedulingLinkDTO_def Let_def)

lemma choose_slug_fails: "choose_slug rq sv owner link = Inl (Answer st b) \<Longrightarrow> st \<noteq> 201"
  by (auto simp: choose_slug_def server_fails_def fails_def split: if_splits slug_outcome.splits)

lemma createLink_201:
  assumes "createLink tzdb rq (Some input) sv = (sv', Answer 201 b)"
  obtains link owner slug db newlink where "normalized input = Inr link" "choose_slug rq sv owner link = Inr slug"
    "CreateSchedulingLink (lr_new_id rq) (lr_now rq) (link\<lparr>ln_slug := slug, ln_owner := lr_user rq\<rparr>) (sv_db sv) = (db, Inr newlink)"
    "sv' = foldl (add_cohost rq (ln_id newlink))
       (put_db (AddLinkHost (lr_host_id rq (lr_user rq)) (lr_now rq) (ln_id newlink) (lr_user rq) ''accepted'' db) sv) (in_co_hosts input)"
proof -
  note a = assms [unfolded createLink_def Let_def option.case]
  obtain link where n: "normalized input = Inr link" using a by (cases "normalized input") (simp_all add: server_fails_def fails_def)
  note a = a [unfolded n sum.case]
  obtain owner where o: "(if lr_owner_fails rq then None else GetUserByID (sv_users sv) (lr_user rq)) = Some owner"
    using a by (cases "if lr_owner_fails rq then None else GetUserByID (sv_users sv) (lr_user rq)") (simp_all add: server_fails_def fails_def)
  note a = a [unfolded o option.case]
  obtain loc where z: "zoneOf tzdb rq sv (lr_user rq) = Inr loc"
    using a by (cases "zoneOf tzdb rq sv (lr_user rq)") (simp_all add: server_fails_def fails_def)
  note a = a [unfolded z sum.case]
  obtain slug where s: "choose_slug rq sv owner link = Inr slug"
    using a choose_slug_fails [of rq sv owner link] by (cases "choose_slug rq sv owner link") auto
  note a = a [unfolded s sum.case]
  obtain db res where c: "CreateSchedulingLink (lr_new_id rq) (lr_now rq) (link\<lparr>ln_slug := slug, ln_owner := lr_user rq\<rparr>) (sv_db sv) = (db, res)"
    by (cases "CreateSchedulingLink (lr_new_id rq) (lr_now rq) (link\<lparr>ln_slug := slug, ln_owner := lr_user rq\<rparr>) (sv_db sv)")
  note a = a [unfolded c prod.case]
  obtain newlink where r: "res = Inr newlink" using a by (cases res) (auto simp: server_fails_def fails_def split: if_splits)
  show ?thesis
    by (rule that [OF n s, of db newlink]) (use a c r in \<open>auto simp: server_fails_def fails_def split: if_splits\<close>)
qed

lemma foldl_add_cohost_links: "t_links (sv_db (foldl (add_cohost rq l) sv es)) = t_links (sv_db sv)"
proof (induction es arbitrary: sv)
  case (Cons e es)
  have "t_links (sv_db (add_cohost rq l sv e)) = t_links (sv_db sv)"
    by (simp add: add_cohost_def split: option.splits)
  with Cons show ?case by simp
qed simp

lemma choose_slug_free: "choose_slug rq sv owner link = Inr slug \<Longrightarrow> \<not> SlugExists (sv_db sv) slug"
proof -
  have "\<not> SlugExists db s" if "try_slugs db base rnd i n c = Slug s" for db base rnd i n c s
    using that by (induction db base rnd i n c rule: try_slugs.induct) (auto split: if_splits)
  then show "choose_slug rq sv owner link = Inr slug \<Longrightarrow> \<not> SlugExists (sv_db sv) slug"
    by (auto simp: choose_slug_def GenerateSlug_def Let_def split: if_splits slug_outcome.splits list.splits)
qed

lemma find_last: "(\<And>x. x \<in> set xs \<Longrightarrow> \<not> P x) \<Longrightarrow> P y \<Longrightarrow> find P (xs @ [y]) = Some y"
  by (induction xs) auto

lemma createLink_panic:
  assumes "snd (createLink tzdb rq body sv) = Panic"
  shows "createLink tzdb rq body sv = (sv, Panic)"
proof -
  have "writeLink st rq sv l loc \<noteq> Panic" for st sv l loc using writeLink_status by blast
  then show ?thesis
    using assms unfolding createLink_def Let_def
    by (simp add: server_fails_def fails_def split: option.split_asm sum.split_asm prod.split_asm if_split_asm)
qed

lemma usage_texts:
  "ToLower (TrimSpace ''reusable'') = ''reusable''" "ToLower (TrimSpace ''recurring'') = ''recurring''"
  "ToLower (TrimSpace ''single_use'') = ''single_use''"
  by code_simp+

subsection \<open>Properties\<close>

text \<open>
  C30. A link that passes validation is well formed: a title, positive durations, days of the
  week, a readable window that does not end before it starts, buffers and notice that are not
  negative, a known usage type whose use limit is set exactly for recurring links, and the
  horizon and refusal setting the table's constraints accept. Validating it again changes
  nothing, provided the window spans at least a minute.
\<close>

theorem validated_link_is_well_formed:
  assumes "validateSchedulingLink l = Inr l'"
  shows "link_wf l' \<and> (clockMinutes (ln_window_start l') \<noteq> clockMinutes (ln_window_end l') \<longrightarrow> validateSchedulingLink l' = Inr l')"
proof -
  obtain c d where v: "parseClock (ln_window_start l) = Some c" "parseClock (ln_window_end l) = Some d" "clock_ns c < clock_ns d"
    "l' = l\<lparr>ln_usage_type := usage_of l, ln_max_uses := (if usage_of l = ''recurring'' then ln_max_uses l else None),
            ln_window_start := clock_text c, ln_window_end := clock_text d\<rparr>"
    using assms by (rule validate_Inr)
  have wf: "link_wf l'" using assms by (rule validate_wf)
  obtain h m n h' m' n' where cd: "c = (h, m, n)" "d = (h', m', n')" by (cases c, cases d) auto
  have r: "0 \<le> h" "h < 24" "0 \<le> m" "m < 60" "0 \<le> h'" "h' < 24" "0 \<le> m'" "m' < 60"
    using parseClock_range [of "ln_window_start l" h m n] parseClock_range [of "ln_window_end l" h' m' n'] v cd by auto
  have ws: "parseClock (ln_window_start l') = Some (h, m, 0)" "parseClock (ln_window_end l') = Some (h', m', 0)"
    "clockMinutes (ln_window_start l') = Some (h * 60 + m)" "clockMinutes (ln_window_end l') = Some (h' * 60 + m')"
    using v(4) cd r by (simp_all add: parseClock_text clockMinutes_text)
  have ut: "ln_usage_type l' = ''reusable'' \<or> ln_usage_type l' = ''recurring'' \<or> ln_usage_type l' = ''single_use''"
    using wf by (auto simp: link_wf_def usage_ok_def split: option.splits)
  then have u: "usage_of l' = ln_usage_type l'"
    by (elim disjE) (simp_all only: usage_of_def usage_texts Let_def list.distinct if_False)
  have "validateSchedulingLink l' = Inr l'" if "h * 60 + m \<noteq> h' * 60 + m'"
  proof -
    have "h * 60 + m < h' * 60 + m'" using wf that ws by (simp add: link_wf_def)
    then have lt: "clock_ns (h, m, 0) < clock_ns (h', m', 0)" by (simp add: clock_ns_def)
    have same: "l'\<lparr>ln_usage_type := ln_usage_type l', ln_max_uses := (if ln_usage_type l' = ''recurring'' then ln_max_uses l' else None),
        ln_window_start := clock_text (h, m, 0), ln_window_end := clock_text (h', m', 0)\<rparr> = l'"
      using v(4) cd by (simp add: clock_text_def)
    have nr: "ln_usage_type l' = ''recurring'' \<Longrightarrow> \<exists>k. ln_max_uses l' = Some k \<and> 0 < k"
      using wf by (auto simp: link_wf_def usage_ok_def split: option.splits)
    show ?thesis
      unfolding validateSchedulingLink_def ws(1,2) Let_def u same option.case
      using wf lt ut nr by (auto simp: link_wf_def link_row_ok_def list_all_iff list_ex_iff split: option.splits)
  qed
  then show ?thesis using wf ws by simp
qed

definition ex_input :: schedulingLinkInput where
  "ex_input = \<lparr>in_title = '' Intro '', in_slug = ''My Call!'', in_duration_options = None, in_durations = Some [30],
     in_days_of_week = None, in_days = Some [''Mon'', ''friday''], in_window_start = ''9:00'', in_window_start_alias = '''',
     in_window_end = '''', in_window_end_alias = ''17:30:00'', in_buffer_before = 0, in_buffer_after = 5, in_min_notice = 60,
     in_usage_type = '''', in_max_uses = None, in_co_hosts = [], in_horizon = None, in_refusal = None\<rparr>"

definition ex_stored :: SchedulingLink where
  "ex_stored = \<lparr>ln_id = 0, ln_owner = 0, ln_slug = ''my-call'', ln_title = ''Intro'', ln_durations = [30], ln_days = [1, 5],
     ln_window_start = ''09:00'', ln_window_end = ''17:30'', ln_buffer_before = 0, ln_buffer_after = 5, ln_min_notice = 60,
     ln_usage_type = ''reusable'', ln_max_uses = None, ln_uses_count = 0, ln_active = False, ln_created_at = 0,
     ln_horizon_days = 60, ln_refusal_message = ''generic''\<rparr>"

lemma ex_normalized: "normalized ex_input = Inr ex_stored"
  by code_simp

theorem validated_link_is_well_formed_witness:
  "validateSchedulingLink (ex_stored\<lparr>ln_window_start := ''9:00'', ln_usage_type := '' Reusable''\<rparr>) = Inr ex_stored \<and>
     link_wf ex_stored \<and> validateSchedulingLink ex_stored = Inr ex_stored"
proof -
  have v: "validateSchedulingLink (ex_stored\<lparr>ln_window_start := ''9:00'', ln_usage_type := '' Reusable''\<rparr>) = Inr ex_stored"
    by code_simp
  have "clockMinutes (ln_window_start ex_stored) \<noteq> clockMinutes (ln_window_end ex_stored)" by code_simp
  with validated_link_is_well_formed [OF v] v show ?thesis by blast
qed

text \<open>
  A normalized slug has only lower-case letters, digits and single dashes, none of them at
  an end; normalizing it again leaves it as it is.
\<close>

theorem slug_normal_form:
  "slug_ok (normalizeSlug raw) \<and> normalizeSlug (normalizeSlug raw) = normalizeSlug raw"
  using normalizeSlug_ok normalizeSlug_same by blast

text \<open>
  C31. After a 201 the new link is the active link of its slug: it belongs to the caller, is
  well formed, has the slug that was asked for (or a generated one) and no uses; when none of
  the co-host emails is the caller's own, the caller is an accepted host of it.
\<close>

theorem created_link_is_found:
  assumes "createLink tzdb rq (Some input) sv = (sv', Answer 201 b)" "\<And>u. \<not> lr_host_write_fails rq u"
    and "\<not> list_ex (\<lambda>bk. bk_link bk = lr_new_id rq) (t_bookings (sv_db sv))"
  shows "\<exists>slug link. GetSchedulingLinkBySlug (sv_db sv') slug = Some link \<and>
     (normalizeSlug (in_slug input) \<noteq> '''' \<longrightarrow> slug = normalizeSlug (in_slug input)) \<and>
     ln_id link = lr_new_id rq \<and> ln_owner link = lr_user rq \<and> ln_active link \<and> link_wf link \<and> ln_uses_count link = 0 \<and>
     (list_ex (\<lambda>e. map_option us_id (read_email rq sv e) = Some (lr_user rq)) (in_co_hosts input) \<or>
      GetLinkHostStatus (sv_db sv') (ln_id link) (lr_user rq) = Some ''accepted'')"
proof -
  obtain link owner slug db newlink where c: "normalized input = Inr link" "choose_slug rq sv owner link = Inr slug"
    and cr: "CreateSchedulingLink (lr_new_id rq) (lr_now rq) (link\<lparr>ln_slug := slug, ln_owner := lr_user rq\<rparr>) (sv_db sv) = (db, Inr newlink)"
    and sv': "sv' = foldl (add_cohost rq (ln_id newlink))
       (put_db (AddLinkHost (lr_host_id rq (lr_user rq)) (lr_now rq) (ln_id newlink) (lr_user rq) ''accepted'' db) sv) (in_co_hosts input)"
    using assms(1) by (rule createLink_201)
  let ?l = "link\<lparr>ln_slug := slug, ln_owner := lr_user rq\<rparr>"
  have wf: "link_wf ?l" using c(1) validate_wf by (auto simp: normalized_def)
  let ?row = "?l\<lparr>ln_id := lr_new_id rq, ln_active := True, ln_created_at := lr_now rq\<rparr>"
  have db: "db = (sv_db sv)\<lparr>t_links := t_links (sv_db sv) @ [?row]\<rparr>" "newlink = with_uses db ?row"
    using cr link_defaults_wf [OF wf] by (auto simp: CreateSchedulingLink_def Let_def split: if_splits)
  have links: "t_links (sv_db sv') = t_links (sv_db sv) @ [?row]"
    by (simp add: sv' foldl_add_cohost_links db)
  have books: "t_bookings (sv_db sv') = t_bookings (sv_db sv)"
    unfolding sv' by (simp add: foldl_add_cohost_bookings db)
  have free: "\<not> (ln_slug x = slug \<and> ln_active x)" if "x \<in> set (t_links (sv_db sv))" for x
    using choose_slug_free [OF c(2)] that by (auto simp: SlugExists_def list_ex_iff)
  have "find (\<lambda>x. ln_slug x = slug \<and> ln_active x) (t_links (sv_db sv')) = Some ?row"
    unfolding links by (rule find_last) (use free in simp_all)
  then have found: "GetSchedulingLinkBySlug (sv_db sv') slug = Some (with_uses (sv_db sv') ?row)"
    by (simp add: GetSchedulingLinkBySlug_def)
  have uses: "uses_count (sv_db sv') (lr_new_id rq) = 0"
    using assms(3) by (auto simp: uses_count_def books list_ex_iff filter_empty_conv)
  have asked: "ln_slug link = normalizeSlug (in_slug input)"
    using c(1) by (auto simp: normalized_def elim!: validate_Inr)
  have slug: "slug = ln_slug link" if "ln_slug link \<noteq> ''''"
    using c(2) that by (auto simp: choose_slug_def split: if_splits)
  have st: "GetLinkHostStatus (sv_db sv') (lr_new_id rq) (lr_user rq) =
     (if list_ex (\<lambda>e. map_option us_id (read_email rq sv e) = Some (lr_user rq)) (in_co_hosts input) then Some ''pending'' else Some ''accepted'')"
    using status_add_all [OF assms(2)] unfolding sv' by (simp add: db(2) with_uses_def status_Add read_email_put)
  show ?thesis
    using found uses wf asked slug st
    by (intro exI [of _ slug] exI [of _ "with_uses (sv_db sv') ?row"]) (auto simp: with_uses_def link_wf_uses)
qed

definition ex_user :: "uuid \<Rightarrow> string \<Rightarrow> string \<Rightarrow> User" where
  "ex_user i email nm = \<lparr>us_id = i, us_email = email, us_name = nm, us_avatar = '''', us_provider = ''google'',
     us_provider_id = '''', us_org = None, us_created_at = 0\<rparr>"

definition ex_site :: server where
  "ex_site = \<lparr>sv_db = \<lparr>t_links = [], t_hosts = [], t_bookings = [], t_events = []\<rparr>, sv_focus = [], sv_settings = [],
     sv_users = [ex_user 7 ''ann@x.org'' ''Ann Lee'', ex_user 8 ''bob@x.org'' ''Bob'', ex_user 9 ''no@x.org'' '' ''],
     sv_create_limiter = bookingCreateLimiter, sv_slots_limiter = bookingSlotsLimiter\<rparr>"

definition ex_call :: "uuid \<Rightarrow> uuid option \<Rightarrow> link_request" where
  "ex_call u i = \<lparr>lr_user = u, lr_id = i, lr_read_fails = False, lr_owner_fails = False, lr_zone_fails = (\<lambda>_. None),
     lr_slug_fails = False, lr_stmt_fails = False, lr_owner_host_fails = False, lr_status_fails = False,
     lr_hosts_fail = False, lr_user_fails = (\<lambda>_. False), lr_email_fails = (\<lambda>_. False),
     lr_host_write_fails = (\<lambda>_. False), lr_remove_fails = False, lr_invite_link_fails = (\<lambda>_. False), lr_now = 5, lr_new_id = 1,
     lr_host_id = (\<lambda>u. u), lr_random = (\<lambda>_. ''0a1b'')\<rparr>"

abbreviation no_tzdb :: "string \<Rightarrow> location option" where "no_tzdb \<equiv> \<lambda>_. None"

definition ex_created :: "string list \<Rightarrow> server \<times> link_answer" where
  "ex_created cohosts = createLink no_tzdb (ex_call 7 None) (Some (ex_input\<lparr>in_co_hosts := cohosts\<rparr>)) ex_site"

definition is_answer :: "int \<Rightarrow> link_answer \<Rightarrow> bool" where
  "is_answer st a \<longleftrightarrow> (case a of Answer s b \<Rightarrow> s = st | Panic \<Rightarrow> False)"

lemma is_answer_obtain: "is_answer st (snd p) \<Longrightarrow> \<exists>b. p = (fst p, Answer st b)"
  by (cases p) (auto simp: is_answer_def split: link_answer.splits)

theorem created_link_is_found_witness:
  "\<exists>slug link. GetSchedulingLinkBySlug (sv_db (fst (ex_created [''Bob@x.org'']))) slug = Some link \<and> ln_owner link = 7 \<and>
     link_wf link \<and> GetLinkHostStatus (sv_db (fst (ex_created [''Bob@x.org'']))) (ln_id link) 7 = Some ''accepted''"
proof -
  have "is_answer 201 (snd (ex_created [''Bob@x.org'']))" by code_simp
  then obtain b where c: "createLink no_tzdb (ex_call 7 None) (Some (ex_input\<lparr>in_co_hosts := [''Bob@x.org'']\<rparr>)) ex_site =
      (fst (ex_created [''Bob@x.org'']), Answer 201 b)"
    using is_answer_obtain unfolding ex_created_def by blast
  have w: "\<And>u. \<not> lr_host_write_fails (ex_call 7 None) u" by (simp add: ex_call_def)
  have n: "\<not> list_ex (\<lambda>bk. bk_link bk = lr_new_id (ex_call 7 None)) (t_bookings (sv_db ex_site))" by code_simp
  have e: "\<not> list_ex (\<lambda>e. map_option us_id (read_email (ex_call 7 None) ex_site e) = Some (lr_user (ex_call 7 None)))
      (in_co_hosts (ex_input\<lparr>in_co_hosts := [''Bob@x.org'']\<rparr>))" by code_simp
  have u: "lr_user (ex_call 7 None) = 7" by (simp add: ex_call_def)
  from created_link_is_found [OF c w n] e u show ?thesis by metis
qed

text \<open>
  Setting a link's co-hosts works by difference: on that link the owner's own row is not
  touched, a listed user keeps their status or becomes pending, anyone else's row is gone; the
  hosts of every other link stay as they are.
\<close>

theorem cohosts_set_by_difference:
  assumes "\<not> lr_remove_fails rq" "\<And>u. \<not> lr_host_write_fails rq u"
  shows "GetLinkHostStatus (sv_db (set_cohosts rq l emails sv)) l' v =
     (if l' \<noteq> l \<or> v = lr_user rq then GetLinkHostStatus (sv_db sv) l' v
      else if list_ex (\<lambda>e. map_option us_id (read_email rq sv e) = Some v) emails
      then Some (or_else (GetLinkHostStatus (sv_db sv) l v) ''pending'')
      else None)"
proof -
  let ?keep = "map us_id (List.map_filter (read_email rq sv) emails)"
  have k: "v \<in> set ?keep \<longleftrightarrow> list_ex (\<lambda>e. map_option us_id (read_email rq sv e) = Some v) emails"
    by (force simp: List.map_filter_def list_ex_iff)
  show ?thesis
    unfolding k [symmetric] set_cohosts_def Let_def status_invite_all [OF assms(2)]
    using assms(1) by (auto simp: status_RemoveExcept)
qed

theorem cohosts_set_by_difference_witness:
  "GetLinkHostStatus (sv_db (set_cohosts (ex_call 7 (Some 1)) 1 [''bob@x.org''] (fst (ex_created [])))) 1 8 = Some ''pending''"
proof -
  have r: "\<not> lr_remove_fails (ex_call 7 (Some 1))" "\<And>u. \<not> lr_host_write_fails (ex_call 7 (Some 1)) u" "lr_user (ex_call 7 (Some 1)) = 7"
    by (simp_all add: ex_call_def)
  have e: "list_ex (\<lambda>e. map_option us_id (read_email (ex_call 7 (Some 1)) (fst (ex_created [])) e) = Some 8) [''bob@x.org'']"
    "GetLinkHostStatus (sv_db (fst (ex_created []))) 1 8 = None" by code_simp+
  show ?thesis
    using cohosts_set_by_difference [OF r(1,2), of 1 "[''bob@x.org'']" "fst (ex_created [])" 1 8] e r(3)
    by (simp add: or_else_def)
qed

text \<open>
  A caller who neither owns a link nor is an accepted co-host of it gets, for its id, the
  answer an unknown id gets: the answer does not reveal whether the link exists.
\<close>

theorem getLink_hides_links:
  assumes "lr_id rq = Some i" "\<not> lr_read_fails rq" "\<not> lr_status_fails rq"
    and "case GetSchedulingLinkByID (sv_db sv) i of None \<Rightarrow> True
       | Some link \<Rightarrow> ln_owner link \<noteq> lr_user rq \<and> GetLinkHostStatus (sv_db sv) i (lr_user rq) \<noteq> Some ''accepted''"
  shows "getLink tzdb rq sv = Answer 404 (LinkError ''not found'')"
proof -
  have "ln_id link = i" if "GetSchedulingLinkByID (sv_db sv) i = Some link" for link
    using that by (auto simp: GetSchedulingLinkByID_def with_uses_def find_Some_iff)
  then show ?thesis
    using assms by (auto simp: getLink_def with_link_def server_fails_def fails_def split: option.splits)
qed

theorem getLink_hides_links_witness:
  "getLink no_tzdb (ex_call 8 (Some 1)) (fst (ex_created [''bob@x.org''])) = Answer 404 (LinkError ''not found'')"
proof (rule getLink_hides_links)
  show "case GetSchedulingLinkByID (sv_db (fst (ex_created [''bob@x.org'']))) 1 of None \<Rightarrow> True
    | Some link \<Rightarrow> ln_owner link \<noteq> lr_user (ex_call 8 (Some 1)) \<and>
        GetLinkHostStatus (sv_db (fst (ex_created [''bob@x.org'']))) 1 (lr_user (ex_call 8 (Some 1))) \<noteq> Some ''accepted''"
    by code_simp
qed (simp_all add: ex_call_def)

text \<open>
  The requests that change links or host rows, and what of a link's rows is not the caller's
  own: the link, the host rows of other users and the bookings. \<open>keeps i u\<close> says that a step
  leaves those of link \<open>i\<close> as they are and gives user \<open>u\<close> no host row.
\<close>

datatype link_op = CreateOp "schedulingLinkInput option" | UpdateOp "schedulingLinkPatch option" | DeleteOp
  | InviteOp "string option" | AcceptOp | DeclineOp | LeaveOp

primrec run_link_op :: "(string \<Rightarrow> location option) \<Rightarrow> link_request \<Rightarrow> link_op \<Rightarrow> server \<Rightarrow> server" where
  "run_link_op tzdb rq (CreateOp body) sv = fst (createLink tzdb rq body sv)"
| "run_link_op tzdb rq (UpdateOp body) sv = fst (updateLink tzdb rq body sv)"
| "run_link_op tzdb rq DeleteOp sv = fst (deleteLink rq sv)"
| "run_link_op tzdb rq (InviteOp body) sv = fst (inviteHost rq body sv)"
| "run_link_op tzdb rq AcceptOp sv = fst (acceptInvite rq sv)"
| "run_link_op tzdb rq DeclineOp sv = fst (declineInvite rq sv)"
| "run_link_op tzdb rq LeaveOp sv = fst (leaveLink rq sv)"

definition other_hosts :: "link_db \<Rightarrow> uuid \<Rightarrow> uuid \<Rightarrow> LinkHost list" where
  "other_hosts db i u = filter (\<lambda>h. lh_link h = i \<and> lh_user h \<noteq> u) (t_hosts db)"

definition keeps :: "uuid \<Rightarrow> uuid \<Rightarrow> link_db \<Rightarrow> link_db \<Rightarrow> bool" where
  "keeps i u db db' \<longleftrightarrow> filter (\<lambda>l. ln_id l = i) (t_links db') = filter (\<lambda>l. ln_id l = i) (t_links db) \<and>
     other_hosts db' i u = other_hosts db i u \<and>
     filter (\<lambda>b. bk_link b = i) (t_bookings db') = filter (\<lambda>b. bk_link b = i) (t_bookings db) \<and>
     (list_ex (is_host_row i u) (t_hosts db') \<longrightarrow> list_ex (is_host_row i u) (t_hosts db))"

lemma keeps_refl [simp]: "keeps i u db db"
  by (simp add: keeps_def)

lemma keeps_trans: "keeps i u a b \<Longrightarrow> keeps i u b c \<Longrightarrow> keeps i u a c"
  by (auto simp: keeps_def)

lemma filter_map_other: "(\<And>x. P (f x) \<longleftrightarrow> P x) \<Longrightarrow> (\<And>x. P x \<Longrightarrow> f x = x) \<Longrightarrow> filter P (map f xs) = filter P xs"
  by (induction xs) auto

text \<open>The storage operations on another link, and on one's own host row.\<close>

lemma keeps_ops:
  shows "l \<noteq> i \<Longrightarrow> keeps i u db (AddLinkHost newid now l v st db)"
    and "l \<noteq> i \<Longrightarrow> keeps i u db (fst (InviteLinkHost newid now l v db))"
    and "l \<noteq> i \<Longrightarrow> keeps i u db (RemoveLinkHostsExcept l v keep db)"
    and "keeps i u db (fst (RemoveLinkHost l u db))"
    and "keeps i u db (fst (RespondToHostInvite now l u st db))"
    and "newid \<noteq> i \<Longrightarrow> keeps i u db (fst (CreateSchedulingLink newid now lk db))"
    and "l \<noteq> i \<Longrightarrow> keeps i u db (fst (UpdateSchedulingLink l lk db))"
    and "l \<noteq> i \<Longrightarrow> keeps i u db (DeleteSchedulingLink l db)"
proof -
  show "l \<noteq> i \<Longrightarrow> keeps i u db (AddLinkHost newid now l v st db)"
    by (auto simp: keeps_def AddLinkHost_def other_hosts_def is_host_row_def list_ex_iff new_host_def intro!: filter_map_other split: if_splits)
  show "l \<noteq> i \<Longrightarrow> keeps i u db (fst (InviteLinkHost newid now l v db))"
    by (auto simp: keeps_def InviteLinkHost_def other_hosts_def is_host_row_def list_ex_iff new_host_def Let_def split: option.splits)
  show "l \<noteq> i \<Longrightarrow> keeps i u db (RemoveLinkHostsExcept l v keep db)"
    by (auto simp: keeps_def RemoveLinkHostsExcept_def other_hosts_def is_host_row_def list_ex_iff intro!: filter_cong)
  show "keeps i u db (fst (RemoveLinkHost l u db))"
    by (auto simp: keeps_def RemoveLinkHost_def other_hosts_def is_host_row_def list_ex_iff intro!: filter_cong)
  show "keeps i u db (fst (RespondToHostInvite now l u st db))"
  proof -
    let ?f = "\<lambda>h. if is_host_row l u h then h\<lparr>lh_status := st, lh_responded_at := Some now\<rparr> else h"
    have "filter (\<lambda>h. lh_link h = i \<and> lh_user h \<noteq> u) (map ?f hs) = filter (\<lambda>h. lh_link h = i \<and> lh_user h \<noteq> u) hs" for hs
      by (rule filter_map_other) (auto simp: is_host_row_def)
    moreover have "list_ex (is_host_row i u) (map ?f hs) = list_ex (is_host_row i u) hs" for hs
      by (induction hs) (auto simp: is_host_row_def)
    ultimately show ?thesis by (simp add: keeps_def RespondToHostInvite_def other_hosts_def)
  qed
  show "newid \<noteq> i \<Longrightarrow> keeps i u db (fst (CreateSchedulingLink newid now lk db))"
    by (auto simp: keeps_def CreateSchedulingLink_def other_hosts_def Let_def)
  show "l \<noteq> i \<Longrightarrow> keeps i u db (fst (UpdateSchedulingLink l lk db))"
    by (auto simp: keeps_def UpdateSchedulingLink_def other_hosts_def Let_def link_written_def intro!: filter_map_other split: option.splits)
  show "l \<noteq> i \<Longrightarrow> keeps i u db (DeleteSchedulingLink l db)"
    by (auto simp: keeps_def DeleteSchedulingLink_def other_hosts_def intro!: filter_map_other)
qed

lemma keeps_foldl:
  "(\<And>sv x. keeps i u (sv_db sv) (sv_db (f sv x))) \<Longrightarrow> keeps i u (sv_db sv) (sv_db (foldl f sv xs))"
proof (induction xs arbitrary: sv)
  case (Cons x xs)
  then show ?case using keeps_trans by (metis foldl_Cons)
qed simp

lemma keeps_create:
  assumes "lr_new_id rq \<noteq> i"
  shows "keeps i u (sv_db sv) (sv_db (fst (createLink tzdb rq body sv)))"
proof -
  have add: "keeps i u (sv_db sv') (sv_db (add_cohost rq l sv' e))" if "l \<noteq> i" for sv' l e
    using keeps_ops(1) [OF that] by (simp add: add_cohost_def split: option.splits)
  have new: "keeps i u (sv_db sv) db \<and> (\<forall>row. res = Inr row \<longrightarrow> ln_id row \<noteq> i)"
    if "CreateSchedulingLink (lr_new_id rq) (lr_now rq) lk (sv_db sv) = (db, res)" for lk db res
    using keeps_ops(6) [OF assms, of u "sv_db sv" "lr_now rq" lk] that assms
    by (auto simp: CreateSchedulingLink_def Let_def with_uses_def split: if_splits)
  have fill: "keeps i u (sv_db sv) (sv_db (foldl (add_cohost rq (ln_id row))
      (put_db (AddLinkHost h now (ln_id row) v st db) sv) es))"
    if "keeps i u (sv_db sv) db" "ln_id row \<noteq> i" for h now row v st db es
    using keeps_trans [OF that(1) keeps_trans [OF keeps_ops(1) [OF that(2), of u db h now v st]
        keeps_foldl [of i u "add_cohost rq (ln_id row)" "put_db (AddLinkHost h now (ln_id row) v st db) sv" es, OF add [OF that(2)], simplified]]]
    by simp
  show ?thesis
    unfolding createLink_def Let_def
    by (auto split: option.splits sum.splits prod.splits dest!: new intro!: fill)
qed

lemma keeps_update:
  assumes "l \<noteq> i"
  shows "keeps i u (sv_db sv) (sv_db (set_cohosts rq l emails sv))"
proof -
  have "keeps i u (sv_db sv') (sv_db (invite_kept rq l sv' v))" for sv' v
    using keeps_ops(2) [OF assms] by (simp add: invite_kept_def)
  then have "keeps i u (sv_db sv') (sv_db (foldl (invite_kept rq l) sv' vs))" for sv' vs by (rule keeps_foldl)
  moreover have "keeps i u (sv_db sv) (sv_db (if lr_remove_fails rq then sv else put_db (RemoveLinkHostsExcept l (lr_user rq) keep (sv_db sv)) sv))" for keep
    using keeps_ops(3) [OF assms] by simp
  ultimately show ?thesis unfolding set_cohosts_def Let_def using keeps_trans by blast
qed

text \<open>A handler that gets past the owner check works on a link the caller owns.\<close>

lemma owned_other:
  assumes "with_owned_link rq sv = Inr (j, lk)" "GetSchedulingLinkByID (sv_db sv) i = Some link" "ln_owner link \<noteq> lr_user rq"
  shows "j \<noteq> i"
  using assms by (auto simp: with_owned_link_def with_link_def split: sum.splits option.splits if_splits)

lemma run_link_op_keeps:
  assumes "GetSchedulingLinkByID (sv_db sv) i = Some link" "ln_owner link \<noteq> lr_user rq" "lr_new_id rq \<noteq> i"
  shows "keeps i (lr_user rq) (sv_db sv) (sv_db (run_link_op tzdb rq op sv))"
proof (cases op)
  case (CreateOp body)
  then show ?thesis using keeps_create [OF assms(3)] by simp
next
  case (UpdateOp body)
  have "keeps i (lr_user rq) (sv_db sv) (sv_db (set_cohosts rq j emails (put_db db sv)))"
    if "with_owned_link rq sv = Inr (j, lk)" "UpdateSchedulingLink j upd (sv_db sv) = (db, res)" for j lk upd db res emails
    using keeps_trans [OF keeps_ops(7) [OF owned_other [OF that(1) assms(1,2)], of "lr_user rq" "sv_db sv" upd]]
      keeps_update [OF owned_other [OF that(1) assms(1,2)], of "lr_user rq" "put_db db sv" rq emails] that(2) by simp
  moreover have "keeps i (lr_user rq) (sv_db sv) db"
    if "with_owned_link rq sv = Inr (j, lk)" "UpdateSchedulingLink j upd (sv_db sv) = (db, res)" for j lk upd db res
    using keeps_ops(7) [OF owned_other [OF that(1) assms(1,2)], of "lr_user rq" "sv_db sv" upd] that(2) by simp
  ultimately show ?thesis
    unfolding UpdateOp run_link_op.simps updateLink_def Let_def
    by (auto split: sum.splits option.splits prod.splits)
next
  case DeleteOp
  then show ?thesis using owned_other [OF _ assms(1,2)]
    by (auto simp: deleteLink_def intro: keeps_ops(8) split: sum.splits)
next
  case (InviteOp body)
  have "keeps i (lr_user rq) (sv_db sv) db"
    if "with_owned_link rq sv = Inr (j, lk)" "InviteLinkHost h now j v (sv_db sv) = (db, r)" for j lk h now v db r
    using keeps_ops(2) [OF owned_other [OF that(1) assms(1,2)], of "lr_user rq" "sv_db sv" h now v] that(2) by simp
  then show ?thesis
    unfolding InviteOp run_link_op.simps inviteHost_def by (auto split: sum.splits option.splits prod.splits)
next
  case AcceptOp
  then show ?thesis using keeps_ops(5) [of i "lr_user rq" "sv_db sv" "lr_now rq" _ "''accepted''"]
    by (auto simp: acceptInvite_def respondToInvite_def split: option.splits prod.splits) (metis fst_conv)
next
  case DeclineOp
  then show ?thesis using keeps_ops(5) [of i "lr_user rq" "sv_db sv" "lr_now rq" _ "''declined''"]
    by (auto simp: declineInvite_def respondToInvite_def split: option.splits prod.splits) (metis fst_conv)
next
  case LeaveOp
  then show ?thesis using keeps_ops(4) [of i "lr_user rq" "sv_db sv"]
    by (auto simp: leaveLink_def split: sum.splits prod.splits) (metis fst_conv)
qed

lemma keeps_link:
  assumes "keeps i u db db'"
  shows "GetSchedulingLinkByID db' i = GetSchedulingLinkByID db i" "GetBookingsByLink db' i = GetBookingsByLink db i"
    "GetLinkHostStatus db i u = None \<Longrightarrow> GetLinkHostStatus db' i u = None"
proof -
  have hd: "find P xs = (case filter P xs of [] \<Rightarrow> None | x # _ \<Rightarrow> Some x)" for P :: "SchedulingLink \<Rightarrow> bool" and xs
    by (induction xs) auto
  have u: "uses_count db' i = uses_count db i"
  proof -
    have c: "uses_count d i = int (length (filter live_booking (filter (\<lambda>b. bk_link b = i) (t_bookings d))))" for d
      by (simp add: uses_count_def)
    have "filter (\<lambda>b. bk_link b = i) (t_bookings db') = filter (\<lambda>b. bk_link b = i) (t_bookings db)"
      using assms by (simp add: keeps_def)
    then show ?thesis unfolding c by (rule arg_cong)
  qed
  have same: "find (\<lambda>l. ln_id l = i) (t_links db') = find (\<lambda>l. ln_id l = i) (t_links db)"
    unfolding hd using assms by (simp add: keeps_def)
  show "GetSchedulingLinkByID db' i = GetSchedulingLinkByID db i"
  proof (cases "find (\<lambda>l. ln_id l = i) (t_links db)")
    case (Some l)
    then have "ln_id l = i" by (auto simp: find_Some_iff)
    then show ?thesis using Some by (simp add: GetSchedulingLinkByID_def same with_uses_def u)
  qed (simp add: GetSchedulingLinkByID_def same)
  show "GetBookingsByLink db' i = GetBookingsByLink db i" using assms by (simp add: GetBookingsByLink_def keeps_def)
  show "GetLinkHostStatus db i u = None \<Longrightarrow> GetLinkHostStatus db' i u = None"
    using assms by (auto simp: GetLinkHostStatus_def keeps_def find_None_iff list_ex_iff)
qed

text \<open>
  C32. Whatever requests a user makes who does not own a link, one after another and on any
  links: that link stays as it is, with its bookings and the host rows of everyone else; the
  user gets no host row on it; and its bookings are not read to them. What such a user can
  change is a host row of their own that is already there, by answering or leaving.
\<close>

theorem link_changes_need_owner:
  assumes "GetSchedulingLinkByID (sv_db sv) i = Some link" "ln_owner link \<noteq> u"
    and "list_all (\<lambda>(rq, op). lr_user rq = u \<and> lr_new_id rq \<noteq> i) reqs"
    and "sv' = foldl (\<lambda>sv (rq, op). run_link_op tzdb rq op sv) sv reqs"
  shows "GetSchedulingLinkByID (sv_db sv') i = Some link \<and> GetBookingsByLink (sv_db sv') i = GetBookingsByLink (sv_db sv) i \<and>
     other_hosts (sv_db sv') i u = other_hosts (sv_db sv) i u \<and>
     (GetLinkHostStatus (sv_db sv) i u = None \<longrightarrow> GetLinkHostStatus (sv_db sv') i u = None) \<and>
     (\<forall>rq. lr_user rq = u \<and> lr_id rq = Some i \<longrightarrow> \<not> is_answer 200 (listBookings rq sv'))"
proof -
  have k: "keeps i u (sv_db sv) (sv_db sv')"
    using assms(1,3) unfolding assms(4)
  proof (induction reqs arbitrary: sv)
    case (Cons r reqs)
    obtain rq op where r: "r = (rq, op)" by (cases r)
    have one: "keeps i u (sv_db sv) (sv_db (run_link_op tzdb rq op sv))"
      using run_link_op_keeps [of sv i link rq tzdb op] Cons.prems assms(2) r by simp
    have "GetSchedulingLinkByID (sv_db (run_link_op tzdb rq op sv)) i = Some link"
      using keeps_link(1) [OF one] Cons.prems(1) by simp
    from keeps_trans [OF one Cons.IH [OF this]] show ?case using Cons.prems(2) r by simp
  qed simp
  have link: "GetSchedulingLinkByID (sv_db sv') i = Some link" using keeps_link(1) [OF k] assms(1) by simp
  have "\<not> is_answer 200 (listBookings rq sv')" if "lr_user rq = u" "lr_id rq = Some i" for rq
    using that link assms(2)
    by (simp add: listBookings_def with_owned_link_def with_link_def fails_def is_answer_def)
  then show ?thesis using link keeps_link(2,3) [OF k] k by (auto simp: keeps_def)
qed

text \<open>Bob, whom Ann invited, accepts; he then cannot delete her link nor invite another host.\<close>

definition ex_bob :: link_request where "ex_bob = (ex_call 8 (Some 1))\<lparr>lr_new_id := 2\<rparr>"

theorem link_changes_need_owner_witness:
  "let sv = fst (ex_created [''bob@x.org'']); sv' = foldl (\<lambda>sv (rq, op). run_link_op no_tzdb rq op sv) sv
       [(ex_bob, AcceptOp), (ex_bob, DeleteOp), (ex_bob, InviteOp (Some ''bob@x.org''))]
   in map_option ln_owner (GetSchedulingLinkByID (sv_db sv') 1) = Some 7 \<and>
      GetSchedulingLinkByID (sv_db sv') 1 = GetSchedulingLinkByID (sv_db sv) 1 \<and>
      other_hosts (sv_db sv') 1 8 = other_hosts (sv_db sv) 1 8 \<and> sv' \<noteq> sv"
proof -
  let ?sv = "fst (ex_created [''bob@x.org''])"
  let ?reqs = "[(ex_bob, AcceptOp), (ex_bob, DeleteOp), (ex_bob, InviteOp (Some ''bob@x.org''))]"
  let ?sv' = "foldl (\<lambda>sv (rq, op). run_link_op no_tzdb rq op sv) ?sv ?reqs"
  have o: "map_option ln_owner (GetSchedulingLinkByID (sv_db ?sv) 1) = Some 7"
    and r: "list_all (\<lambda>(rq, op). lr_user rq = 8 \<and> lr_new_id rq \<noteq> 1) ?reqs"
    and n: "GetLinkHostStatus (sv_db ?sv) 1 8 = Some ''pending''" "GetLinkHostStatus (sv_db ?sv') 1 8 = Some ''accepted''"
    by code_simp+
  obtain link where l: "GetSchedulingLinkByID (sv_db ?sv) 1 = Some link" "ln_owner link = 7" using o by auto
  have "?sv' \<noteq> ?sv" using n by auto
  then show ?thesis
    using link_changes_need_owner [OF l(1) _ r refl, of no_tzdb] l by (simp add: Let_def)
qed

text \<open>
  The owner's own host row is not protected: naming oneself among the co-hosts of a new link
  turns the owner's accepted row into a pending one, and declining as the owner turns it into a
  declined one; either way the new link has no accepted host left.
\<close>

theorem owner_can_lose_own_link:
  "is_answer 201 (snd (ex_created [''Ann@x.org''])) \<and>
   GetLinkHostStatus (sv_db (fst (ex_created [''Ann@x.org'']))) 1 7 = Some ''pending'' \<and>
   GetAcceptedHosts (sv_db (fst (ex_created [''Ann@x.org'']))) 1 = [] \<and>
   is_answer 200 (snd (declineInvite (ex_call 7 (Some 1)) (fst (ex_created [])))) \<and>
   GetAcceptedHosts (sv_db (fst (declineInvite (ex_call 7 (Some 1)) (fst (ex_created []))))) 1 = []"
  by (intro conjI; code_simp)

text \<open>
  A link without a slug, created by a user whose stored name is blank, does not get an
  answer: the slug generator indexes the first word of the name and panics.
\<close>

theorem blank_owner_name_panics:
  "createLink no_tzdb (ex_call 9 None) (Some (ex_input\<lparr>in_slug := ''''\<rparr>)) ex_site = (ex_site, Panic)"
proof -
  have "snd (createLink no_tzdb (ex_call 9 None) (Some (ex_input\<lparr>in_slug := ''''\<rparr>)) ex_site) = Panic" by code_simp
  then show ?thesis by (rule createLink_panic)
qed

end
