(* ===== verification/Buffer.thy ===== *)
theory Buffer
  imports Settings
begin

section \<open>Buffer: buffer time around meetings\<close>

text \<open>
  \<^verbatim>\<open>backend/engine/buffer.go\<close>: \<^verbatim>\<open>ComputeBufferBlocks\<close>. The meetings that qualify are the opaque
  events with readable times that are long enough; a buffer is the time before or after one
  of them, cut at the working day.
\<close>

definition opaque :: "event \<Rightarrow> bool" where
  "opaque ev \<longleftrightarrow> ev_transparency ev \<noteq> ''transparent''"

definition buffer_min_minutes :: "Settings \<Rightarrow> int" where
  "buffer_min_minutes s = (if se_buffer_min s \<le> 0 then 1 else se_buffer_min s)"

definition buffer_meetings :: "event list \<Rightarrow> Settings \<Rightarrow> interval list" where
  "buffer_meetings events s = List.map_filter (\<lambda>ev.
      if \<not> opaque ev then None
      else case event_times ev of
          None \<Rightarrow> None
        | Some (a, b) \<Rightarrow> if minutes_of (Sub b a) < buffer_min_minutes s then None else Some (ivl a b)) events"

definition buffer_before :: "Settings \<Rightarrow> gotime \<Rightarrow> interval \<Rightarrow> interval list" where
  "buffer_before s workStart m =
     (let before = se_buffer_before s * minute_ns
      in if before > 0
         then let b = Add (istart m) (- before);
                  b = (if Before b workStart then workStart else b)
              in if Before b (istart m) then [ivl b (istart m)] else []
         else [])"

definition buffer_after :: "Settings \<Rightarrow> gotime \<Rightarrow> interval \<Rightarrow> interval list" where
  "buffer_after s workEnd m =
     (let after = se_buffer_after s * minute_ns
      in if after > 0
         then let b = Add (iend m) after;
                  b = (if After b workEnd then workEnd else b)
              in if After b (iend m) then [ivl (iend m) b] else []
         else [])"

definition ComputeBufferBlocks :: "event list \<Rightarrow> Settings \<Rightarrow> gotime \<Rightarrow> gotime \<Rightarrow> interval list" where
  "ComputeBufferBlocks events s workStart workEnd =
     (if \<not> se_buffer_enabled s then []
      else if se_buffer_before s = 0 \<and> se_buffer_after s = 0 then []
      else let meetings = buffer_meetings events s;
               buffers = concat (map (\<lambda>m. buffer_before s workStart m @ buffer_after s workEnd m) meetings)
           in if meetings = [] then []
              else if \<not> se_buffer_skip s then buffers
              else filter (\<lambda>buf. \<not> overlapsWith buf meetings) buffers)"

subsection \<open>Properties\<close>

lemma buffer_before_mem:
  assumes "b \<in> set (buffer_before s ws m)"
  shows "iend b = istart m" "lo b < hi b" "ns ws \<le> lo b" "lo m - se_buffer_before s * minute_ns \<le> lo b"
  using assms by (auto simp: buffer_before_def Let_def time_cmp_defs split: if_splits)

lemma buffer_after_mem:
  assumes "b \<in> set (buffer_after s we m)"
  shows "istart b = iend m" "lo b < hi b" "hi b \<le> ns we" "hi b \<le> hi m + se_buffer_after s * minute_ns"
  using assms by (auto simp: buffer_after_def Let_def time_cmp_defs split: if_splits)

lemma ComputeBufferBlocks_source:
  assumes "b \<in> set (ComputeBufferBlocks events s ws we)"
  obtains m where "m \<in> set (buffer_meetings events s)"
    "b \<in> set (buffer_before s ws m) \<or> b \<in> set (buffer_after s we m)"
  using assms by (auto simp: ComputeBufferBlocks_def Let_def split: if_splits)

lemma ComputeBufferBlocks_nonempty: "b \<in> set (ComputeBufferBlocks events s ws we) \<Longrightarrow> lo b < hi b"
  by (erule ComputeBufferBlocks_source) (auto dest: buffer_before_mem(2) buffer_after_mem(2))

lemma ComputeBufferBlocks_valid: "list_all valid_ivl (ComputeBufferBlocks events s ws we)"
  using ComputeBufferBlocks_nonempty by (force simp: list_all_iff valid_ivl_def)

lemma ComputeBufferBlocks_skip:
  assumes "se_buffer_skip s" "b \<in> set (ComputeBufferBlocks events s ws we)" "m \<in> set (buffer_meetings events s)"
  shows "\<not> overlaps b m"
  using assms by (auto simp: ComputeBufferBlocks_def Let_def overlapsWith_def list_ex_iff split: if_splits)

text \<open>
  Without the back-to-back rule, a meeting's whole buffers are there: the time before it that
  lies in the working day, and the time after it.
\<close>

lemma ComputeBufferBlocks_complete:
  assumes "se_buffer_enabled s" "\<not> se_buffer_skip s" "m \<in> set (buffer_meetings events s)"
    and "0 < se_buffer_before s" "ns ws < lo m"
  shows "ivl (if ns ws \<le> lo m - se_buffer_before s * minute_ns
              then Add (istart m) (- (se_buffer_before s * minute_ns)) else ws) (istart m)
     \<in> set (ComputeBufferBlocks events s ws we)"
proof -
  have "ivl (if ns ws \<le> lo m - se_buffer_before s * minute_ns
              then Add (istart m) (- (se_buffer_before s * minute_ns)) else ws) (istart m)
     \<in> set (buffer_before s ws m)"
    using assms(4,5) by (auto simp: buffer_before_def Let_def time_cmp_defs)
  moreover have "buffer_meetings events s \<noteq> []" using assms(3) by auto
  ultimately show ?thesis
    using assms(1-4) by (auto simp: ComputeBufferBlocks_def Let_def intro!: bexI [of _ m])
qed

end
