(* ===== verification/FocusTime.thy ===== *)
theory FocusTime
  imports FocusStore Buffer
begin

section \<open>FocusTime: placing focus blocks\<close>

text \<open>
  \<^verbatim>\<open>backend/engine/focus_time.go\<close> and \<^verbatim>\<open>focus_time_cleaner.go\<close>: a run places focus blocks on the
  five working days of a week, in the free time of the day with the best score; clearing a
  week deletes them. The calendar provider is the parameter \<open>env\<close>: what it answers to a list,
  to the \<open>n\<close>-th creation and to a deletion, and which storage calls fail. The state is the two
  tables and the events sent to the calendar.
\<close>

record scoredSlot =
  ss_iv :: interval
  ss_score :: int

record FocusBlock =
  cb_event :: string
  cb_start :: gotime
  cb_end :: gotime
  cb_date :: int

record FocusRunResult =
  fr_week :: gotime
  fr_created :: "FocusBlock list"
  fr_skipped :: "int list"
  fr_total :: int
  fr_errors :: "string list"

record focus_env =
  fe_list :: "gotime \<Rightarrow> gotime \<Rightarrow> string + event list"
  fe_create :: "nat \<Rightarrow> event \<Rightarrow> string + string"
  fe_delete :: "string \<Rightarrow> string option"
  fe_minutes_fail :: "int \<Rightarrow> bool"
  fe_save_fail :: "nat \<Rightarrow> string option"
  fe_drop_fail :: "string \<Rightarrow> string option"
  fe_week_fail :: "string option"
  fe_audit_ok :: bool

record focus_state =
  fs_rows :: "FocusRow list"
  fs_audit :: "AuditRow list"
  fs_sent :: "event list"
  fs_creates :: nat

subsection \<open>The source's functions\<close>

definition clip_event :: "gotime \<Rightarrow> gotime \<Rightarrow> event \<Rightarrow> interval option" where
  "clip_event workStart workEnd ev =
     (if \<not> opaque ev then None
      else case event_times ev of
          None \<Rightarrow> None
        | Some (a, b) \<Rightarrow>
            if Before b workStart \<or> After a workEnd then None
            else Some (ivl (if Before a workStart then workStart else a) (if After b workEnd then workEnd else b)))"

definition lunch_interval :: "Settings \<Rightarrow> gotime \<Rightarrow> location \<Rightarrow> interval list" where
  "lunch_interval s day loc =
     (case LunchWindow s (In day loc) of
        (ls, le, enabled) \<Rightarrow> if enabled then [ivl (parseHHMM ls day loc) (parseHHMM le day loc)] else [])"

definition buildBusy :: "event list \<Rightarrow> gotime \<Rightarrow> gotime \<Rightarrow> Settings \<Rightarrow> gotime \<Rightarrow> location \<Rightarrow> interval list" where
  "buildBusy events workStart workEnd s day loc =
     mergeIntervals (lunch_interval s day loc @ List.map_filter (clip_event workStart workEnd) events @
       ComputeBufferBlocks events s workStart workEnd)"

definition scoreSlot :: "interval \<Rightarrow> gotime \<Rightarrow> int" where
  "scoreSlot iv day =
     (let hour = Hour (istart iv); dur = minutes_of (Sub (iend iv) (istart iv))
      in (if hour < 12 then 30 else 0) + (if hour \<ge> 14 \<and> hour < 17 then 20 else 0) +
         go_quot dur 30 * 10 - (if Weekday day = 1 \<and> hour < 10 then 10 else 0))"

definition higher_score :: "scoredSlot \<Rightarrow> scoredSlot \<Rightarrow> bool" where
  "higher_score a b \<longleftrightarrow> ss_score a > ss_score b"

definition sortByScore :: "scoredSlot list \<Rightarrow> scoredSlot list" where
  "sortByScore slots = insertion_sort higher_score slots"

definition focus_candidates :: "Settings \<Rightarrow> gotime \<Rightarrow> interval list \<Rightarrow> scoredSlot list" where
  "focus_candidates s day free =
     map (\<lambda>iv. \<lparr>ss_iv = iv, ss_score = scoreSlot iv day\<rparr>)
       (filter (\<lambda>iv. \<not> minutes_of (Sub (iend iv) (istart iv)) < se_focus_min s) free)"

text \<open>The block taken from a free slot: its start after the buffer, at most the maximum, or none.\<close>

definition block_of :: "Settings \<Rightarrow> interval \<Rightarrow> interval option" where
  "block_of s iv =
     (let dur = minutes_of (Sub (iend iv) (istart iv));
          dur = (if dur > se_focus_max s then se_focus_max s else dur);
          b = Add (istart iv) (se_buffer_before s * minute_ns);
          e = Add b (dur * minute_ns);
          latest = Add (iend iv) (- (se_buffer_after s * minute_ns));
          e = (if After e latest then latest else e)
      in if minutes_of (Sub e b) < se_focus_min s then None else Some (ivl b e))"

definition focus_event :: "Settings \<Rightarrow> interval \<Rightarrow> event" where
  "focus_event s b = empty_event\<lparr>ev_summary := se_focus_label s, ev_description := ''Scheduled by Clockwise-like'',
     ev_transparency := ''transparent'', ev_visibility := ''public'', ev_color := ''7'',
     ev_start := at_time (istart b), ev_end := at_time (iend b)\<rparr>"

definition add_error :: "string \<Rightarrow> FocusRunResult \<Rightarrow> FocusRunResult" where
  "add_error e r = r\<lparr>fr_errors := fr_errors r @ [e]\<rparr>"

text \<open>One placed block: the event is created, the block is saved, the run counts it.\<close>

definition record_block ::
  "focus_env \<Rightarrow> uuid \<Rightarrow> int \<Rightarrow> interval \<Rightarrow> string \<Rightarrow> focus_state \<times> FocusRunResult \<Rightarrow> focus_state \<times> FocusRunResult" where
  "record_block env u dn b ident st =
     (let (w, r) = st;
          (w, r) = (case fe_save_fail env (fs_creates w) of
              Some e \<Rightarrow> (w, add_error (''save block '' @ format_date dn @ '': '' @ e) r)
            | None \<Rightarrow> (w\<lparr>fs_rows := SaveFocusBlock (fs_creates w) u ident dn (istart b) (iend b) (fs_rows w)\<rparr>, r))
      in (w, r\<lparr>fr_created := fr_created r @ [\<lparr>cb_event = ident, cb_start = istart b, cb_end = iend b, cb_date = dn\<rparr>],
               fr_total := fr_total r + minutes_of (Sub (iend b) (istart b))\<rparr>))"

fun place_blocks ::
  "focus_env \<Rightarrow> uuid \<Rightarrow> Settings \<Rightarrow> int \<Rightarrow> scoredSlot list \<Rightarrow> int \<Rightarrow> focus_state \<times> FocusRunResult \<Rightarrow> focus_state \<times> FocusRunResult" where
  "place_blocks env u s dn [] remaining st = st"
| "place_blocks env u s dn (cs # css) remaining st =
     (if remaining \<le> 0 then st
      else case block_of s (ss_iv cs) of
          None \<Rightarrow> place_blocks env u s dn css remaining st
        | Some b \<Rightarrow>
            let (w, r) = st; n = fs_creates w; w = w\<lparr>fs_creates := Suc n\<rparr>; ev = focus_event s b
            in (case fe_create env n ev of
                  Inl e \<Rightarrow> place_blocks env u s dn css remaining
                     (w, add_error (''create event '' @ format_date dn @ '': '' @ e) r)
                | Inr ident \<Rightarrow> place_blocks env u s dn css (remaining - minutes_of (Sub (iend b) (istart b)))
                     (record_block env u dn b ident (w\<lparr>fs_sent := fs_sent w @ [ev]\<rparr>, r))))"

definition existing_minutes :: "focus_env \<Rightarrow> uuid \<Rightarrow> int \<Rightarrow> focus_state \<Rightarrow> int" where
  "existing_minutes env u dn w = (if fe_minutes_fail env dn then 0 else FocusMinutesForDay (fs_rows w) u dn)"

definition skip_day :: "int \<Rightarrow> FocusRunResult \<Rightarrow> FocusRunResult" where
  "skip_day dn r = r\<lparr>fr_skipped := fr_skipped r @ [dn]\<rparr>"

definition day_candidates ::
  "Settings \<Rightarrow> gotime \<Rightarrow> location \<Rightarrow> gotime \<Rightarrow> gotime \<Rightarrow> event list \<Rightarrow> scoredSlot list" where
  "day_candidates s day loc workStart workEnd events =
     sortByScore (focus_candidates s day
       (subtractIntervals (ivl workStart workEnd) (buildBusy events workStart workEnd s day loc)))"

definition processDay ::
  "(string \<Rightarrow> location option) \<Rightarrow> focus_env \<Rightarrow> uuid \<Rightarrow> Settings \<Rightarrow> gotime \<Rightarrow> focus_state \<times> FocusRunResult
    \<Rightarrow> (focus_state \<times> FocusRunResult) \<times> string option" where
  "processDay tzdb env u s day st =
     (let (w, r) = st; dn = date_of day; existing = existing_minutes env u dn w
      in if existing \<ge> se_focus_target s then ((w, skip_day dn r), None)
         else let loc = location_or_utc tzdb (se_timezone s)
              in case WorkWindow s (In day loc) of (wsRaw, weRaw, enabled) \<Rightarrow>
                 if \<not> enabled then ((w, skip_day dn r), None)
                 else let workStart = parseHHMM wsRaw day loc; workEnd = parseHHMM weRaw day loc;
                          dayStart = go_date dn 0 0 0 0 loc; dayEnd = Add dayStart day_ns
                      in (case fe_list env dayStart dayEnd of
                            Inl e \<Rightarrow> ((w, r), Some (''list events: '' @ e))
                          | Inr events \<Rightarrow>
                              (place_blocks env u s dn (day_candidates s day loc workStart workEnd events)
                                 (se_focus_target s - existing) (w, r), None)))"

definition run_day ::
  "(string \<Rightarrow> location option) \<Rightarrow> focus_env \<Rightarrow> uuid \<Rightarrow> Settings \<Rightarrow> gotime \<Rightarrow> focus_state \<times> FocusRunResult \<Rightarrow> nat
    \<Rightarrow> focus_state \<times> FocusRunResult" where
  "run_day tzdb env u s monday st i =
     (let day = AddDays monday (int i)
      in case processDay tzdb env u s day st of
           (st', None) \<Rightarrow> st'
         | ((w, r), Some e) \<Rightarrow> (w, add_error (format_date (date_of day) @ '': '' @ e) r))"

text \<open>
  \<^verbatim>\<open>RunForUser\<close>, from the settings and the calendar client it opened (\<open>Inl\<close> when either could
  not be had).
\<close>

definition RunForUser ::
  "(string \<Rightarrow> location option) \<Rightarrow> focus_env \<Rightarrow> uuid \<Rightarrow> Settings result \<Rightarrow> unit result \<Rightarrow> gotime \<Rightarrow> focus_state
    \<Rightarrow> focus_state \<times> FocusRunResult result" where
  "RunForUser tzdb env u settings client targetWeek w =
     (if u = 0 then (w, Inl (OtherError ''userID is required''))
      else case settings of
          Inl e \<Rightarrow> (w, Inl e)
        | Inr s \<Rightarrow> (case client of
              Inl e \<Rightarrow> (w, Inl e)
            | Inr _ \<Rightarrow>
                let monday = startOfWeek targetWeek;
                    r = \<lparr>fr_week = monday, fr_created = [], fr_skipped = [], fr_total = 0, fr_errors = []\<rparr>;
                    (w, r) = foldl (run_day tzdb env u s monday) (w, r) [0..<5]
                in (w\<lparr>fs_audit := WriteAuditLog (fe_audit_ok env) u ''focus_created''
                        (FocusCreated (date_of monday) (length (fr_created r)) (fr_total r)) (fs_audit w)\<rparr>, Inr r)))"

text \<open>\<^verbatim>\<open>ClearWeek\<close>: the calendar's and the storage's errors are collected, every block is tried.\<close>

definition clear_block :: "focus_env \<Rightarrow> uuid \<Rightarrow> FocusRow list \<times> string list \<Rightarrow> FocusRow \<Rightarrow> FocusRow list \<times> string list" where
  "clear_block env u st b =
     (let (rows, errs) = st;
          errs = (case fe_delete env (fb_event b) of None \<Rightarrow> errs | Some e \<Rightarrow> errs @ [''delete event '' @ fb_event b @ '': '' @ e])
      in case fe_drop_fail env (fb_event b) of
           None \<Rightarrow> (DeleteFocusBlock u (fb_event b) rows, errs)
         | Some e \<Rightarrow> (rows, errs @ [''delete db block '' @ fb_event b @ '': '' @ e]))"

definition ClearWeek :: "focus_env \<Rightarrow> uuid \<Rightarrow> unit result \<Rightarrow> gotime \<Rightarrow> focus_state \<Rightarrow> focus_state \<times> (nat \<times> string list) result" where
  "ClearWeek env u client targetWeek w =
     (if u = 0 then (w, Inl (OtherError ''userID is required''))
      else case client of
          Inl e \<Rightarrow> (w, Inl e)
        | Inr _ \<Rightarrow> (case fe_week_fail env of
              Some e \<Rightarrow> (w, Inl (OtherError (''list focus blocks: '' @ e)))
            | None \<Rightarrow>
                let monday = startOfWeek targetWeek;
                    blocks = ListFocusBlocksForUserWeek (fs_rows w) u monday;
                    (rows, errs) = foldl (clear_block env u) (fs_rows w, []) blocks
                in (w\<lparr>fs_rows := rows,
                      fs_audit := WriteAuditLog (fe_audit_ok env) u ''focus_cleared''
                        (FocusCleared (date_of monday) (length blocks) errs) (fs_audit w)\<rparr>,
                    Inr (length blocks, errs))))"

subsection \<open>The block taken from a slot\<close>

lemma minutes_of_mult [simp]: "minutes_of (d * minute_ns) = d"
  by (simp add: minutes_of_def)

lemma minutes_of_le: "0 < n \<Longrightarrow> n \<le> minutes_of d \<Longrightarrow> n * minute_ns \<le> d"
  unfolding minutes_of_def by (rule go_quot_pos_le) simp_all

lemma minutes_of_ge: "0 < n \<Longrightarrow> n * minute_ns \<le> d \<Longrightarrow> n \<le> minutes_of d"
  using zdiv_mono1 [of "n * minute_ns" d minute_ns] by (simp add: minutes_of_def go_quot_nonneg)

lemma block_of_spec:
  assumes "block_of s iv = Some b" "0 \<le> se_buffer_before s" "0 \<le> se_buffer_after s" "0 < se_focus_min s"
  shows "lo iv + se_buffer_before s * minute_ns = lo b" "hi b \<le> hi iv - se_buffer_after s * minute_ns"
    "se_focus_min s * minute_ns \<le> hi b - lo b" "hi b - lo b \<le> se_focus_max s * minute_ns"
    "lo iv \<le> lo b" "hi b \<le> hi iv" "lo b < hi b"
proof -
  let ?m = "se_focus_min s" and ?d = "minutes_of (Sub (iend iv) (istart iv))"
  let ?c = "if ?d > se_focus_max s then se_focus_max s else ?d"
  have b: "istart b = Add (istart iv) (se_buffer_before s * minute_ns)"
    and e: "hi b = min (lo b + ?c * minute_ns) (hi iv - se_buffer_after s * minute_ns)"
    and m: "?m \<le> minutes_of (Sub (iend b) (istart b))"
    using assms(1) by (auto simp: block_of_def Let_def time_cmp_defs split: if_splits)
  show "lo iv + se_buffer_before s * minute_ns = lo b" using b by simp
  show "hi b \<le> hi iv - se_buffer_after s * minute_ns" using e by simp
  show len: "?m * minute_ns \<le> hi b - lo b" using minutes_of_le [OF assms(4) m] by (simp add: Sub_def)
  show "hi b - lo b \<le> se_focus_max s * minute_ns" using e by auto
  show "lo iv \<le> lo b" "hi b \<le> hi iv" "lo b < hi b" using b e len assms(2-4) by auto
qed

lemma set_sortByScore [simp]: "set (sortByScore xs) = set xs"
  by (simp add: sortByScore_def)

interpretation by_score: key_sorter higher_score "\<lambda>s. - ss_score s"
  by unfold_locales (simp add: higher_score_def)

lemma sortByScore_descending: "sorted_wrt (\<lambda>a b. ss_score b \<le> ss_score a) (sortByScore xs)"
  using by_score.insertion_sort_sorted_wrt [of xs] by (simp add: sortByScore_def)

subsection \<open>Placing blocks\<close>

definition block_ivl :: "FocusBlock \<Rightarrow> interval" where
  "block_ivl b = ivl (cb_start b) (cb_end b)"

definition block_minutes :: "FocusBlock \<Rightarrow> int" where
  "block_minutes b = minutes_of (Sub (cb_end b) (cb_start b))"

lemma record_block_created:
  assumes "record_block env u dn b ident st = (w', r')"
  shows "fr_created r' = fr_created (snd st) @ [\<lparr>cb_event = ident, cb_start = istart b, cb_end = iend b, cb_date = dn\<rparr>]"
    "fr_total r' = fr_total (snd st) + minutes_of (Sub (iend b) (istart b))"
  using assms by (auto simp: record_block_def add_error_def Let_def split: prod.splits option.splits)

text \<open>
  The blocks a call adds come one each from a subsequence of the candidates, the total grows
  by their minutes, and no block is added once the day's remaining minutes are used up.
\<close>

lemma place_blocks_spec:
  "\<exists>new. fr_created (snd (place_blocks env u s dn css rem st)) = fr_created (snd st) @ new \<and>
     fr_total (snd (place_blocks env u s dn css rem st)) = fr_total (snd st) + sum_list (map block_minutes new) \<and>
     list_all (\<lambda>b. cb_date b = dn \<and> (\<exists>cs \<in> set css. block_of s (ss_iv cs) = Some (block_ivl b))) new \<and>
     (\<forall>R. sorted_wrt (\<lambda>a b. \<forall>x y. block_of s (ss_iv a) = Some x \<longrightarrow> block_of s (ss_iv b) = Some y \<longrightarrow> R x y) css \<longrightarrow>
        sorted_wrt (\<lambda>a b. R (block_ivl a) (block_ivl b)) new) \<and>
     (\<forall>pre b. new = pre @ [b] \<longrightarrow> sum_list (map block_minutes pre) < rem)"
proof (induction css arbitrary: rem st)
  case (Cons cs css)
  obtain w r where st: "st = (w, r)" by (cases st)
  consider "rem \<le> 0 \<or> block_of s (ss_iv cs) = None" | b where "0 < rem" "block_of s (ss_iv cs) = Some b" by fastforce
  then show ?case
  proof cases
    case 1
    then show ?thesis using Cons [of rem st] by (auto simp: list_all_iff)
  next
    case (2 b)
    let ?w = "w\<lparr>fs_creates := Suc (fs_creates w)\<rparr>"
    show ?thesis
    proof (cases "fe_create env (fs_creates w) (focus_event s b)")
      case (Inl e)
      then show ?thesis
        using Cons [of rem "(?w, add_error (''create event '' @ format_date dn @ '': '' @ e) r)"] 2 st
        by (auto simp: Let_def add_error_def list_all_iff)
    next
      case (Inr ident)
      let ?nb = "\<lparr>cb_event = ident, cb_start = istart b, cb_end = iend b, cb_date = dn\<rparr>"
      let ?st = "record_block env u dn b ident (?w\<lparr>fs_sent := fs_sent ?w @ [focus_event s b]\<rparr>, r)"
      let ?m = "minutes_of (Sub (iend b) (istart b))"
      have rec: "fr_created (snd ?st) = fr_created r @ [?nb]" "fr_total (snd ?st) = fr_total r + ?m"
        using record_block_created [of env u dn b ident _ "fst ?st" "snd ?st"] by simp_all
      have nb: "block_ivl ?nb = b" "block_minutes ?nb = ?m" by (simp_all add: block_ivl_def block_minutes_def)
      obtain new where new: "fr_created (snd (place_blocks env u s dn css (rem - ?m) ?st)) = fr_created (snd ?st) @ new"
        "fr_total (snd (place_blocks env u s dn css (rem - ?m) ?st)) = fr_total (snd ?st) + sum_list (map block_minutes new)"
        "list_all (\<lambda>b. cb_date b = dn \<and> (\<exists>cs \<in> set css. block_of s (ss_iv cs) = Some (block_ivl b))) new"
        "\<And>R. sorted_wrt (\<lambda>a b. \<forall>x y. block_of s (ss_iv a) = Some x \<longrightarrow> block_of s (ss_iv b) = Some y \<longrightarrow> R x y) css \<Longrightarrow>
           sorted_wrt (\<lambda>a b. R (block_ivl a) (block_ivl b)) new"
        "\<And>pre b. new = pre @ [b] \<Longrightarrow> sum_list (map block_minutes pre) < rem - ?m"
        using Cons [of "rem - ?m" ?st] by blast
      have eq: "place_blocks env u s dn (cs # css) rem st = place_blocks env u s dn css (rem - ?m) ?st"
        using 2 Inr st by (simp add: Let_def)
      have "sum_list (map block_minutes pre) < rem" if "?nb # new = pre @ [b']" for pre b'
        using that new(5) 2(1) nb(2) by (cases pre) force+
      moreover have "sorted_wrt (\<lambda>a b. R (block_ivl a) (block_ivl b)) (?nb # new)"
        if "sorted_wrt (\<lambda>a b. \<forall>x y. block_of s (ss_iv a) = Some x \<longrightarrow> block_of s (ss_iv b) = Some y \<longrightarrow> R x y) (cs # css)" for R
        using that new(3,4) 2(2) nb(1) by (fastforce simp: list_all_iff)
      ultimately show ?thesis
        unfolding eq using new(1-3) rec nb 2(2) st by (intro exI [of _ "?nb # new"]) (auto simp: list_all_iff)
    qed
  qed
qed simp

subsection \<open>A day\<close>

text \<open>
  The settings and events for which the placement is right: buffers are not negative, the
  minimum is positive, the working window and the lunch window are not reversed, and no
  event ends before it starts. The hull of two intervals is the stretch from the earlier start
  to the later end.
\<close>

definition hull :: "interval \<Rightarrow> interval \<Rightarrow> interval" where
  "hull a b = ivl (if Before (istart b) (istart a) then istart b else istart a)
                  (if After (iend b) (iend a) then iend b else iend a)"

definition day_ok :: "Settings \<Rightarrow> gotime \<Rightarrow> location \<Rightarrow> gotime \<Rightarrow> gotime \<Rightarrow> event list \<Rightarrow> bool" where
  "day_ok s day loc workStart workEnd events \<longleftrightarrow>
     0 \<le> se_buffer_before s \<and> 0 \<le> se_buffer_after s \<and> 0 < se_focus_min s \<and>
     ns workStart < ns workEnd \<and> list_all valid_ivl (lunch_interval s day loc) \<and>
     list_all (\<lambda>ev. case event_times ev of None \<Rightarrow> True | Some (a, b) \<Rightarrow> ns a \<le> ns b) events"

lemma clip_event_Some:
  "clip_event ws we ev = Some iv \<longleftrightarrow>
   opaque ev \<and> (\<exists>a b. event_times ev = Some (a, b) \<and> ns ws \<le> ns b \<and> ns a \<le> ns we \<and>
     iv = ivl (if Before a ws then ws else a) (if After b we then we else b))"
proof (cases "event_times ev")
  case None
  then show ?thesis by (simp add: clip_event_def)
next
  case (Some p)
  obtain a b where p: "p = (a, b)" by (cases p)
  show ?thesis
    by (cases "Before b ws \<or> After a we") (auto simp: clip_event_def Some p Before_def [of b ws] After_def [of a we])
qed

lemma clip_event_valid:
  assumes "clip_event ws we ev = Some iv" "case event_times ev of None \<Rightarrow> True | Some (a, b) \<Rightarrow> ns a \<le> ns b" "ns ws < ns we"
  shows "valid_ivl iv"
  using assms by (auto simp: clip_event_Some valid_ivl_def time_cmp_defs)

lemma buildBusy_valid:
  assumes "day_ok s day loc ws we events"
  shows "list_all valid_ivl (lunch_interval s day loc @ List.map_filter (clip_event ws we) events @
       ComputeBufferBlocks events s ws we)"
proof -
  have "valid_ivl iv" if "iv \<in> set (List.map_filter (clip_event ws we) events)" for iv
    using that assms clip_event_valid by (fastforce simp: List.map_filter_def day_ok_def list_all_iff)
  then show ?thesis
    using assms ComputeBufferBlocks_valid [of events s ws we] by (auto simp: day_ok_def list_all_iff)
qed

lemma clip_overlap:
  assumes "opaque ev" "event_times ev = Some (a, b)" "overlaps blk (ivl a b)"
    "ns ws \<le> lo blk" "hi blk \<le> ns we" "lo blk < hi blk"
  shows "\<exists>iv. clip_event ws we ev = Some iv \<and> overlaps blk iv"
proof -
  let ?iv = "ivl (if Before a ws then ws else a) (if After b we then we else b)"
  have "ns a < hi blk" "lo blk < ns b" using assms(3) by (simp_all add: overlaps_iff)
  then have "overlaps blk ?iv" "ns ws \<le> ns b" "ns a \<le> ns we"
    using assms(4-6) by (simp_all add: overlaps_iff time_cmp_defs)
  then show ?thesis using assms(1,2) unfolding clip_event_Some by blast
qed

text \<open>Time of the working hours that no lunch break, no meeting's buffer and no opaque event meets.\<close>

definition unoccupied :: "Settings \<Rightarrow> gotime \<Rightarrow> location \<Rightarrow> gotime \<Rightarrow> gotime \<Rightarrow> event list \<Rightarrow> interval \<Rightarrow> bool" where
  "unoccupied s day loc workStart workEnd events iv \<longleftrightarrow>
     ns workStart \<le> lo iv \<and> hi iv \<le> ns workEnd \<and>
     list_all (\<lambda>l. \<not> overlaps iv l) (lunch_interval s day loc) \<and>
     list_all (\<lambda>m. \<not> overlaps iv m) (ComputeBufferBlocks events s workStart workEnd) \<and>
     list_all (\<lambda>ev. case event_times ev of
        Some (a, b) \<Rightarrow> \<not> (opaque ev \<and> overlaps iv (ivl a b)) | None \<Rightarrow> True) events"

text \<open>The free intervals of a day are unoccupied, and unoccupied time lies in one of them.\<close>

lemma free_unoccupied:
  assumes ok: "day_ok s day loc ws we events"
    and f: "f \<in> set (subtractIntervals (ivl ws we) (buildBusy events ws we s day loc))"
    and blk: "lo f \<le> lo blk" "hi blk \<le> hi f" "lo blk < hi blk"
  shows "unoccupied s day loc ws we events blk"
proof -
  let ?busy = "lunch_interval s day loc @ List.map_filter (clip_event ws we) events @ ComputeBufferBlocks events s ws we"
  have v: "list_all valid_ivl ?busy" using buildBusy_valid [OF ok] .
  have w: "lo (ivl ws we) < hi (ivl ws we)" using ok by (simp add: day_ok_def)
  have f: "f \<in> set (subtractIntervals (ivl ws we) (mergeIntervals ?busy))" using f by (simp add: buildBusy_def)
  have inside: "ns ws \<le> lo blk" "hi blk \<le> ns we"
    using subtractIntervals_within(1,2) [OF mergeIntervals_valid [OF v] f] blk by simp_all
  have free: "\<not> overlaps blk b" if "b \<in> set ?busy" for b
    using free_of_busy [OF v w f that] blk by (fastforce simp: overlaps_iff)
  have "\<not> overlaps blk (ivl a b)" if ev: "ev \<in> set events" "opaque ev" "event_times ev = Some (a, b)" for ev a b
  proof
    assume "overlaps blk (ivl a b)"
    then obtain iv where "clip_event ws we ev = Some iv" "overlaps blk iv"
      using clip_overlap [OF ev(2,3)] inside blk(3) by blast
    moreover then have "iv \<in> set (List.map_filter (clip_event ws we) events)"
      using ev(1) by (auto simp: List.map_filter_def image_iff intro!: bexI [of _ ev])
    ultimately show False using free by simp
  qed
  then show ?thesis
    using inside free by (auto simp: unoccupied_def list_all_iff split: option.splits)
qed

lemma unoccupied_free:
  assumes ok: "day_ok s day loc ws we events" and iv: "unoccupied s day loc ws we events iv" "lo iv < hi iv"
  shows "\<exists>f \<in> set (subtractIntervals (ivl ws we) (buildBusy events ws we s day loc)). lo f \<le> lo iv \<and> hi iv \<le> hi f"
proof -
  have "\<not> overlaps iv c" if c: "c \<in> set (List.map_filter (clip_event ws we) events)" for c
  proof -
    obtain ev where ev: "ev \<in> set events" "clip_event ws we ev = Some c" using c unfolding map_filter_mem by blast
    then obtain a b where ab: "opaque ev" "event_times ev = Some (a, b)"
        "c = ivl (if Before a ws then ws else a) (if After b we then we else b)"
      unfolding clip_event_Some by blast
    have "\<not> overlaps iv (ivl a b)" using iv(1) ev(1) ab(1,2) by (fastforce simp: unoccupied_def list_all_iff)
    then show ?thesis unfolding ab(3) by (auto simp: overlaps_iff time_cmp_defs split: if_splits)
  qed
  then show ?thesis
    using iv unfolding buildBusy_def
    by (intro gap_of_free [OF buildBusy_valid [OF ok]]) (auto simp: unoccupied_def list_all_iff)
qed

lemma candidate_mem: "cs \<in> set (day_candidates s day loc ws we events) \<Longrightarrow>
   ss_iv cs \<in> set (subtractIntervals (ivl ws we) (buildBusy events ws we s day loc))"
  by (auto simp: day_candidates_def focus_candidates_def)

lemma day_candidates_free:
  assumes ok: "day_ok s day loc ws we events" and cs: "cs \<in> set (day_candidates s day loc ws we events)"
    and blk: "block_of s (ss_iv cs) = Some blk"
  shows "unoccupied s day loc ws we events blk"
proof -
  have "0 \<le> se_buffer_before s" "0 \<le> se_buffer_after s" "0 < se_focus_min s" using ok by (simp_all add: day_ok_def)
  from free_unoccupied [OF ok candidate_mem [OF cs] block_of_spec(5-7) [OF blk this]] show ?thesis .
qed

text \<open>A free interval with room for the buffers and the shortest block gives a block inside it.\<close>

lemma block_of_long:
  assumes "(se_buffer_before s + se_focus_min s + se_buffer_after s) * minute_ns \<le> hi f - lo f"
    and "0 \<le> se_buffer_before s" "0 \<le> se_buffer_after s" "0 < se_focus_min s" "se_focus_min s \<le> se_focus_max s"
  shows "se_focus_min s \<le> minutes_of (Sub (iend f) (istart f))" "\<exists>blk. block_of s f = Some blk"
proof -
  let ?m = "se_focus_min s" and ?d = "minutes_of (Sub (iend f) (istart f))"
  have "?m * minute_ns \<le> hi f - lo f" using assms(1-3) by (simp add: algebra_simps)
  then show d: "?m \<le> ?d" using minutes_of_ge [of ?m] assms(4) by (simp add: Sub_def)
  let ?c = "if ?d > se_focus_max s then se_focus_max s else ?d"
  have "?m * minute_ns \<le> ?c * minute_ns" using d assms(5) by simp
  then have "?m * minute_ns \<le> min (?c * minute_ns) (hi f - se_buffer_after s * minute_ns - (lo f + se_buffer_before s * minute_ns))"
    using assms(1) by (simp add: algebra_simps)
  then have "?m \<le> minutes_of (min (?c * minute_ns) (hi f - se_buffer_after s * minute_ns - (lo f + se_buffer_before s * minute_ns)))"
    using minutes_of_ge [of ?m] assms(4) by simp
  then show "\<exists>blk. block_of s f = Some blk"
    by (auto simp: block_of_def Let_def time_cmp_defs Sub_def Add_def min_def algebra_simps)
qed

lemma unoccupied_candidate:
  assumes ok: "day_ok s day loc ws we events" and mm: "se_focus_min s \<le> se_focus_max s"
    and iv: "unoccupied s day loc ws we events iv"
      "(se_buffer_before s + se_focus_min s + se_buffer_after s) * minute_ns \<le> hi iv - lo iv"
  shows "\<exists>cs blk. cs \<in> set (day_candidates s day loc ws we events) \<and> block_of s (ss_iv cs) = Some blk \<and>
     unoccupied s day loc ws we events (hull blk iv)"
proof -
  have bb: "0 \<le> se_buffer_before s" "0 \<le> se_buffer_after s" "0 < se_focus_min s" using ok by (simp_all add: day_ok_def)
  then have "0 < (se_buffer_before s + se_focus_min s + se_buffer_after s) * minute_ns" by simp
  then have len: "lo iv < hi iv" using iv(2) by linarith
  obtain f where f: "f \<in> set (subtractIntervals (ivl ws we) (buildBusy events ws we s day loc))"
      "lo f \<le> lo iv" "hi iv \<le> hi f"
    using unoccupied_free [OF ok iv(1) len] by blast
  have "(se_buffer_before s + se_focus_min s + se_buffer_after s) * minute_ns \<le> hi f - lo f" using f iv(2) by linarith
  from block_of_long [OF this bb mm] obtain blk where blk: "block_of s f = Some blk"
      "se_focus_min s \<le> minutes_of (Sub (iend f) (istart f))" by blast
  have "\<lparr>ss_iv = f, ss_score = scoreSlot f day\<rparr> \<in> set (day_candidates s day loc ws we events)"
    using f(1) blk(2) by (auto simp: day_candidates_def focus_candidates_def)
  moreover have "unoccupied s day loc ws we events (hull blk iv)"
    using block_of_spec(5-7) [OF blk(1) bb] f len
    by (intro free_unoccupied [OF ok f(1)]) (auto simp: hull_def time_cmp_defs)
  ultimately show ?thesis using blk(1) by (intro exI conjI) (assumption | simp)+
qed

text \<open>Blocks taken from different candidates of a day do not overlap.\<close>

lemma focus_candidates_apart:
  assumes "ordered_ivls free"
  shows "sorted_wrt (\<lambda>a b. hi (ss_iv a) \<le> lo (ss_iv b)) (focus_candidates s day free)"
  using assms by (simp add: focus_candidates_def ordered_ivls_def sorted_wrt_map sorted_wrt_filter)

lemma day_candidates_disjoint:
  assumes ok: "day_ok s day loc ws we events"
  shows "sorted_wrt (\<lambda>a b. \<forall>x y. block_of s (ss_iv a) = Some x \<longrightarrow> block_of s (ss_iv b) = Some y \<longrightarrow> \<not> overlaps x y)
     (day_candidates s day loc ws we events)"
proof -
  let ?free = "subtractIntervals (ivl ws we) (buildBusy events ws we s day loc)"
  let ?R = "\<lambda>a b. \<forall>x y. block_of s (ss_iv a) = Some x \<longrightarrow> block_of s (ss_iv b) = Some y \<longrightarrow> \<not> overlaps x y"
  have bb: "0 \<le> se_buffer_before s" "0 \<le> se_buffer_after s" "0 < se_focus_min s" using ok by (simp_all add: day_ok_def)
  have "ordered_ivls ?free"
    using subtractIntervals_ordered mergeIntervals_valid [OF buildBusy_valid [OF ok]] by (simp add: buildBusy_def)
  then have s: "sorted_wrt (\<lambda>a b. hi (ss_iv a) \<le> lo (ss_iv b)) (focus_candidates s day ?free)"
    by (rule focus_candidates_apart)
  have "?R a b" if "hi (ss_iv a) \<le> lo (ss_iv b)" for a b
    using that block_of_spec(5,6) [OF _ bb] by (fastforce simp: overlaps_iff)
  then have "sorted_wrt ?R (focus_candidates s day ?free)"
    by (intro sorted_wrt_mono_rel [OF _ s]) blast
  moreover have "symp ?R" by (auto simp: symp_def overlaps_iff)
  moreover have "mset (focus_candidates s day ?free) = mset (day_candidates s day loc ws we events)"
    by (simp add: day_candidates_def sortByScore_def)
  ultimately show ?thesis using sorted_wrt_mset by blast
qed

lemma processDay_cases:
  assumes "processDay tzdb env u s day (w, r) = (st', err)"
  defines "loc \<equiv> location_or_utc tzdb (se_timezone s)" and "dn \<equiv> date_of day"
  obtains (skip) "st' = (w, skip_day dn r)" "err = None"
      "se_focus_target s \<le> existing_minutes env u dn w \<or> \<not> snd (snd (WorkWindow s (In day loc)))"
  | (unread) e where "st' = (w, r)" "err = Some e"
  | (placed) wsRaw weRaw events where "WorkWindow s (In day loc) = (wsRaw, weRaw, True)"
      "fe_list env (go_date dn 0 0 0 0 loc) (Add (go_date dn 0 0 0 0 loc) day_ns) = Inr events"
      "existing_minutes env u dn w < se_focus_target s"
      "st' = place_blocks env u s dn (day_candidates s day loc (parseHHMM wsRaw day loc) (parseHHMM weRaw day loc) events)
         (se_focus_target s - existing_minutes env u dn w) (w, r)" "err = None"
  using assms(1) unfolding processDay_def Let_def loc_def dn_def
  by (auto split: prod.splits if_splits sum.splits)

subsection \<open>Clearing a week\<close>

lemma clear_rows:
  assumes "\<And>b. fe_drop_fail env b = None"
  shows "fst (foldl (clear_block env u) (rows, errs) bs) = foldl (\<lambda>rs b. DeleteFocusBlock u (fb_event b) rs) rows bs"
  using assms by (induction bs arbitrary: rows errs) (simp_all add: clear_block_def)

lemma clear_keeps:
  "r \<in> set rows \<Longrightarrow> r \<notin> set (fst (foldl (clear_block env u) (rows, errs) bs)) \<Longrightarrow>
   fb_user r = Some u \<and> fb_event r \<in> fb_event ` set bs"
proof (induction bs arbitrary: rows errs)
  case (Cons b bs)
  obtain rows' errs' where c: "clear_block env u (rows, errs) b = (rows', errs')" by (cases "clear_block env u (rows, errs) b")
  have "rows' = rows \<or> rows' = DeleteFocusBlock u (fb_event b) rows"
    using c by (auto simp: clear_block_def Let_def split: option.splits)
  then have "r \<in> set rows' \<or> fb_user r = Some u \<and> fb_event r = fb_event b"
    using Cons.prems(1) by (auto simp: DeleteFocusBlock_def)
  moreover have "r \<notin> set (fst (foldl (clear_block env u) (rows', errs') bs))" using Cons.prems(2) c by simp
  ultimately show ?case using Cons.IH [of rows' errs'] by auto
qed simp

subsection \<open>The blocks of a day\<close>

text \<open>
  What a block promises: it lies in the working hours, its length is between the minimum and
  the maximum, and it meets no lunch break, no meeting and no meeting's buffer.
\<close>

definition block_fits ::
  "Settings \<Rightarrow> gotime \<Rightarrow> location \<Rightarrow> gotime \<Rightarrow> gotime \<Rightarrow> event list \<Rightarrow> interval \<Rightarrow> bool" where
  "block_fits s day loc workStart workEnd events blk \<longleftrightarrow>
     ns workStart \<le> lo blk \<and> hi blk \<le> ns workEnd \<and>
     se_focus_min s * minute_ns \<le> hi blk - lo blk \<and> hi blk - lo blk \<le> se_focus_max s * minute_ns \<and>
     list_all (\<lambda>l. \<not> overlaps blk l) (lunch_interval s day loc) \<and>
     list_all (\<lambda>m. \<not> overlaps blk m) (ComputeBufferBlocks events s workStart workEnd) \<and>
     list_all (\<lambda>ev. case event_times ev of
        Some (a, b) \<Rightarrow> \<not> (opaque ev \<and> overlaps blk (ivl a b)) | None \<Rightarrow> True) events"

lemma candidate_block_fits:
  assumes "day_ok s day loc ws we events" "cs \<in> set (day_candidates s day loc ws we events)"
    and "block_of s (ss_iv cs) = Some blk"
  shows "block_fits s day loc ws we events blk"
proof -
  have ok: "0 \<le> se_buffer_before s" "0 \<le> se_buffer_after s" "0 < se_focus_min s"
    using assms(1) by (simp_all add: day_ok_def)
  show ?thesis
    using block_of_spec(3,4) [OF assms(3) ok] day_candidates_free [OF assms]
    by (simp add: block_fits_def unoccupied_def)
qed

text \<open>With a calendar that accepts every event the blocks added are those of the first candidates.\<close>

lemma place_blocks_complete:
  assumes "\<And>n ev. \<not> isl (fe_create env n ev)" "0 < rem"
  shows "\<exists>new rest. fr_created (snd (place_blocks env u s dn css rem st)) = fr_created (snd st) @ new \<and>
     List.map_filter (\<lambda>cs. block_of s (ss_iv cs)) css = map block_ivl new @ rest \<and>
     (rem \<le> sum_list (map block_minutes new) \<or> rest = [])"
  using assms(2)
proof (induction css arbitrary: rem st)
  case (Cons cs css)
  obtain w r where st: "st = (w, r)" by (cases st)
  show ?case
  proof (cases "block_of s (ss_iv cs)")
    case None
    then show ?thesis using Cons.IH [OF Cons.prems, of st] Cons.prems by simp
  next
    case (Some b)
    let ?w = "w\<lparr>fs_creates := Suc (fs_creates w)\<rparr>" and ?m = "minutes_of (Sub (iend b) (istart b))"
    obtain ident where ident: "fe_create env (fs_creates w) (focus_event s b) = Inr ident"
      using assms(1) by (metis isl_def sumE)
    let ?nb = "\<lparr>cb_event = ident, cb_start = istart b, cb_end = iend b, cb_date = dn\<rparr>"
    let ?st = "record_block env u dn b ident (?w\<lparr>fs_sent := fs_sent ?w @ [focus_event s b]\<rparr>, r)"
    have eq: "place_blocks env u s dn (cs # css) rem st = place_blocks env u s dn css (rem - ?m) ?st"
      using Some ident st Cons.prems by (simp add: Let_def)
    have rec: "fr_created (snd ?st) = fr_created r @ [?nb]"
      using record_block_created(1) [of env u dn b ident _ "fst ?st" "snd ?st"] by simp
    have nb: "block_ivl ?nb = b" "block_minutes ?nb = ?m" by (simp_all add: block_ivl_def block_minutes_def)
    show ?thesis
    proof (cases "0 < rem - ?m")
      case True
      from Cons.IH [OF True, of ?st] obtain new rest where
        "fr_created (snd (place_blocks env u s dn css (rem - ?m) ?st)) = fr_created (snd ?st) @ new"
        "List.map_filter (\<lambda>cs. block_of s (ss_iv cs)) css = map block_ivl new @ rest"
        "rem - ?m \<le> sum_list (map block_minutes new) \<or> rest = []" by blast
      then show ?thesis
        unfolding eq using rec nb Some st by (intro exI [of _ "?nb # new"] exI [of _ rest]) auto
    next
      case False
      then have "place_blocks env u s dn css (rem - ?m) ?st = ?st" by (cases css) simp_all
      then show ?thesis
        unfolding eq using rec nb False st Some
        by (intro exI [of _ "[?nb]"] exI [of _ "List.map_filter (\<lambda>cs. block_of s (ss_iv cs)) css"]) auto
    qed
  qed
qed simp

text \<open>Every event a day sends is transparent, and transparent events change no day's candidates.\<close>

lemma place_blocks_sent:
  "\<exists>evs. fs_sent (fst (place_blocks env u s dn css rem st)) = fs_sent (fst st) @ evs \<and> list_all (\<lambda>ev. \<not> opaque ev) evs"
proof (induction css arbitrary: rem st)
  case (Cons cs css)
  obtain w r where st: "st = (w, r)" by (cases st)
  have t: "\<not> opaque (focus_event s b)" for b by (simp add: opaque_def focus_event_def)
  show ?case
  proof (cases "rem \<le> 0 \<or> block_of s (ss_iv cs) = None")
    case False
    then obtain b where b: "block_of s (ss_iv cs) = Some b" by blast
    let ?w = "w\<lparr>fs_creates := Suc (fs_creates w)\<rparr>"
    show ?thesis
    proof (cases "fe_create env (fs_creates w) (focus_event s b)")
      case (Inl e)
      then show ?thesis using Cons.IH [of rem "(?w, add_error (''create event '' @ format_date dn @ '': '' @ e) r)"] False b st by simp
    next
      case (Inr ident)
      let ?st = "record_block env u dn b ident (?w\<lparr>fs_sent := fs_sent ?w @ [focus_event s b]\<rparr>, r)"
      have "fs_sent (fst ?st) = fs_sent w @ [focus_event s b]"
        by (auto simp: record_block_def Let_def split: option.splits)
      with Cons.IH [of "rem - minutes_of (Sub (iend b) (istart b))" ?st] show ?thesis
        using Inr False b st t by (auto simp: Let_def)
    qed
  qed (use Cons.IH in \<open>auto split: option.splits\<close>)
qed simp

lemma transparent_ignored:
  assumes "list_all (\<lambda>ev. \<not> opaque ev) evs"
  shows "day_candidates s day loc ws we (events @ evs) = day_candidates s day loc ws we events"
proof -
  have map_filter_app: "List.map_filter f (xs @ ys) = List.map_filter f xs @ List.map_filter f ys"
    for f :: "event \<Rightarrow> interval option" and xs ys
    by (simp add: List.map_filter_def)
  have "List.map_filter (clip_event ws we) evs = []"
    using assms by (induction evs) (simp_all add: clip_event_def)
  moreover have "buffer_meetings evs s = []"
    using assms by (induction evs) (simp_all add: buffer_meetings_def)
  ultimately show ?thesis
    by (simp add: day_candidates_def buildBusy_def ComputeBufferBlocks_def buffer_meetings_def map_filter_app)
qed

lemma run_day_adds:
  "\<exists>new. fr_created (snd (run_day tzdb env u s monday st i)) = fr_created (snd st) @ new \<and>
     fr_total (snd (run_day tzdb env u s monday st i)) = fr_total (snd st) + sum_list (map block_minutes new) \<and>
     list_all (\<lambda>b. cb_date b = date_of (AddDays monday (int i))) new"
proof -
  obtain w r where st: "st = (w, r)" by (cases st)
  obtain st' err where p: "processDay tzdb env u s (AddDays monday (int i)) (w, r) = (st', err)"
    by (cases "processDay tzdb env u s (AddDays monday (int i)) (w, r)")
  from p show ?thesis
  proof (cases rule: processDay_cases)
    case (placed wsRaw weRaw events)
    let ?loc = "location_or_utc tzdb (se_timezone s)" and ?day = "AddDays monday (int i)"
    from place_blocks_spec [of env u s "date_of ?day"
        "day_candidates s ?day ?loc (parseHHMM wsRaw ?day ?loc) (parseHHMM weRaw ?day ?loc) events"
        "se_focus_target s - existing_minutes env u (date_of ?day) w" "(w, r)"]
    show ?thesis using p placed st by (auto simp: run_day_def Let_def list_all_iff split: prod.splits)
  qed (use p st in \<open>auto simp: run_day_def Let_def skip_day_def add_error_def split: prod.splits\<close>)
qed

lemma foldl_run_day_adds:
  "\<exists>new. fr_created (snd (foldl (run_day tzdb env u s monday) st is)) = fr_created (snd st) @ new \<and>
     fr_total (snd (foldl (run_day tzdb env u s monday) st is)) = fr_total (snd st) + sum_list (map block_minutes new) \<and>
     list_all (\<lambda>b. \<exists>i \<in> set is. cb_date b = date_of (AddDays monday (int i))) new"
proof (induction "is" arbitrary: st)
  case (Cons i is')
  from run_day_adds [of tzdb env u s monday st i] obtain n1 where n1:
    "fr_created (snd (run_day tzdb env u s monday st i)) = fr_created (snd st) @ n1"
    "fr_total (snd (run_day tzdb env u s monday st i)) = fr_total (snd st) + sum_list (map block_minutes n1)"
    "list_all (\<lambda>b. cb_date b = date_of (AddDays monday (int i))) n1" by blast
  from Cons.IH [of "run_day tzdb env u s monday st i"] obtain n2 where
    "fr_created (snd (foldl (run_day tzdb env u s monday) (run_day tzdb env u s monday st i) is')) =
       fr_created (snd (run_day tzdb env u s monday st i)) @ n2"
    "fr_total (snd (foldl (run_day tzdb env u s monday) (run_day tzdb env u s monday st i) is')) =
       fr_total (snd (run_day tzdb env u s monday st i)) + sum_list (map block_minutes n2)"
    "list_all (\<lambda>b. \<exists>j \<in> set is'. cb_date b = date_of (AddDays monday (int j))) n2" by blast
  with n1 show ?case by (intro exI [of _ "n1 @ n2"]) (auto simp: list_all_iff)
qed simp

lemma place_blocks_week: "fr_week (snd (place_blocks env u s dn css rem st)) = fr_week (snd st)"
proof (induction css arbitrary: rem st)
  case (Cons cs css)
  then show ?case
    by (cases st) (auto simp: Let_def add_error_def record_block_def split: option.splits sum.splits prod.splits)
qed simp

lemma run_day_week: "fr_week (snd (run_day tzdb env u s monday st i)) = fr_week (snd st)"
proof -
  obtain w r where st: "st = (w, r)" by (cases st)
  obtain st' err where p: "processDay tzdb env u s (AddDays monday (int i)) (w, r) = (st', err)"
    by (cases "processDay tzdb env u s (AddDays monday (int i)) (w, r)")
  from p show ?thesis
    by (cases rule: processDay_cases)
      (use p st in \<open>auto simp: run_day_def Let_def skip_day_def add_error_def place_blocks_week split: prod.splits\<close>)
qed

subsection \<open>The rows a cleared week touches\<close>

definition in_focus_week :: "uuid \<Rightarrow> gotime \<Rightarrow> FocusRow \<Rightarrow> bool" where
  "in_focus_week u monday r \<longleftrightarrow> fb_user r = Some u \<and> date_of monday \<le> fb_date r \<and> fb_date r < date_of (AddDays monday 7)"

lemma ListFocusBlocks_length:
  "length (ListFocusBlocksForUserWeek rows u monday) = length (filter (in_focus_week u monday) rows)"
  by (simp add: ListFocusBlocksForUserWeek_def in_focus_week_def [abs_def])

lemma clear_subset: "set (fst (foldl (clear_block env u) (rows, errs) bs)) \<subseteq> set rows"
proof (induction bs arbitrary: rows errs)
  case (Cons b bs)
  obtain rows' errs' where c: "clear_block env u (rows, errs) b = (rows', errs')" by (cases "clear_block env u (rows, errs) b")
  have "set rows' \<subseteq> set rows"
    using c by (auto simp: clear_block_def DeleteFocusBlock_def Let_def split: option.splits)
  with Cons.IH [of rows' errs'] show ?case by (auto simp: c)
qed simp

subsection \<open>Properties\<close>

text \<open>
  C27. A working day whose events can be read and whose target is not reached: every block the
  day adds lies in the working hours, has a length between the minimum and the maximum and
  meets no lunch break, opaque event or buffer; no two of them meet; the run's total grows by
  their minutes; and the last one is only added while the target is not reached.
\<close>

theorem focus_day_blocks_fit:
  assumes "loc = location_or_utc tzdb (se_timezone s)" "WorkWindow s (In day loc) = (wsRaw, weRaw, True)"
    and "ws = parseHHMM wsRaw day loc" "we = parseHHMM weRaw day loc"
    and "fe_list env (go_date (date_of day) 0 0 0 0 loc) (Add (go_date (date_of day) 0 0 0 0 loc) day_ns) = Inr events"
    and "day_ok s day loc ws we events" "existing_minutes env u (date_of day) w < se_focus_target s"
  shows "\<exists>w' r' new. processDay tzdb env u s day (w, r) = ((w', r'), None) \<and> fr_created r' = fr_created r @ new \<and>
     list_all (\<lambda>b. cb_date b = date_of day \<and> block_fits s day loc ws we events (block_ivl b)) new \<and>
     sorted_wrt (\<lambda>a b. \<not> overlaps (block_ivl a) (block_ivl b)) new \<and>
     fr_total r' = fr_total r + sum_list (map block_minutes new) \<and>
     sum_list (map block_minutes (butlast new)) < se_focus_target s - existing_minutes env u (date_of day) w"
proof -
  let ?css = "day_candidates s day loc ws we events" and ?rem = "se_focus_target s - existing_minutes env u (date_of day) w"
  have eq: "processDay tzdb env u s day (w, r) = (place_blocks env u s (date_of day) ?css ?rem (w, r), None)"
    using assms(1-5,7) by (simp add: processDay_def Let_def)
  from place_blocks_spec [of env u s "date_of day" ?css ?rem "(w, r)"] obtain new where new:
    "fr_created (snd (place_blocks env u s (date_of day) ?css ?rem (w, r))) = fr_created r @ new"
    "fr_total (snd (place_blocks env u s (date_of day) ?css ?rem (w, r))) = fr_total r + sum_list (map block_minutes new)"
    "list_all (\<lambda>b. cb_date b = date_of day \<and> (\<exists>cs \<in> set ?css. block_of s (ss_iv cs) = Some (block_ivl b))) new"
    "\<forall>R. sorted_wrt (\<lambda>a b. \<forall>x y. block_of s (ss_iv a) = Some x \<longrightarrow> block_of s (ss_iv b) = Some y \<longrightarrow> R x y) ?css \<longrightarrow>
       sorted_wrt (\<lambda>a b. R (block_ivl a) (block_ivl b)) new"
    "\<And>pre b. new = pre @ [b] \<Longrightarrow> sum_list (map block_minutes pre) < ?rem"
    unfolding snd_conv by blast
  have "sum_list (map block_minutes (butlast new)) < ?rem"
    using new(5) [of "butlast new" "List.last new"] assms(7) by (cases "new = []") auto
  moreover have "list_all (\<lambda>b. cb_date b = date_of day \<and> block_fits s day loc ws we events (block_ivl b)) new"
    using new(3) candidate_block_fits [OF assms(6)] by (auto simp: list_all_iff)
  moreover have "sorted_wrt (\<lambda>a b. \<not> overlaps (block_ivl a) (block_ivl b)) new"
    using new(4) [rule_format, of "\<lambda>x y. \<not> overlaps x y"] day_candidates_disjoint [OF assms(6)] by blast
  ultimately show ?thesis
    using new(1,2) eq
    by (intro exI [of _ "fst (place_blocks env u s (date_of day) ?css ?rem (w, r))"]
        exI [of _ "snd (place_blocks env u s (date_of day) ?css ?rem (w, r))"] exI [of _ new]) auto
qed

text \<open>A Monday in UTC with one meeting, nine to eighteen with lunch at noon.\<close>

definition ex_monday :: gotime where "ex_monday = go_date 20458 0 0 0 0 UTC"

definition ex_meeting :: event where
  "ex_meeting = empty_event\<lparr>ev_start := at_time (go_date 20458 10 0 0 0 UTC), ev_end := at_time (go_date 20458 11 0 0 0 UTC)\<rparr>"

definition ex_env :: "event list \<Rightarrow> focus_env" where
  "ex_env evs = \<lparr>fe_list = (\<lambda>_ _. Inr evs), fe_create = (\<lambda>n _. Inr (''ev'' @ show_nat n)), fe_delete = (\<lambda>_. None),
     fe_minutes_fail = (\<lambda>_. False), fe_save_fail = (\<lambda>_. None), fe_drop_fail = (\<lambda>_. None),
     fe_week_fail = None, fe_audit_ok = True\<rparr>"

definition ex_state :: focus_state where
  "ex_state = \<lparr>fs_rows = [], fs_audit = [], fs_sent = [], fs_creates = 0\<rparr>"

definition ex_result :: FocusRunResult where
  "ex_result = \<lparr>fr_week = ex_monday, fr_created = [], fr_skipped = [], fr_total = 0, fr_errors = []\<rparr>"

definition ex_hours :: "int \<Rightarrow> gotime" where "ex_hours h = parseHHMM (if h = 9 then ''09:00'' else ''18:00'') ex_monday UTC"

lemma ex_day:
  "location_or_utc (\<lambda>_. None) (se_timezone default_settings) = UTC"
  "WorkWindow default_settings (In ex_monday UTC) = (''09:00'', ''18:00'', True)"
  "day_ok default_settings ex_monday UTC (ex_hours 9) (ex_hours 18) [ex_meeting]"
  "existing_minutes (ex_env [ex_meeting]) 7 (date_of ex_monday) ex_state < se_focus_target default_settings"
  by code_simp+

lemma ex_list: "fe_list (ex_env evs) a b = Inr evs"
  by (simp add: ex_env_def)

theorem focus_day_blocks_fit_witness:
  "\<exists>w' r' new. processDay (\<lambda>_. None) (ex_env [ex_meeting]) 7 default_settings ex_monday (ex_state, ex_result) = ((w', r'), None) \<and>
     fr_created r' = new \<and> length new = 3 \<and>
     list_all (\<lambda>b. block_fits default_settings ex_monday UTC (ex_hours 9) (ex_hours 18) [ex_meeting] (block_ivl b)) new"
proof -
  have n: "length (fr_created (snd (fst (processDay (\<lambda>_. None) (ex_env [ex_meeting]) 7 default_settings ex_monday (ex_state, ex_result))))) = 3"
    by code_simp
  have h: "ex_hours 9 = parseHHMM ''09:00'' ex_monday UTC" "ex_hours 18 = parseHHMM ''18:00'' ex_monday UTC"
    by (simp_all add: ex_hours_def)
  from focus_day_blocks_fit [OF ex_day(1) [symmetric] ex_day(2) h ex_list ex_day(3,4), of ex_result] n
  show ?thesis by (auto simp: ex_result_def list_all_iff)
qed

text \<open>
  C28. When the calendar accepts every event, a day ends with its target reached or with no
  usable free time untouched: every stretch of the working hours that no lunch break, opaque
  event or buffer meets, long enough for the two buffers and the shortest block, is in one
  unoccupied stretch with a block the day added.
\<close>

theorem focus_day_uses_free_time:
  assumes "loc = location_or_utc tzdb (se_timezone s)" "WorkWindow s (In day loc) = (wsRaw, weRaw, True)"
    and "ws = parseHHMM wsRaw day loc" "we = parseHHMM weRaw day loc"
    and "fe_list env (go_date (date_of day) 0 0 0 0 loc) (Add (go_date (date_of day) 0 0 0 0 loc) day_ns) = Inr events"
    and "existing_minutes env u (date_of day) w < se_focus_target s" "\<And>n ev. \<not> isl (fe_create env n ev)"
    and "day_ok s day loc ws we events" "se_focus_min s \<le> se_focus_max s"
  shows "\<exists>w' r' new. processDay tzdb env u s day (w, r) = ((w', r'), None) \<and> fr_created r' = fr_created r @ new \<and>
     (se_focus_target s \<le> existing_minutes env u (date_of day) w + sum_list (map block_minutes new) \<or>
      (\<forall>iv. unoccupied s day loc ws we events iv \<and>
            (se_buffer_before s + se_focus_min s + se_buffer_after s) * minute_ns \<le> hi iv - lo iv \<longrightarrow>
         list_ex (\<lambda>b. unoccupied s day loc ws we events (hull (block_ivl b) iv)) new))"
proof -
  let ?css = "day_candidates s day loc ws we events"
  let ?rem = "se_focus_target s - existing_minutes env u (date_of day) w"
  have eq: "processDay tzdb env u s day (w, r) = (place_blocks env u s (date_of day) ?css ?rem (w, r), None)"
    using assms(1-6) by (simp add: processDay_def Let_def)
  have "0 < ?rem" using assms(6) by simp
  from place_blocks_complete [OF assms(7) this, of u s "date_of day" ?css "(w, r)"] obtain new rest where
    new: "fr_created (snd (place_blocks env u s (date_of day) ?css ?rem (w, r))) = fr_created r @ new"
      "List.map_filter (\<lambda>cs. block_of s (ss_iv cs)) ?css = map block_ivl new @ rest"
      "?rem \<le> sum_list (map block_minutes new) \<or> rest = []" by auto
  have "list_ex (\<lambda>b. unoccupied s day loc ws we events (hull (block_ivl b) iv)) new"
    if long: "rest = []" "unoccupied s day loc ws we events iv"
      "(se_buffer_before s + se_focus_min s + se_buffer_after s) * minute_ns \<le> hi iv - lo iv" for iv
  proof -
    obtain cs blk where blk: "cs \<in> set ?css" "block_of s (ss_iv cs) = Some blk" "unoccupied s day loc ws we events (hull blk iv)"
      using unoccupied_candidate [OF assms(8,9) long(2,3)] by blast
    then have "blk \<in> set (List.map_filter (\<lambda>cs. block_of s (ss_iv cs)) ?css)" unfolding map_filter_mem by blast
    then show ?thesis using new(2) long(1) blk(3) by (auto simp: list_ex_iff)
  qed
  then show ?thesis
    using new(1,3) eq
    by (intro exI [of _ "fst (place_blocks env u s (date_of day) ?css ?rem (w, r))"]
        exI [of _ "snd (place_blocks env u s (date_of day) ?css ?rem (w, r))"] exI [of _ new]) auto
qed

definition ex_long :: Settings where "ex_long = default_settings\<lparr>se_focus_target := 600\<rparr>"

lemma ex_long_day:
  "location_or_utc (\<lambda>_. None) (se_timezone ex_long) = UTC"
  "WorkWindow ex_long (In ex_monday UTC) = (''09:00'', ''18:00'', True)"
  "day_ok ex_long ex_monday UTC (ex_hours 9) (ex_hours 18) [ex_meeting]"
  "existing_minutes (ex_env [ex_meeting]) 7 (date_of ex_monday) ex_state = 0 \<and> se_focus_target ex_long = 600"
  "se_focus_min ex_long \<le> se_focus_max ex_long"
  by code_simp+

text \<open>With a target of ten hours the free hour and a half from half past two has its block before it.\<close>

definition ex_stretch :: interval where
  "ex_stretch = ivl (go_date 20458 14 30 0 0 UTC) (go_date 20458 16 0 0 0 UTC)"

theorem focus_day_uses_free_time_witness:
  "\<exists>w' r' new. processDay (\<lambda>_. None) (ex_env [ex_meeting]) 7 ex_long ex_monday (ex_state, ex_result) = ((w', r'), None) \<and>
     fr_created r' = new \<and> sum_list (map block_minutes new) < 600 \<and>
     unoccupied ex_long ex_monday UTC (ex_hours 9) (ex_hours 18) [ex_meeting] ex_stretch \<and>
     list_ex (\<lambda>b. unoccupied ex_long ex_monday UTC (ex_hours 9) (ex_hours 18) [ex_meeting] (hull (block_ivl b) ex_stretch)) new"
proof -
  let ?p = "processDay (\<lambda>_. None) (ex_env [ex_meeting]) 7 ex_long ex_monday (ex_state, ex_result)"
  have h: "ex_hours 9 = parseHHMM ''09:00'' ex_monday UTC" "ex_hours 18 = parseHHMM ''18:00'' ex_monday UTC"
    by (simp_all add: ex_hours_def)
  have less: "sum_list (map block_minutes (fr_created (snd (fst ?p)))) < 600" by code_simp
  have iv: "unoccupied ex_long ex_monday UTC (ex_hours 9) (ex_hours 18) [ex_meeting] ex_stretch \<and>
      (se_buffer_before ex_long + se_focus_min ex_long + se_buffer_after ex_long) * minute_ns \<le> hi ex_stretch - lo ex_stretch"
    by code_simp
  have ok: "\<not> isl (fe_create (ex_env [ex_meeting]) n ev)" for n ev by (simp add: ex_env_def)
  have tgt: "existing_minutes (ex_env [ex_meeting]) 7 (date_of ex_monday) ex_state < se_focus_target ex_long"
    using ex_long_day(4) by simp
  from focus_day_uses_free_time [OF ex_long_day(1) [symmetric] ex_long_day(2) h ex_list tgt ok ex_long_day(3,5), of ex_result]
  show ?thesis using less iv ex_long_day(4) by (auto simp: ex_result_def)
qed

text \<open>
  A run's result adds up: the total is the sum of the minutes of the blocks it reports, and
  every block is dated on one of the week's first five days.
\<close>

theorem focus_run_total:
  assumes "RunForUser tzdb env u settings client week w = (w', Inr res)"
  shows "fr_week res = startOfWeek week \<and> fr_total res = sum_list (map block_minutes (fr_created res)) \<and>
     list_all (\<lambda>b. \<exists>i \<in> {0..<5}. cb_date b = date_of (AddDays (startOfWeek week) (int i))) (fr_created res)"
proof -
  obtain s where "settings = Inr s" "u \<noteq> 0" "client = Inr ()"
    using assms by (auto simp: RunForUser_def split: if_splits sum.splits)
  let ?m = "startOfWeek week"
  let ?r = "\<lparr>fr_week = ?m, fr_created = [], fr_skipped = [], fr_total = 0, fr_errors = []\<rparr>"
  have res: "res = snd (foldl (run_day tzdb env u s ?m) (w, ?r) [0..<5])"
    using assms \<open>settings = Inr s\<close> \<open>u \<noteq> 0\<close> \<open>client = Inr ()\<close>
    by (simp add: RunForUser_def Let_def split: prod.splits)
  have "fr_week (snd (foldl (run_day tzdb env u s ?m) st is)) = fr_week (snd st)" for st "is"
    by (induction "is" arbitrary: st) (simp_all add: run_day_week)
  then show ?thesis
    using foldl_run_day_adds [of tzdb env u s ?m "(w, ?r)" "[0..<5]"]
    by (auto simp: res)
qed

definition ex_mondays :: Settings where
  "ex_mondays = default_settings\<lparr>se_working_hours := \<lparr>wh_mode = ''by_day'',
     wh_default = \<lparr>ds_enabled = False, ds_start = '''', ds_end = ''''\<rparr>,
     wh_days = [''monday'' \<mapsto> \<lparr>ds_enabled = True, ds_start = ''09:00'', ds_end = ''18:00''\<rparr>]\<rparr>\<rparr>"

theorem focus_run_total_witness:
  "\<exists>w' res. RunForUser (\<lambda>_. None) (ex_env [ex_meeting]) 7 (Inr ex_mondays) (Inr ()) ex_monday ex_state = (w', Inr res) \<and>
     fr_total res = sum_list (map block_minutes (fr_created res)) \<and> 0 < fr_total res"
proof -
  let ?run = "RunForUser (\<lambda>_. None) (ex_env [ex_meeting]) 7 (Inr ex_mondays) (Inr ()) ex_monday ex_state"
  have t: "case snd ?run of Inr res \<Rightarrow> 0 < fr_total res | Inl _ \<Rightarrow> False" by code_simp
  then obtain res where "?run = (fst ?run, Inr res)" "0 < fr_total res" by (auto split: sum.splits simp: prod_eq_iff)
  then show ?thesis using focus_run_total by metis
qed

text \<open>
  Clearing a week removes the user's rows of that week and no others: no other user's
  row, and none of another week, goes even when the calendar or the storage fails; and when
  every row can be deleted, none of the week's is left and the count says how many there were.
\<close>

theorem clear_week_removes_exactly:
  assumes "ClearWeek env u (Inr ()) week w = (w', Inr (n, errs))" "focus_ok (fs_rows w)"
  shows "{r \<in> set (fs_rows w). \<not> in_focus_week u (startOfWeek week) r} \<subseteq> set (fs_rows w') \<and>
     set (fs_rows w') \<subseteq> set (fs_rows w) \<and>
     n = length (filter (in_focus_week u (startOfWeek week)) (fs_rows w)) \<and>
     ((\<forall>e. fe_drop_fail env e = None) \<longrightarrow>
        set (fs_rows w') = {r \<in> set (fs_rows w). \<not> in_focus_week u (startOfWeek week) r})"
proof -
  let ?bs = "ListFocusBlocksForUserWeek (fs_rows w) u (startOfWeek week)"
  have w': "fs_rows w' = fst (foldl (clear_block env u) (fs_rows w, []) ?bs)" and n: "n = length ?bs"
    using assms(1) by (auto simp: ClearWeek_def Let_def split: if_splits option.splits prod.splits)
  have same: "fb_event r \<in> fb_event ` set ?bs \<longleftrightarrow> r \<in> set ?bs" if "r \<in> set (fs_rows w)" for r
    by (rule inj_on_image_mem_iff [OF _ that]) (use assms(2) in \<open>auto simp: focus_ok_def distinct_map ListFocusBlocks_set\<close>)
  have inweek: "r \<in> set ?bs \<longleftrightarrow> r \<in> set (fs_rows w) \<and> in_focus_week u (startOfWeek week) r" for r
    by (auto simp: ListFocusBlocks_set in_focus_week_def)
  have "{r \<in> set (fs_rows w). \<not> in_focus_week u (startOfWeek week) r} \<subseteq> set (fs_rows w')"
    using clear_keeps [of _ "fs_rows w" env u "[]" ?bs] same inweek unfolding w' by blast
  moreover have "set (fs_rows w') \<subseteq> set (fs_rows w)" unfolding w' by (rule clear_subset)
  moreover have "n = length (filter (in_focus_week u (startOfWeek week)) (fs_rows w))"
    unfolding n by (rule ListFocusBlocks_length)
  moreover have "set (fs_rows w') = {r \<in> set (fs_rows w). \<not> in_focus_week u (startOfWeek week) r}"
    if ok: "\<forall>e. fe_drop_fail env e = None"
    unfolding w' using same inweek ok by (auto simp: clear_rows foldl_delete_set in_focus_week_def)
  ultimately show ?thesis by blast
qed

definition ex_rows :: "FocusRow list" where
  "ex_rows = SaveFocusBlock 2 8 ''b'' 20459 ex_monday ex_monday (SaveFocusBlock 1 7 ''a'' 20458 ex_monday ex_monday [])"

theorem clear_week_removes_exactly_witness:
  "\<exists>w' errs. ClearWeek (ex_env []) 7 (Inr ()) ex_monday (ex_state\<lparr>fs_rows := ex_rows\<rparr>) = (w', Inr (1, errs)) \<and>
     set (fs_rows w') = {r \<in> set ex_rows. \<not> in_focus_week 7 (startOfWeek ex_monday) r} \<and> length (fs_rows w') = 1"
proof -
  let ?w = "ex_state\<lparr>fs_rows := ex_rows\<rparr>"
  let ?run = "ClearWeek (ex_env []) 7 (Inr ()) ex_monday ?w"
  have "case snd ?run of Inr (n, errs) \<Rightarrow> n = 1 | Inl _ \<Rightarrow> False" "length (fs_rows (fst ?run)) = 1" "focus_ok ex_rows"
    by code_simp+
  then obtain errs where r: "?run = (fst ?run, Inr (1, errs))" "focus_ok (fs_rows ?w)" "length (fs_rows (fst ?run)) = 1"
    by (auto split: sum.splits prod.splits simp: prod_eq_iff)
  have "\<forall>e. fe_drop_fail (ex_env []) e = None" by (simp add: ex_env_def)
  then show ?thesis using clear_week_removes_exactly [OF r(1,2)] r by auto
qed

text \<open>
  C36. A second run does not see the first one's blocks: its events are transparent, so their
  time counts as free. When the calendar accepts every event and a run that added a block
  leaves the day short of its target, a run that reads the events and those the first one
  sent starts with a block at exactly the time of the first run's first block.
\<close>

theorem focus_rerun_overlaps:
  assumes "loc = location_or_utc tzdb (se_timezone s)" "WorkWindow s (In day loc) = (wsRaw, weRaw, True)"
    and "fe_list env (go_date (date_of day) 0 0 0 0 loc) (Add (go_date (date_of day) 0 0 0 0 loc) day_ns) = Inr events"
    and "\<And>n ev. \<not> isl (fe_create env n ev)" "existing_minutes env u (date_of day) w < se_focus_target s"
    and "processDay tzdb env u s day (w, r) = ((w1, r1), None)" "fr_created r1 = fr_created r @ b # bs"
    and "fs_sent w1 = fs_sent w @ sent"
    and "fe_list env' (go_date (date_of day) 0 0 0 0 loc) (Add (go_date (date_of day) 0 0 0 0 loc) day_ns) = Inr (events @ sent)"
    and "\<And>n ev. \<not> isl (fe_create env' n ev)" "existing_minutes env' u (date_of day) w1 < se_focus_target s"
  shows "\<exists>w2 r2 b' bs'. processDay tzdb env' u s day (w1, r') = ((w2, r2), None) \<and>
     fr_created r2 = fr_created r' @ b' # bs' \<and> block_ivl b' = block_ivl b"
proof -
  let ?ws = "parseHHMM wsRaw day loc" and ?we = "parseHHMM weRaw day loc" and ?dn = "date_of day"
  let ?css = "day_candidates s day loc ?ws ?we events"
  let ?rem = "\<lambda>env w. se_focus_target s - existing_minutes env u ?dn w"
  let ?blocks = "List.map_filter (\<lambda>cs. block_of s (ss_iv cs)) ?css"
  have run1: "place_blocks env u s ?dn ?css (?rem env w) (w, r) = (w1, r1)"
    using assms(1-3,5,6) by (simp add: processDay_def Let_def)
  have "list_all (\<lambda>ev. \<not> opaque ev) sent"
    using place_blocks_sent [of env u s ?dn ?css "?rem env w" "(w, r)"] run1 assms(8) by auto
  then have "day_candidates s day loc ?ws ?we (events @ sent) = ?css" by (rule transparent_ignored)
  then have run2: "processDay tzdb env' u s day (w1, r') = (place_blocks env' u s ?dn ?css (?rem env' w1) (w1, r'), None)"
    using assms(1,2,9,11) by (simp add: processDay_def Let_def)
  have "0 < ?rem env w" "0 < ?rem env' w1" using assms(5,11) by simp_all
  obtain rest where b: "?blocks = block_ivl b # map block_ivl bs @ rest"
    using place_blocks_complete [OF assms(4) \<open>0 < ?rem env w\<close>, of u s ?dn ?css "(w, r)"] run1 assms(7) by auto
  obtain new rest' where new: "fr_created (snd (place_blocks env' u s ?dn ?css (?rem env' w1) (w1, r'))) = fr_created r' @ new"
      "?blocks = map block_ivl new @ rest'" "?rem env' w1 \<le> sum_list (map block_minutes new) \<or> rest' = []"
    using place_blocks_complete [OF assms(10) \<open>0 < ?rem env' w1\<close>, of u s ?dn ?css "(w1, r')"] by auto
  have "new \<noteq> []" using new(2,3) b \<open>0 < ?rem env' w1\<close> by auto
  then obtain b' bs' where b': "new = b' # bs'" by (cases new) auto
  then have "block_ivl b' = block_ivl b" using new(2) b by simp
  then show ?thesis
    using run2 new(1) b'
    by (intro exI [of _ "fst (place_blocks env' u s ?dn ?css (?rem env' w1) (w1, r'))"]
        exI [of _ "snd (place_blocks env' u s ?dn ?css (?rem env' w1) (w1, r'))"] exI [of _ b'] exI [of _ bs']) auto
qed

text \<open>A day that can hold two hours of its target of four: both runs start with the same block.\<close>

definition ex_first :: "focus_state \<times> FocusRunResult" where
  "ex_first = fst (processDay (\<lambda>_. None) (ex_env []) 7 (default_settings\<lparr>se_protect_lunch := False\<rparr>) ex_monday (ex_state, ex_result))"

lemma ex_first_run:
  "let s = default_settings\<lparr>se_protect_lunch := False\<rparr> in
   location_or_utc (\<lambda>_. None) (se_timezone s) = UTC \<and> WorkWindow s (In ex_monday UTC) = (''09:00'', ''18:00'', True) \<and>
   existing_minutes (ex_env []) 7 (date_of ex_monday) ex_state < se_focus_target s \<and>
   existing_minutes (ex_env (fs_sent (fst ex_first))) 7 (date_of ex_monday) (fst ex_first) < se_focus_target s \<and>
   snd (processDay (\<lambda>_. None) (ex_env []) 7 s ex_monday (ex_state, ex_result)) = None \<and>
   fr_created (snd ex_first) \<noteq> [] \<and> fs_sent ex_state = []"
  by code_simp

theorem focus_rerun_overlaps_witness:
  "\<exists>w2 r2 b b' bs'. hd (fr_created (snd ex_first)) = b \<and>
     processDay (\<lambda>_. None) (ex_env (fs_sent (fst ex_first))) 7 (default_settings\<lparr>se_protect_lunch := False\<rparr>) ex_monday
       (fst ex_first, ex_result) = ((w2, r2), None) \<and> fr_created r2 = b' # bs' \<and> block_ivl b' = block_ivl b"
proof -
  let ?s = "default_settings\<lparr>se_protect_lunch := False\<rparr>"
  have ok: "\<not> isl (fe_create (ex_env evs) n ev)" for evs n ev by (simp add: ex_env_def)
  note ex = ex_first_run [unfolded Let_def]
  have loc: "UTC = location_or_utc (\<lambda>_. None) (se_timezone ?s)" and ww: "WorkWindow ?s (In ex_monday UTC) = (''09:00'', ''18:00'', True)"
    and short: "existing_minutes (ex_env []) 7 (date_of ex_monday) ex_state < se_focus_target ?s"
      "existing_minutes (ex_env (fs_sent (fst ex_first))) 7 (date_of ex_monday) (fst ex_first) < se_focus_target ?s"
    using ex by (blast intro: sym)+
  obtain b bs where b: "fr_created (snd ex_first) = b # bs" using ex by (cases "fr_created (snd ex_first)") auto
  have p: "processDay (\<lambda>_. None) (ex_env []) 7 ?s ex_monday (ex_state, ex_result) = ((fst ex_first, snd ex_first), None)"
    using ex by (simp add: ex_first_def prod_eq_iff)
  have new: "fr_created (snd ex_first) = fr_created ex_result @ b # bs" and sent: "fs_sent (fst ex_first) = fs_sent ex_state @ fs_sent (fst ex_first)"
    using b ex by (simp_all add: ex_result_def)
  have l: "fe_list (ex_env (fs_sent (fst ex_first))) x y = Inr ([] @ fs_sent (fst ex_first))" for x y by (simp add: ex_list)
  from focus_rerun_overlaps [OF loc ww ex_list ok short(1) p new sent l ok short(2), of ex_result]
  show ?thesis using b by (auto simp: ex_result_def)
qed

end
