(* ===== verification/FocusCron.thy ===== *)
theory FocusCron
  imports Settings Rfc3339
begin

section \<open>FocusCron: the automatic focus scheduler\<close>

text \<open>
  \<^verbatim>\<open>backend/scheduler/cron.go\<close> and \<^verbatim>\<open>backend/engine/autoschedule.go\<close>. Every tick lists the users
  with automatic scheduling on and runs those whose next slot after their watermark has come;
  the watermark is advanced by a compare-and-set before the run. The cron parser is a library:
  the parameter \<open>parse\<close> gives a schedule's function \<^verbatim>\<open>Next\<close>. Several processes tick against the
  same table while users save their settings; the interleavings are the step relation
  \<open>cron_step\<close>. A run is recorded with its user, the slot that made it due and the tick instant.
\<close>

type_synonym schedule = "gotime \<Rightarrow> gotime"

definition ParseAutoScheduleCron :: "(string \<Rightarrow> schedule option) \<Rightarrow> string \<Rightarrow> schedule option" where
  "ParseAutoScheduleCron parse expr = (if length (Fields expr) \<noteq> 5 then None else parse expr)"

definition nextSlot :: "schedule \<Rightarrow> gotime \<Rightarrow> location \<Rightarrow> gotime" where
  "nextSlot sched watermark loc =
     (let w = In watermark loc;
          wall = go_date (date_of w) (Hour w) (Minute w) (Second w) (Nanosecond w) UTC;
          n = sched wall
      in go_date (date_of n) (Hour n) (Minute n) 0 0 loc)"

text \<open>A stored watermark is an instant; the database returns it in UTC.\<close>

abbreviation instant :: "int \<Rightarrow> gotime" where
  "instant w \<equiv> \<lparr>ns = w, tloc = UTC\<rparr>"

record focus_run =
  rn_user :: uuid
  rn_slot :: int
  rn_at :: int

text \<open>
  \<^verbatim>\<open>consider\<close>: \<open>failed\<close> tells whether the watermark update fails, \<open>shutting\<close> whether the drain has
  ended. The result is the table and the run, if there is one.
\<close>

definition consider_due ::
  "(string \<Rightarrow> schedule option) \<Rightarrow> (string \<Rightarrow> location option) \<Rightarrow> AutoScheduleCandidate \<Rightarrow> int \<Rightarrow> int option" where
  "consider_due parse tzdb c at = (case ParseAutoScheduleCron parse (ac_cron c) of
      None \<Rightarrow> None
    | Some sched \<Rightarrow> (case LoadLocation tzdb (ac_timezone c) of
        None \<Rightarrow> None
      | Some loc \<Rightarrow> (case ac_last_run c of
          None \<Rightarrow> None
        | Some w \<Rightarrow> if After (nextSlot sched (instant w) loc) (instant at) then None
                   else Some (ns (nextSlot sched (instant w) loc)))))"

definition unset_watermark :: "(string \<Rightarrow> schedule option) \<Rightarrow> (string \<Rightarrow> location option) \<Rightarrow> AutoScheduleCandidate \<Rightarrow> bool" where
  "unset_watermark parse tzdb c \<longleftrightarrow> ParseAutoScheduleCron parse (ac_cron c) \<noteq> None \<and>
     LoadLocation tzdb (ac_timezone c) \<noteq> None \<and> ac_last_run c = None"

definition consider_user ::
  "(string \<Rightarrow> schedule option) \<Rightarrow> (string \<Rightarrow> location option) \<Rightarrow> bool \<Rightarrow> bool \<Rightarrow> AutoScheduleCandidate \<Rightarrow> int \<Rightarrow> settings_db
    \<Rightarrow> settings_db \<times> focus_run option" where
  "consider_user parse tzdb failed shutting c at db =
     (if unset_watermark parse tzdb c
      then (if failed then db else fst (AdvanceAutoScheduleWatermark (ac_user c) None at db), None)
      else case consider_due parse tzdb c at of
          None \<Rightarrow> (db, None)
        | Some slot \<Rightarrow>
            if shutting \<or> failed then (db, None)
            else (case AdvanceAutoScheduleWatermark (ac_user c) (ac_last_run c) at db of
                (db', Inr True) \<Rightarrow> (db', Some \<lparr>rn_user = ac_user c, rn_slot = slot, rn_at = at\<rparr>)
              | (db', _) \<Rightarrow> (db', None)))"

subsection \<open>Ticks, saves and the clock\<close>

record cron_state =
  cs_db :: settings_db
  cs_clock :: int
  cs_ticks :: "nat \<Rightarrow> (AutoScheduleCandidate list \<times> int) option"
  cs_runs :: "focus_run list"

text \<open>
  The steps: a process that holds no tick lists the candidates for an instant that has passed
  (the listing may fail; a tick while one is in progress is dropped, so nothing happens); it
  considers its next candidate; its tick ends, or is stopped by the shutdown; a user's settings
  are saved or created; the clock moves on.
\<close>

inductive cron_step ::
  "(string \<Rightarrow> schedule option) \<Rightarrow> (string \<Rightarrow> location option) \<Rightarrow> cron_state \<Rightarrow> cron_state \<Rightarrow> bool"
  for parse :: "string \<Rightarrow> schedule option" and tzdb :: "string \<Rightarrow> location option"
where
  tick: "cs_ticks s p = None \<Longrightarrow> at \<le> cs_clock s \<Longrightarrow>
    cron_step parse tzdb s (s\<lparr>cs_ticks := (cs_ticks s)(p \<mapsto> (ListAutoScheduleCandidates (cs_db s), at))\<rparr>)"
| look: "cs_ticks s p = Some (c # cs, at) \<Longrightarrow>
    consider_user parse tzdb failed shutting c at (cs_db s) = (db', run) \<Longrightarrow>
    cron_step parse tzdb s (s\<lparr>cs_db := db', cs_ticks := (cs_ticks s)(p \<mapsto> (cs, at)),
      cs_runs := cs_runs s @ (case run of None \<Rightarrow> [] | Some r \<Rightarrow> [r])\<rparr>)"
| tick_over: "cs_ticks s p = Some t \<Longrightarrow> cron_step parse tzdb s (s\<lparr>cs_ticks := (cs_ticks s)(p := None)\<rparr>)"
| save: "cron_step parse tzdb s (s\<lparr>cs_db := fst (SaveSettingsForUserAt i u new (cs_clock s) (cs_db s))\<rparr>)"
| create: "cron_step parse tzdb s (s\<lparr>cs_db := fst (GetOrCreateSettingsByUser i u (cs_db s))\<rparr>)"
| clock: "cs_clock s \<le> now \<Longrightarrow> cron_step parse tzdb s (s\<lparr>cs_clock := now\<rparr>)"

inductive_cases cron_stepE: "cron_step parse tzdb s s'"

text \<open>The states reached from an empty table while every table on the way satisfies \<open>ok\<close>.\<close>

inductive cron_reach ::
  "(string \<Rightarrow> schedule option) \<Rightarrow> (string \<Rightarrow> location option) \<Rightarrow> (settings_db \<Rightarrow> bool) \<Rightarrow> cron_state \<Rightarrow> bool"
  for parse :: "string \<Rightarrow> schedule option" and tzdb :: "string \<Rightarrow> location option" and ok :: "settings_db \<Rightarrow> bool"
where
  start: "cs_db s = [] \<Longrightarrow> cs_ticks s = (\<lambda>_. None) \<Longrightarrow> cs_runs s = [] \<Longrightarrow> cron_reach parse tzdb ok s"
| step: "cron_reach parse tzdb ok s \<Longrightarrow> cron_step parse tzdb s s' \<Longrightarrow> ok (cs_db s') \<Longrightarrow> cron_reach parse tzdb ok s'"

subsection \<open>The next slot is later\<close>

text \<open>
  What the library documents of a schedule of five fields: the next activation is later than
  the time given, on a whole minute, in the same location (the scheduler asks in UTC), or the
  zero time when no activation is found. \<open>later_minutes\<close> are the schedules that always have a
  next activation; \<open>0 0 30 2 *\<close> is accepted by the parser and has none.
\<close>

definition later_minutes :: "schedule \<Rightarrow> bool" where
  "later_minutes sched \<longleftrightarrow> (\<forall>t. tloc t = UTC \<longrightarrow>
     ns t < ns (sched t) \<and> Second (sched t) = 0 \<and> Nanosecond (sched t) = 0 \<and> tloc (sched t) = UTC)"

text \<open>
  A schedule text and a zone for which the slots are regular: if the scheduler reads them, the
  schedule always has a next activation and the zone's offset does not change.
\<close>

definition steady :: "(string \<Rightarrow> schedule option) \<Rightarrow> (string \<Rightarrow> location option) \<Rightarrow> string \<Rightarrow> string \<Rightarrow> bool" where
  "steady parse tzdb expr zone \<longleftrightarrow> (\<forall>sched loc. ParseAutoScheduleCron parse expr = Some sched \<longrightarrow>
     LoadLocation tzdb zone = Some loc \<longrightarrow> later_minutes sched \<and> loc_trans loc = [])"

definition user_steady :: "(string \<Rightarrow> schedule option) \<Rightarrow> (string \<Rightarrow> location option) \<Rightarrow> uuid \<Rightarrow> settings_db \<Rightarrow> bool" where
  "user_steady parse tzdb u db \<longleftrightarrow> list_all (\<lambda>r. sr_user r = u \<and> se_auto_schedule (sr_settings r) \<longrightarrow>
     steady parse tzdb (se_cron (sr_settings r)) (se_timezone (sr_settings r))) db"

lemma unix_of_wall_steady: "loc_trans l = [] \<Longrightarrow> unix_of_wall l w = w - loc_base l"
  by (simp add: unix_of_wall_def zone_lookup_def)

lemma offset_at_steady: "loc_trans l = [] \<Longrightarrow> offset_at l x = loc_base l"
  by (simp add: offset_at_def zone_lookup_def)

lemma nextSlot_later:
  assumes "later_minutes sched" "loc_trans loc = []"
  shows "ns w < ns (nextSlot sched w loc)"
proof -
  let ?w = "In w loc"
  let ?wall = "go_date (date_of ?w) (Hour ?w) (Minute ?w) (Second ?w) (Nanosecond ?w) UTC"
  let ?n = "sched ?wall"
  have nano: "Nanosecond ?w div sec_ns = 0" "Nanosecond ?w mod sec_ns = Nanosecond ?w" "Nanosecond ?w = ns w mod sec_ns"
    by (simp_all add: Nanosecond_def)
  have "ns ?wall = (unix_sec w + loc_base loc) * sec_ns + ns w mod sec_ns"
    using nano wall_sec_date_clock [of ?w]
    by (simp add: go_date_def local_sec_def offset_at_steady [OF assms(2)] unix_sec_def)
  also have "\<dots> = ns w + loc_base loc * sec_ns"
    unfolding unix_sec_def using div_mult_mod_eq [of "ns w" sec_ns] by (simp add: algebra_simps)
  finally have wall: "ns ?wall = ns w + loc_base loc * sec_ns" .
  have n: "ns ?wall < ns ?n" "Second ?n = 0" "Nanosecond ?n = 0" "tloc ?n = UTC"
    using assms(1) [unfolded later_minutes_def, rule_format, of ?wall] by (auto simp: go_date_def)
  have "wall_sec (date_of ?n) (Hour ?n) (Minute ?n) 0 = unix_sec ?n"
    using wall_sec_date_clock [of ?n] n by (simp add: local_sec_def)
  then have "ns (nextSlot sched w loc) = (unix_sec ?n - loc_base loc) * sec_ns"
    by (simp add: nextSlot_def Let_def go_date_def unix_of_wall_steady [OF assms(2)])
  moreover have "unix_sec ?n * sec_ns = ns ?n"
    using n(3) div_mult_mod_eq [of "ns ?n" sec_ns] unfolding unix_sec_def Nanosecond_def by simp
  ultimately show ?thesis using wall n(1) by (simp add: algebra_simps)
qed

subsection \<open>Watermarks only move forward\<close>

definition watermark_of :: "settings_db \<Rightarrow> uuid \<Rightarrow> int option" where
  "watermark_of db u = (case find_row db u of None \<Rightarrow> None | Some r \<Rightarrow> sr_last_run r)"

definition forward :: "uuid \<Rightarrow> int \<Rightarrow> settings_db \<Rightarrow> settings_db \<Rightarrow> bool" where
  "forward u now db db' \<longleftrightarrow> (\<forall>w. watermark_of db u = Some w \<longrightarrow> (\<exists>w'. watermark_of db' u = Some w' \<and> w \<le> w')) \<and>
     (\<forall>w. watermark_of db' u = Some w \<longrightarrow> w \<le> now)"

definition bounded_by :: "uuid \<Rightarrow> int \<Rightarrow> settings_db \<Rightarrow> bool" where
  "bounded_by u now db \<longleftrightarrow> (\<forall>w. watermark_of db u = Some w \<longrightarrow> w \<le> now)"

lemma forward_same: "bounded_by u now db \<Longrightarrow> watermark_of db' u = watermark_of db u \<Longrightarrow> forward u now db db'"
  by (auto simp: forward_def bounded_by_def)

lemma watermark_Advance:
  assumes "settings_ok db" "u \<noteq> 0" "AdvanceAutoScheduleWatermark u obs to db = (db', Inr ok)"
  shows "ok \<Longrightarrow> watermark_of db u = obs" "watermark_of db' v = (if v = u \<and> ok then Some to else watermark_of db v)"
  using Advance_spec [OF assms] by (auto simp: watermark_of_def split: option.splits)

lemma Advance_cases:
  assumes "AdvanceAutoScheduleWatermark u obs to db = (db', r)"
  obtains (nil) "u = 0" "db' = db" "\<And>b. r \<noteq> Inr b" | (hit) ok where "u \<noteq> 0" "r = Inr ok"
  using assms by (auto simp: AdvanceAutoScheduleWatermark_def Let_def split: if_splits)

lemma forward_save:
  assumes "bounded_by u now db"
  shows "forward u now db (fst (SaveSettingsForUserAt i v s now db))"
proof (cases "v = 0")
  case True
  then show ?thesis using assms by (intro forward_same) (simp_all add: SaveSettingsForUserAt_def)
next
  case False
  then show ?thesis
    using assms unfolding forward_def bounded_by_def watermark_of_def SaveSettings_row [OF False]
    by (auto simp: watermark_after_save_def split: option.splits if_splits)
qed

lemma forward_create: "bounded_by u now db \<Longrightarrow> forward u now db (fst (GetOrCreateSettingsByUser i v db))"
  by (rule forward_same, assumption)
    (auto simp: GetOrCreateSettingsByUser_def watermark_of_def find_row_append split: option.splits)

lemma consider_user_cases:
  assumes "consider_user parse tzdb failed shutting c at db = (db', run)"
  obtains (idle) "db' = db" "run = None"
  | (unset) "run = None" "db' = fst (AdvanceAutoScheduleWatermark (ac_user c) None at db)"
  | (due) sched loc w r' where "ParseAutoScheduleCron parse (ac_cron c) = Some sched"
      "LoadLocation tzdb (ac_timezone c) = Some loc" "ac_last_run c = Some w"
      "ns (nextSlot sched (instant w) loc) \<le> at"
      "AdvanceAutoScheduleWatermark (ac_user c) (Some w) at db = (db', r')"
      "run = (if r' = Inr True then Some \<lparr>rn_user = ac_user c, rn_slot = ns (nextSlot sched (instant w) loc), rn_at = at\<rparr> else None)"
proof (cases "unset_watermark parse tzdb c")
  case True
  then show thesis using assms idle unset by (auto simp: consider_user_def split: if_splits)
next
  case False
  show thesis
  proof (cases "consider_due parse tzdb c at")
    case None
    then show thesis using assms False idle by (simp add: consider_user_def)
  next
    case (Some slot)
    then obtain sched loc w where d: "ParseAutoScheduleCron parse (ac_cron c) = Some sched"
        "LoadLocation tzdb (ac_timezone c) = Some loc" "ac_last_run c = Some w"
        "slot \<le> at" "slot = ns (nextSlot sched (instant w) loc)"
      by (auto simp: consider_due_def After_def split: option.splits if_splits)
    show thesis
    proof (cases "shutting \<or> failed")
      case True
      then show thesis using assms False Some idle by (simp add: consider_user_def)
    next
      case act: False
      obtain db1 r' where a: "AdvanceAutoScheduleWatermark (ac_user c) (Some w) at db = (db1, r')"
        by (cases "AdvanceAutoScheduleWatermark (ac_user c) (Some w) at db")
      have "db' = db1 \<and> run = (if r' = Inr True then Some \<lparr>rn_user = ac_user c, rn_slot = slot, rn_at = at\<rparr> else None)"
        using assms False Some act d(3) a by (auto simp: consider_user_def split: sum.splits bool.splits)
      then show thesis using due d a by simp
    qed
  qed
qed

lemma Advance_forward:
  assumes ok: "settings_ok db" "bounded_by u now db" "at \<le> now"
    and adv: "AdvanceAutoScheduleWatermark v obs at db = (db', r)" "\<And>w. v = u \<Longrightarrow> obs = Some w \<Longrightarrow> w \<le> at"
  shows "settings_ok db'" "forward u now db db'"
proof -
  show "settings_ok db'" using settings_ok_steps(3) [OF ok(1), of v obs at] adv(1) by simp
  from adv(1) show "forward u now db db'"
  proof (cases rule: Advance_cases)
    case nil
    then show ?thesis using forward_same [OF ok(2), of db] by simp
  next
    case (hit b)
    note w = watermark_Advance [OF ok(1) hit(1) adv(1) [unfolded hit(2)]]
    show ?thesis
    proof (cases "v = u \<and> b")
      case True
      then show ?thesis using w(1) w(2) [of u] adv(2) ok(3) by (auto simp: forward_def)
    next
      case False
      then show ?thesis using w(2) [of u] by (intro forward_same [OF ok(2)]) auto
    qed
  qed
qed

lemma consider_user_effect:
  assumes ok: "settings_ok db" "bounded_by u now db" "at \<le> now"
    and c: "consider_user parse tzdb failed shutting c at db = (db', run)"
    and steady: "ac_user c = u \<Longrightarrow> steady parse tzdb (ac_cron c) (ac_timezone c)"
  shows "settings_ok db'" "forward u now db db'"
    "\<And>r. run = Some r \<Longrightarrow> rn_user r = u \<Longrightarrow> rn_slot r \<le> rn_at r \<and> watermark_of db' u = Some (rn_at r) \<and>
       (\<exists>w. watermark_of db u = Some w \<and> w < rn_slot r)"
proof -
  from c have "settings_ok db' \<and> forward u now db db' \<and> (\<forall>r. run = Some r \<longrightarrow> rn_user r = u \<longrightarrow>
      rn_slot r \<le> rn_at r \<and> watermark_of db' u = Some (rn_at r) \<and> (\<exists>w. watermark_of db u = Some w \<and> w < rn_slot r))"
  proof (cases rule: consider_user_cases)
    case idle
    then show ?thesis using forward_same [OF ok(2), of db] ok(1) by simp
  next
    case unset
    then show ?thesis
      using Advance_forward [OF ok, of "ac_user c" None] by (cases "AdvanceAutoScheduleWatermark (ac_user c) None at db") auto
  next
    case (due sched loc w r')
    let ?slot = "ns (nextSlot sched (instant w) loc)"
    have lt: "w < ?slot" if "ac_user c = u"
      using steady [OF that] due(1,2) nextSlot_later [of sched loc "instant w"] by (simp add: steady_def)
    have fw: "settings_ok db'" "forward u now db db'"
      by (rule Advance_forward [OF ok due(5)], use lt due(4) in force)+
    have "rn_slot r \<le> rn_at r \<and> watermark_of db' u = Some (rn_at r) \<and> (\<exists>w. watermark_of db u = Some w \<and> w < rn_slot r)"
      if r: "run = Some r" "rn_user r = u" for r
    proof -
      have r': "r' = Inr True" "r = \<lparr>rn_user = u, rn_slot = ?slot, rn_at = at\<rparr>" "ac_user c = u"
        using due(6) r by (auto split: if_splits)
      have "u \<noteq> 0" using due(5) r' by (auto simp: AdvanceAutoScheduleWatermark_def split: if_splits)
      with r' show ?thesis
        using watermark_Advance [OF ok(1) _ due(5) [unfolded r'(1,3)]] due(4) lt by auto
    qed
    then show ?thesis using fw by blast
  qed
  then show "settings_ok db'" "forward u now db db'"
    "\<And>r. run = Some r \<Longrightarrow> rn_user r = u \<Longrightarrow> rn_slot r \<le> rn_at r \<and> watermark_of db' u = Some (rn_at r) \<and>
       (\<exists>w. watermark_of db u = Some w \<and> w < rn_slot r)" by blast+
qed

subsection \<open>Reachable states\<close>

definition slots_of :: "uuid \<Rightarrow> focus_run list \<Rightarrow> int list" where
  "slots_of u runs = map rn_slot (filter (\<lambda>r. rn_user r = u) runs)"

definition cands_steady ::
  "(string \<Rightarrow> schedule option) \<Rightarrow> (string \<Rightarrow> location option) \<Rightarrow> uuid \<Rightarrow> AutoScheduleCandidate list \<Rightarrow> bool" where
  "cands_steady parse tzdb u cs \<longleftrightarrow> list_all (\<lambda>c. ac_user c = u \<longrightarrow> steady parse tzdb (ac_cron c) (ac_timezone c)) cs"

lemma cands_steady_list: "user_steady parse tzdb u db \<Longrightarrow> cands_steady parse tzdb u (ListAutoScheduleCandidates db)"
  by (auto simp: user_steady_def cands_steady_def ListAutoScheduleCandidates_def candidate_of_def list_all_iff)

definition cron_inv ::
  "(string \<Rightarrow> schedule option) \<Rightarrow> (string \<Rightarrow> location option) \<Rightarrow> uuid \<Rightarrow> cron_state \<Rightarrow> bool" where
  "cron_inv parse tzdb u s \<longleftrightarrow> settings_ok (cs_db s) \<and> bounded_by u (cs_clock s) (cs_db s) \<and>
     (\<forall>p cs at. cs_ticks s p = Some (cs, at) \<longrightarrow> at \<le> cs_clock s \<and> cands_steady parse tzdb u cs) \<and>
     (\<forall>r \<in> set (cs_runs s). rn_user r = u \<longrightarrow> (\<exists>w. watermark_of (cs_db s) u = Some w \<and> rn_slot r \<le> rn_at r \<and> rn_at r \<le> w)) \<and>
     sorted_wrt (<) (slots_of u (cs_runs s))"

lemma cron_inv_forward:
  assumes "cron_inv parse tzdb u s" "settings_ok db'" "forward u (cs_clock s) (cs_db s) db'"
  shows "cron_inv parse tzdb u (s\<lparr>cs_db := db'\<rparr>)"
  using assms unfolding cron_inv_def forward_def bounded_by_def by (fastforce intro: order_trans)

lemma cron_inv_ticks:
  "cron_inv parse tzdb u s \<Longrightarrow> (\<And>p cs at. ts p = Some (cs, at) \<Longrightarrow> at \<le> cs_clock s \<and> cands_steady parse tzdb u cs) \<Longrightarrow>
   cron_inv parse tzdb u (s\<lparr>cs_ticks := ts\<rparr>)"
  by (simp add: cron_inv_def)

lemma cron_inv_run:
  assumes "cron_inv parse tzdb u s"
    and "rn_user r = u \<Longrightarrow> watermark_of (cs_db s) u = Some (rn_at r) \<and> rn_slot r \<le> rn_at r"
    and "\<And>q. rn_user r = u \<Longrightarrow> q \<in> set (cs_runs s) \<Longrightarrow> rn_user q = u \<Longrightarrow> rn_slot q < rn_slot r"
  shows "cron_inv parse tzdb u (s\<lparr>cs_runs := cs_runs s @ [r]\<rparr>)"
proof -
  have "sorted_wrt (<) (slots_of u (cs_runs s @ [r]))"
    using assms(1,3) by (auto simp: cron_inv_def slots_of_def sorted_wrt_append)
  then show ?thesis using assms(1,2) by (auto simp: cron_inv_def)
qed

lemma cron_step_inv:
  assumes "cron_step parse tzdb s s'" "cron_inv parse tzdb u s" "user_steady parse tzdb u (cs_db s)"
  shows "cron_inv parse tzdb u s'"
proof -
  have inv: "settings_ok (cs_db s)" "bounded_by u (cs_clock s) (cs_db s)" using assms(2) by (simp_all add: cron_inv_def)
  from assms(1) show ?thesis
  proof (cases rule: cron_step.cases)
    case (tick p at)
    then show ?thesis using assms(2) cands_steady_list [OF assms(3)]
      by (auto intro!: cron_inv_ticks simp: cron_inv_def split: if_splits)
  next
    case (look p c cs at failed shutting db' run)
    have ok: "at \<le> cs_clock s" "cands_steady parse tzdb u (c # cs)"
      using assms(2) look(2) by (auto simp: cron_inv_def)
    note e = consider_user_effect [OF inv ok(1) look(3)]
    have c: "ac_user c = u \<Longrightarrow> steady parse tzdb (ac_cron c) (ac_timezone c)" and cs: "cands_steady parse tzdb u cs"
      using ok(2) by (simp_all add: cands_steady_def)
    let ?s = "s\<lparr>cs_db := db', cs_ticks := (cs_ticks s)(p \<mapsto> (cs, at))\<rparr>"
    have "cron_inv parse tzdb u (s\<lparr>cs_db := db'\<rparr>)" by (rule cron_inv_forward [OF assms(2) e(1,2) [OF c]])
    then have "cron_inv parse tzdb u ((s\<lparr>cs_db := db'\<rparr>)\<lparr>cs_ticks := (cs_ticks s)(p \<mapsto> (cs, at))\<rparr>)"
      by (rule cron_inv_ticks) (use assms(2) ok(1) cs in \<open>auto simp: cron_inv_def split: if_splits\<close>)
    then have s: "cron_inv parse tzdb u ?s" by simp
    show ?thesis
    proof (cases run)
      case None
      then show ?thesis using s look(1) by simp
    next
      case (Some r)
      have "rn_slot q < rn_slot r" if q: "rn_user r = u" "q \<in> set (cs_runs s)" "rn_user q = u" for q
      proof -
        obtain x where "watermark_of (cs_db s) u = Some x" "rn_slot q \<le> rn_at q" "rn_at q \<le> x"
          using assms(2) q(2,3) unfolding cron_inv_def by blast
        then show ?thesis using e(3) [OF c Some q(1)] by auto
      qed
      then have "cron_inv parse tzdb u (?s\<lparr>cs_runs := cs_runs ?s @ [r]\<rparr>)"
        using e(3) [OF c Some] by (intro cron_inv_run [OF s]) auto
      then show ?thesis using look(1) Some by simp
    qed
  next
    case (tick_over p t)
    then show ?thesis using assms(2) by (auto intro!: cron_inv_ticks simp: cron_inv_def split: if_splits)
  next
    case (save i v new)
    then show ?thesis
      using cron_inv_forward [OF assms(2) settings_ok_steps(2) [OF inv(1)] forward_save [OF inv(2)]] by simp
  next
    case (create i v)
    then show ?thesis
      using cron_inv_forward [OF assms(2) settings_ok_steps(1) [OF inv(1)] forward_create [OF inv(2)]] by simp
  next
    case (clock now)
    then show ?thesis using assms(2) unfolding cron_inv_def bounded_by_def by (fastforce intro: order_trans)
  qed
qed

lemma cron_reach_inv:
  "cron_reach parse tzdb (user_steady parse tzdb u) s \<Longrightarrow> cron_inv parse tzdb u s \<and> user_steady parse tzdb u (cs_db s)"
proof (induction rule: cron_reach.induct)
  case (start s)
  then show ?case
    by (auto simp: cron_inv_def settings_ok_def bounded_by_def watermark_of_def find_row_def slots_of_def user_steady_def)
next
  case (step s s')
  then show ?case using cron_step_inv [OF step.hyps(2)] by blast
qed

subsection \<open>Properties\<close>

text \<open>
  C29. Several processes tick on the same table while users save their settings, in any
  interleaving. As long as the zones a user has in use do not change their offset and the
  schedules always have a next activation, whatever the other users' are, the slots run for
  that user strictly increase: no slot runs twice, and none runs after a later one.
\<close>

theorem no_slot_runs_twice:
  assumes "cron_reach parse tzdb (user_steady parse tzdb u) s"
  shows "sorted_wrt (<) (slots_of u (cs_runs s))"
  using cron_reach_inv [OF assms] by (simp add: cron_inv_def)

text \<open>A schedule that activates at every full hour, and a user who turned it on at seven.\<close>

definition ex_hourly :: schedule where
  "ex_hourly t = \<lparr>ns = (ns t div hour_ns + 1) * hour_ns, tloc = tloc t\<rparr>"

definition ex_parse :: "string \<Rightarrow> schedule option" where
  "ex_parse e = (if e = ''0 * * * *'' then Some ex_hourly else None)"

definition ex_on :: Settings where
  "ex_on = default_settings\<lparr>se_auto_schedule := True, se_cron := ''0 * * * *''\<rparr>"

definition ex_round :: "int \<Rightarrow> cron_state \<Rightarrow> cron_state" where
  "ex_round now s =
     (let cs = ListAutoScheduleCandidates (cs_db s);
          (db', run) = consider_user ex_parse (\<lambda>_. None) False False (hd cs) now (cs_db s)
      in s\<lparr>cs_clock := now, cs_db := db', cs_ticks := (cs_ticks s)(0 := None),
           cs_runs := cs_runs s @ (case run of None \<Rightarrow> [] | Some r \<Rightarrow> [r])\<rparr>)"

definition ex_enabled :: cron_state where
  "ex_enabled = \<lparr>cs_db = fst (SaveSettingsForUserAt 1 7 ex_on (7 * hour_ns) []), cs_clock = 7 * hour_ns,
     cs_ticks = (\<lambda>_. None), cs_runs = []\<rparr>"

lemma ex_hourly_later: "later_minutes ex_hourly"
proof -
  have "ns t < (ns t div hour_ns + 1) * hour_ns" for t
    using div_mult_mod_eq [of "ns t" hour_ns] pos_mod_bound [of hour_ns "ns t"] by (simp add: algebra_simps)
  moreover have "Second (ex_hourly t) = 0" if "tloc t = UTC" for t
  proof -
    have "local_sec (ex_hourly t) = (ns t div hour_ns + 1) * 3600"
      using that by (simp add: ex_hourly_def unix_sec_def local_sec_def)
    then have "60 dvd local_sec (ex_hourly t)" by simp
    then show ?thesis unfolding Second_def clock_sec_def by (simp add: mod_mod_cancel)
  qed
  ultimately show ?thesis
    by (auto simp: later_minutes_def Nanosecond_def) (simp_all add: ex_hourly_def)
qed

lemma ex_steady: "user_steady ex_parse (\<lambda>_. None) u db"
proof -
  have "loc_trans loc = []" if "LoadLocation (\<lambda>_. None) z = Some loc" for z loc
    using that by (auto simp: LoadLocation_def UTC_def split: if_splits)
  then show ?thesis
    using ex_hourly_later
    by (auto simp: user_steady_def steady_def list_all_iff ParseAutoScheduleCron_def ex_parse_def split: if_splits)
qed

abbreviation ex_reach :: "cron_state \<Rightarrow> bool" where
  "ex_reach \<equiv> cron_reach ex_parse (\<lambda>_. None) (user_steady ex_parse (\<lambda>_. None) 7)"

lemma ex_enabled_reach: "ex_reach ex_enabled"
proof -
  let ?s = "\<lparr>cs_db = [], cs_clock = 7 * hour_ns, cs_ticks = (\<lambda>_. None), cs_runs = []\<rparr>"
  have "ex_reach ?s" by (rule cron_reach.start) simp_all
  from cron_reach.step [OF this cron_step.save [of _ _ ?s 1 7 ex_on] ex_steady] show ?thesis by (simp add: ex_enabled_def)
qed

lemma ex_round_reach:
  assumes "ex_reach s" "cs_ticks s 0 = None" "cs_clock s \<le> now" "ListAutoScheduleCandidates (cs_db s) \<noteq> []"
  shows "ex_reach (ex_round now s)"
proof -
  obtain c cs where c: "ListAutoScheduleCandidates (cs_db s) = c # cs" using assms(4) by (cases "ListAutoScheduleCandidates (cs_db s)") auto
  obtain db' run where e: "consider_user ex_parse (\<lambda>_. None) False False c now (cs_db s) = (db', run)"
    by (cases "consider_user ex_parse (\<lambda>_. None) False False c now (cs_db s)")
  let ?s1 = "s\<lparr>cs_clock := now\<rparr>" and ?runs = "cs_runs s @ (case run of None \<Rightarrow> [] | Some r \<Rightarrow> [r])"
  let ?s2 = "?s1\<lparr>cs_ticks := (cs_ticks ?s1)(0 \<mapsto> (c # cs, now))\<rparr>"
  let ?s3 = "?s2\<lparr>cs_db := db', cs_ticks := (cs_ticks ?s2)(0 \<mapsto> (cs, now)), cs_runs := ?runs\<rparr>"
  let ?s4 = "?s3\<lparr>cs_ticks := (cs_ticks ?s3)(0 := None)\<rparr>"
  have s1: "ex_reach ?s1"
    by (rule cron_reach.step [OF assms(1) _ ex_steady], rule cron_step.clock) (rule assms(3))
  have s2: "cron_step ex_parse (\<lambda>_. None) ?s1 ?s2" using cron_step.tick [of ?s1 0 now] assms(2) c by simp
  have s3: "cron_step ex_parse (\<lambda>_. None) ?s2 ?s3"
    using cron_step.look [of ?s2 0 c cs now ex_parse "\<lambda>_. None" False False db' run] e by simp
  have s4: "cron_step ex_parse (\<lambda>_. None) ?s3 ?s4" by (rule cron_step.tick_over [of _ _ "(cs, now)"]) simp
  note step = cron_reach.step [OF _ _ ex_steady]
  have "ex_reach ?s4" by (rule step [OF step [OF step [OF s1 s2] s3] s4])
  moreover have "?s4 = ex_round now s" using c e by (simp add: ex_round_def fun_upd_def fun_eq_iff)
  ultimately show ?thesis by simp
qed

theorem no_slot_runs_twice_witness:
  "\<exists>s. cron_reach ex_parse (\<lambda>_. None) (user_steady ex_parse (\<lambda>_. None) 7) s \<and>
     slots_of 7 (cs_runs s) = [8 * hour_ns, 10 * hour_ns] \<and> sorted_wrt (<) (slots_of 7 (cs_runs s))"
proof -
  let ?s1 = "ex_round (9 * hour_ns) ex_enabled"
  let ?s = "ex_round (10 * hour_ns) ?s1"
  have r1: "ex_reach ?s1" by (rule ex_round_reach [OF ex_enabled_reach]; code_simp)
  have r: "ex_reach ?s" by (rule ex_round_reach [OF r1]; code_simp)
  moreover have "slots_of 7 (cs_runs ?s) = [8 * hour_ns, 10 * hour_ns]" by code_simp
  ultimately show ?thesis using no_slot_runs_twice [OF r] by blast
qed

text \<open>
  A due user is run: when the slot after the stored watermark has come, the tick's listing
  still agrees with the row and the update succeeds, the user is run for that slot, and the
  watermark is the tick instant, so slots missed in between count as this one run.
\<close>

theorem due_slot_runs:
  assumes "settings_ok db" "find_row db u = Some r" "se_auto_schedule (sr_settings r)" "sr_last_run r = Some w"
    and "ParseAutoScheduleCron parse (se_cron (sr_settings r)) = Some sched"
    and "LoadLocation tzdb (se_timezone (sr_settings r)) = Some loc"
    and "ns (nextSlot sched (instant w) loc) \<le> at"
  shows "\<exists>db'. consider_user parse tzdb False False (candidate_of r) at db =
      (db', Some \<lparr>rn_user = u, rn_slot = ns (nextSlot sched (instant w) loc), rn_at = at\<rparr>) \<and>
      watermark_of db' u = Some at"
proof -
  have u: "sr_user r = u" "u \<noteq> 0" using find_row_Some [OF assms(2)] assms(1) by (auto simp: settings_ok_def list_all_iff)
  obtain db' ok where a: "AdvanceAutoScheduleWatermark u (Some w) at db = (db', Inr ok)"
    using u(2) by (auto simp: AdvanceAutoScheduleWatermark_def Let_def)
  have ok: "ok" using Advance_spec(1) [OF assms(1) u(2) a] assms(2-4) by simp
  have "consider_due parse tzdb (candidate_of r) at = Some (ns (nextSlot sched (instant w) loc))"
    using assms(4-7) by (simp add: consider_due_def candidate_of_def After_def)
  then have "consider_user parse tzdb False False (candidate_of r) at db =
      (db', Some \<lparr>rn_user = u, rn_slot = ns (nextSlot sched (instant w) loc), rn_at = at\<rparr>)"
    using a ok assms(4) u(1) by (simp add: consider_user_def unset_watermark_def candidate_of_def)
  moreover have "watermark_of db' u = Some at" using watermark_Advance(2) [OF assms(1) u(2) a, of u] ok by simp
  ultimately show ?thesis by blast
qed

definition ex_row :: settings_row where
  "ex_row = \<lparr>sr_id = 1, sr_user = 7, sr_settings = ex_on, sr_last_run = Some (7 * hour_ns)\<rparr>"

theorem due_slot_runs_witness:
  "\<exists>db'. consider_user ex_parse (\<lambda>_. None) False False (candidate_of ex_row) (9 * hour_ns) [ex_row] =
      (db', Some \<lparr>rn_user = 7, rn_slot = 8 * hour_ns, rn_at = 9 * hour_ns\<rparr>) \<and> watermark_of db' 7 = Some (9 * hour_ns)"
proof -
  have r: "settings_ok [ex_row]" "find_row [ex_row] 7 = Some ex_row" "se_auto_schedule (sr_settings ex_row)" "sr_last_run ex_row = Some (7 * hour_ns)"
    "ParseAutoScheduleCron ex_parse (se_cron (sr_settings ex_row)) = Some ex_hourly"
    "LoadLocation (\<lambda>_. None) (se_timezone (sr_settings ex_row)) = Some UTC"
    by (simp_all add: settings_ok_def find_row_def ex_row_def ex_on_def ex_parse_def default_settings_def LoadLocation_def ParseAutoScheduleCron_def)
      code_simp
  have s: "ns (nextSlot ex_hourly (instant (7 * hour_ns)) UTC) = 8 * hour_ns" by code_simp
  then have "ns (nextSlot ex_hourly (instant (7 * hour_ns)) UTC) \<le> 9 * hour_ns" by simp
  from due_slot_runs [OF r this] s show ?thesis by simp
qed

text \<open>A whole tick that nothing interrupts, and several ticks in a row.\<close>

definition tick_runs ::
  "(string \<Rightarrow> schedule option) \<Rightarrow> (string \<Rightarrow> location option) \<Rightarrow> settings_db \<Rightarrow> int \<Rightarrow> settings_db \<times> focus_run list" where
  "tick_runs parse tzdb db at =
     foldl (\<lambda>(db, runs) c. case consider_user parse tzdb False False c at db of
         (db', None) \<Rightarrow> (db', runs)
       | (db', Some r) \<Rightarrow> (db', runs @ [r])) (db, []) (ListAutoScheduleCandidates db)"

fun ticks_runs ::
  "(string \<Rightarrow> schedule option) \<Rightarrow> (string \<Rightarrow> location option) \<Rightarrow> settings_db \<Rightarrow> int list \<Rightarrow> settings_db \<times> focus_run list" where
  "ticks_runs parse tzdb db [] = (db, [])"
| "ticks_runs parse tzdb db (at # ats) =
     (let (db1, rs) = tick_runs parse tzdb db at; (db2, rest) = ticks_runs parse tzdb db1 ats in (db2, rs @ rest))"

text \<open>The table with one row, of a user with automatic scheduling on, and its tick when the slot has come.\<close>

definition one_row :: "nat \<Rightarrow> uuid \<Rightarrow> Settings \<Rightarrow> int \<Rightarrow> settings_db" where
  "one_row i u s w = [\<lparr>sr_id = i, sr_user = u, sr_settings = s, sr_last_run = Some w\<rparr>]"

lemma one_row_tick:
  assumes "u \<noteq> 0" "se_auto_schedule s" "ParseAutoScheduleCron parse (se_cron s) = Some sched"
    and "LoadLocation tzdb (se_timezone s) = Some loc" "ns (nextSlot sched (instant w) loc) = slot" "slot \<le> at"
  shows "tick_runs parse tzdb (one_row i u s w) at = (one_row i u s at, [\<lparr>rn_user = u, rn_slot = slot, rn_at = at\<rparr>])"
proof -
  let ?c = "\<lparr>ac_user = u, ac_cron = se_cron s, ac_timezone = se_timezone s, ac_last_run = Some w\<rparr>"
  have l: "ListAutoScheduleCandidates (one_row i u s w) = [?c]"
    using assms(2) by (simp add: ListAutoScheduleCandidates_def one_row_def candidate_of_def)
  have d: "consider_due parse tzdb ?c at = Some slot"
    using assms(3-6) by (simp add: consider_due_def After_def)
  have "AdvanceAutoScheduleWatermark u (Some w) at (one_row i u s w) = (one_row i u s at, Inr True)"
    using assms(1,2) by (simp add: AdvanceAutoScheduleWatermark_def one_row_def)
  then have "consider_user parse tzdb False False ?c at (one_row i u s w) =
      (one_row i u s at, Some \<lparr>rn_user = u, rn_slot = slot, rn_at = at\<rparr>)"
    by (simp add: consider_user_def unset_watermark_def d)
  then show ?thesis by (simp add: tick_runs_def l)
qed

lemma ticks_same_slot:
  assumes "u \<noteq> 0" "se_auto_schedule s" "ParseAutoScheduleCron parse (se_cron s) = Some sched"
    and "LoadLocation tzdb (se_timezone s) = Some loc"
    and "\<And>v. P v \<Longrightarrow> ns (nextSlot sched (instant v) loc) = slot" "P w" "list_all (\<lambda>at. P at \<and> slot \<le> at) ats"
  shows "snd (ticks_runs parse tzdb (one_row i u s w) ats) = map (\<lambda>at. \<lparr>rn_user = u, rn_slot = slot, rn_at = at\<rparr>) ats"
  using assms(6,7)
proof (induction ats arbitrary: w)
  case (Cons at ats)
  then show ?case using one_row_tick [OF assms(1-4) assms(5) [OF Cons.prems(1)]] by (simp add: split_beta)
qed simp

text \<open>
  A spring change: the offset is \<open>off0\<close> until the second \<open>T\<close> and \<open>off1\<close>, which is larger, from
  then on. West of Greenwich a wall time the change skips is resolved to the instant \<open>off1\<close>
  before it, which is before the change.
\<close>

definition spring_zone :: "string \<Rightarrow> int \<Rightarrow> int \<Rightarrow> int \<Rightarrow> location" where
  "spring_zone name off0 T off1 = \<lparr>loc_name = name, loc_base = off0, loc_trans = [(T, off1)]\<rparr>"

lemma spring_lookup:
  "zone_lookup (spring_zone name off0 T off1) x = (if x < T then (off0, None, Some T) else (off1, Some T, None))"
  by (simp add: zone_lookup_def spring_zone_def)

lemma gap_resolved:
  assumes "off0 < off1" "off1 \<le> 0" "T + off0 \<le> n" "n < T + off1"
  shows "unix_of_wall (spring_zone name off0 T off1) n = n - off1"
  using assms by (simp add: unix_of_wall_def offset_at_def spring_lookup Let_def)

lemma gap_next_slot:
  fixes w :: int
  assumes gap: "off0 < off1" "off1 \<le> 0" "T + off0 \<le> n" "n < T + off1" "n mod 60 = 0"
    and sched: "\<And>t. tloc t = UTC \<Longrightarrow> m * sec_ns \<le> ns t \<Longrightarrow> ns t < n * sec_ns \<Longrightarrow> sched t = \<lparr>ns = n * sec_ns, tloc = UTC\<rparr>"
    and w: "(m - off0) * sec_ns \<le> w" "w < T * sec_ns"
  shows "ns (nextSlot sched (instant w) (spring_zone name off0 T off1)) = (n - off1) * sec_ns"
proof -
  let ?loc = "spring_zone name off0 T off1"
  let ?w = "In (instant w) ?loc"
  let ?wall = "go_date (date_of ?w) (Hour ?w) (Minute ?w) (Second ?w) (Nanosecond ?w) UTC"
  let ?n = "\<lparr>ns = n * sec_ns, tloc = UTC\<rparr>"
  have "w div sec_ns < T" using w(2) by (simp add: div_less_iff_less_mult)
  then have off: "offset_at ?loc (unix_sec ?w) = off0"
    by (simp add: offset_at_def spring_lookup unix_sec_def)
  have "ns ?wall = (unix_sec ?w + off0) * sec_ns + w mod sec_ns"
    using wall_sec_date_clock [of ?w] off by (simp add: go_date_def local_sec_def Nanosecond_def)
  also have "\<dots> = w + off0 * sec_ns"
    unfolding unix_sec_def using div_mult_mod_eq [of w sec_ns] by (simp add: algebra_simps)
  finally have wall: "ns ?wall = w + off0 * sec_ns" .
  have "sched ?wall = ?n"
    using w gap(3) by (intro sched) (simp_all add: wall, simp_all add: go_date_def algebra_simps)
  then have "nextSlot sched (instant w) ?loc = go_date (date_of ?n) (Hour ?n) (Minute ?n) 0 0 ?loc"
    by (simp add: nextSlot_def Let_def)
  moreover have "Second ?n = 0"
    using gap(5) by (simp add: Second_def clock_sec_def local_sec_def unix_sec_def mod_mod_cancel)
  then have "wall_sec (date_of ?n) (Hour ?n) (Minute ?n) 0 = n"
    using wall_sec_date_clock [of ?n] by (simp add: local_sec_def unix_sec_def)
  ultimately show ?thesis using gap_resolved [OF gap(1-4)] by (simp add: go_date_def)
qed

text \<open>
  C35. Where the offset changes the watermark does not keep a slot from running again. In any
  zone west of Greenwich, a slot whose wall time a spring change skips is resolved to an
  instant before the change, and stays the next slot until the change: every tick from that
  instant to the change, however many there are, runs the one slot again. The schedule may be
  any one that names that wall time next from the last run's wall time on.
\<close>

theorem gap_slot_runs_every_tick:
  assumes "off0 < off1" "off1 \<le> 0" "T + off0 \<le> n" "n < T + off1" "n mod 60 = 0"
    and "\<And>t. tloc t = UTC \<Longrightarrow> m * sec_ns \<le> ns t \<Longrightarrow> ns t < n * sec_ns \<Longrightarrow> sched t = \<lparr>ns = n * sec_ns, tloc = UTC\<rparr>"
    and "m \<le> n - (off1 - off0)"
    and "u \<noteq> 0" "se_auto_schedule s" "ParseAutoScheduleCron parse (se_cron s) = Some sched"
    and "LoadLocation tzdb (se_timezone s) = Some (spring_zone name off0 T off1)"
    and "(m - off0) * sec_ns \<le> w" "w < T * sec_ns"
    and "list_all (\<lambda>at. (n - off1) * sec_ns \<le> at \<and> at < T * sec_ns) ats"
  shows "snd (ticks_runs parse tzdb (one_row i u s w) ats) =
    map (\<lambda>at. \<lparr>rn_user = u, rn_slot = (n - off1) * sec_ns, rn_at = at\<rparr>) ats"
proof -
  have "(m - off0) * sec_ns \<le> (n - off1) * sec_ns" using assms(7) by (intro mult_right_mono) simp_all
  then have "list_all (\<lambda>at. ((m - off0) * sec_ns \<le> at \<and> at < T * sec_ns) \<and> (n - off1) * sec_ns \<le> at) ats"
    using assms(14) by (auto simp: list_all_iff)
  from ticks_same_slot [OF assms(8-11), where P = "\<lambda>v. (m - off0) * sec_ns \<le> v \<and> v < T * sec_ns", OF gap_next_slot [OF assms(1-6)] _ this]
  show ?thesis using assms(12,13) by simp
qed

text \<open>
  New York on 2025-03-09 (five hours behind until 07:00 UTC, four hours from then on), a
  schedule of every day at 02:30, and a user who last ran on the day before.
\<close>

definition ex_daily :: schedule where
  "ex_daily t = \<lparr>ns = ((ns t - 9000 * sec_ns) div day_ns + 1) * day_ns + 9000 * sec_ns, tloc = tloc t\<rparr>"

definition ex_expr_parse :: "string \<Rightarrow> schedule \<Rightarrow> string \<Rightarrow> schedule option" where
  "ex_expr_parse expr sched e = (if e = expr then Some sched else None)"

definition ex_zones :: "string \<Rightarrow> location option" where
  "ex_zones = [''America/New_York'' \<mapsto> spring_zone ''America/New_York'' (- 18000) 1741503600 (- 14400)]"

definition ex_west :: "string \<Rightarrow> Settings" where
  "ex_west expr = default_settings\<lparr>se_auto_schedule := True, se_cron := expr, se_timezone := ''America/New_York''\<rparr>"

lemma ex_west_settings:
  "se_auto_schedule (ex_west expr)" "se_cron (ex_west expr) = expr" "se_timezone (ex_west expr) = ''America/New_York''"
  by (simp_all add: ex_west_def)

lemma ex_west_zone:
  "LoadLocation ex_zones (se_timezone (ex_west expr)) = Some (spring_zone ''America/New_York'' (- 18000) 1741503600 (- 14400))"
  by (simp add: ex_west_settings LoadLocation_def ex_zones_def)

lemma ex_daily_next:
  assumes "tloc t = UTC" "1741401000 * sec_ns \<le> ns t" "ns t < 1741487400 * sec_ns"
  shows "ex_daily t = \<lparr>ns = 1741487400 * sec_ns, tloc = UTC\<rparr>"
proof -
  have "(ns t - 9000 * sec_ns) div day_ns = 20155"
    using assms(2,3) by (intro int_div_pos_eq [of _ _ _ "ns t - 9000 * sec_ns - 20155 * day_ns"]) simp_all
  then show ?thesis using assms(1) by (simp add: ex_daily_def)
qed

theorem gap_slot_runs_every_tick_witness:
  "map rn_slot (snd (ticks_runs (ex_expr_parse ''30 2 * * *'' ex_daily) ex_zones (one_row 1 7 (ex_west ''30 2 * * *'') (1741419000 * sec_ns))
     (map (\<lambda>k. (1741501800 + 60 * int k) * sec_ns) [0..<30]))) = replicate 30 (1741501800 * sec_ns)"
proof -
  let ?ats = "map (\<lambda>k. (1741501800 + 60 * int k) * sec_ns) [0..<30]"
  have "length (Fields ''30 2 * * *'') = 5" by code_simp
  then have p: "ParseAutoScheduleCron (ex_expr_parse ''30 2 * * *'' ex_daily) (se_cron (ex_west ''30 2 * * *'')) = Some ex_daily"
    by (simp add: ParseAutoScheduleCron_def ex_expr_parse_def ex_west_settings)
  have ats: "list_all (\<lambda>at. (1741487400 - (- 14400)) * sec_ns \<le> at \<and> at < 1741503600 * sec_ns) ?ats"
    by (simp add: list_all_iff)
  from gap_slot_runs_every_tick [where m = 1741401000 and w = "1741419000 * sec_ns" and i = 1 and u = 7 and sched = ex_daily,
      OF _ _ _ _ _ ex_daily_next _ _ ex_west_settings(1) p ex_west_zone _ _ ats]
  show ?thesis by (simp add: list_eq_iff_nth_eq)
qed

text \<open>
  C40. A schedule without a next activation is no schedule
  at all to the library, which answers the zero time; the scheduler takes that answer for a slot
  that has come. A user with such a schedule, which the parser of the settings accepts, is run
  by every tick.
\<close>

theorem unreachable_schedule_runs_every_tick:
  assumes "\<And>t. tloc t = UTC \<Longrightarrow> sched t = zero_time"
    and "u \<noteq> 0" "se_auto_schedule s" "ParseAutoScheduleCron parse (se_cron s) = Some sched"
    and "LoadLocation tzdb (se_timezone s) = Some loc" "wf_zone loc"
    and "list_all (\<lambda>at. 0 \<le> at) ats"
  shows "map rn_at (snd (ticks_runs parse tzdb (one_row i u s w) ats)) = ats"
proof -
  let ?z = "ns (go_date (date_of zero_time) (Hour zero_time) (Minute zero_time) 0 0 loc)"
  have bound: "unix_of_wall loc x < x + day_sec" for x
  proof -
    obtain y where y: "unix_of_wall loc x = x - offset_at loc y" using unix_of_wall_offset [of loc x] by blast
    have "\<bar>offset_at loc y\<bar> < day_sec" by (rule wf_offset [OF assms(6)])
    then show ?thesis using y by linarith
  qed
  have "wall_sec (date_of zero_time) (Hour zero_time) (Minute zero_time) 0 = -62135596800" by code_simp
  then have "?z = unix_of_wall loc (-62135596800) * sec_ns" by (simp add: go_date_def)
  then have z: "?z \<le> 0" using bound [of "-62135596800"] by simp
  have "ns (nextSlot sched (instant v) loc) = ?z" for v
    using assms(1) by (simp add: nextSlot_def Let_def go_date_def)
  moreover have "list_all (\<lambda>at. True \<and> ?z \<le> at) ats" using assms(7) z by (auto simp: list_all_iff)
  ultimately have "snd (ticks_runs parse tzdb (one_row i u s w) ats) = map (\<lambda>at. \<lparr>rn_user = u, rn_slot = ?z, rn_at = at\<rparr>) ats"
    by (intro ticks_same_slot [OF assms(2-5), where P = "\<lambda>_. True"]) simp_all
  then show ?thesis by (simp add: comp_def)
qed

theorem unreachable_schedule_runs_every_tick_witness:
  "map rn_at (snd (ticks_runs (ex_expr_parse ''0 0 30 2 *'' (\<lambda>_. zero_time)) ex_zones (one_row 1 7 (ex_west ''0 0 30 2 *'') 0)
     [60 * sec_ns, 120 * sec_ns, 180 * sec_ns])) = [60 * sec_ns, 120 * sec_ns, 180 * sec_ns]"
proof -
  have "length (Fields ''0 0 30 2 *'') = 5" by code_simp
  then have p: "ParseAutoScheduleCron (ex_expr_parse ''0 0 30 2 *'' (\<lambda>_. zero_time)) (se_cron (ex_west ''0 0 30 2 *'')) = Some (\<lambda>_. zero_time)"
    by (simp add: ParseAutoScheduleCron_def ex_expr_parse_def ex_west_settings)
  have z: "wf_zone (spring_zone ''America/New_York'' (- 18000) 1741503600 (- 14400))" by code_simp
  show ?thesis
    by (rule unreachable_schedule_runs_every_tick [OF _ _ ex_west_settings(1) p ex_west_zone z]) simp_all
qed

end
