(* ===== verification/Budget.thy ===== *)
theory Budget
  imports Prelude
begin

section \<open>Budget: one answer per request\<close>

text \<open>
  \<^verbatim>\<open>backend/internal/budget/budget.go\<close>: a handler runs on its own goroutine while the middleware
  waits for it or for the end of the request's budget. The two share the flags \<^verbatim>\<open>expired\<close>,
  \<^verbatim>\<open>committed\<close> and \<^verbatim>\<open>wrote\<close> under one mutex; every locked section is one step of \<open>budget_step\<close>, and
  the steps interleave freely. What reaches the client's connection is the list \<open>bs_out\<close>.
\<close>

datatype reply =
    HandlerStatus int
  | HandlerBytes string
  | HandlerFlush
  | BudgetExpired
  | BudgetCustom

datatype middle = Selecting | Waiting | Answering (gone: bool) (custom: bool) | Returned | Repanicked

datatype worker = Running | Finished | Panicked

record budget_state =
  bs_expired :: bool
  bs_committed :: bool
  bs_wrote :: bool
  bs_on_expire :: bool
  bs_out :: "reply list"
  bs_middle :: middle
  bs_worker :: worker

definition budget_init :: budget_state where
  "budget_init = \<lparr>bs_expired = False, bs_committed = False, bs_wrote = False, bs_on_expire = False,
     bs_out = [], bs_middle = Selecting, bs_worker = Running\<rparr>"

subsection \<open>The handler's side\<close>

text \<open>\<^verbatim>\<open>writer.begin\<close> and the writes behind it: whether the write goes through, and the state after.\<close>

definition begin_write :: "budget_state \<Rightarrow> budget_state \<times> bool" where
  "begin_write s = (if bs_expired s then (s, False) else (s\<lparr>bs_wrote := True\<rparr>, True))"

definition write_reply :: "reply \<Rightarrow> budget_state \<Rightarrow> budget_state \<times> bool" where
  "write_reply r s = (case begin_write s of
      (s', False) \<Rightarrow> (s', False)
    | (s', True) \<Rightarrow> (s'\<lparr>bs_out := bs_out s' @ [r]\<rparr>, True))"

definition WriteHeader :: "int \<Rightarrow> budget_state \<Rightarrow> budget_state" where
  "WriteHeader code s = fst (write_reply (HandlerStatus code) s)"

definition WriteBytes :: "string \<Rightarrow> budget_state \<Rightarrow> budget_state \<times> nat option" where
  "WriteBytes b s = (case write_reply (HandlerBytes b) s of (s', ok) \<Rightarrow> (s', if ok then Some (length b) else None))"

definition Flush :: "budget_state \<Rightarrow> budget_state" where
  "Flush s = fst (write_reply HandlerFlush s)"

definition Commit :: "budget_state \<Rightarrow> budget_state \<times> bool" where
  "Commit s = (if bs_expired s then (s, False) else (s\<lparr>bs_committed := True\<rparr>, True))"

definition OnExpiry :: "budget_state \<Rightarrow> budget_state" where
  "OnExpiry s = s\<lparr>bs_on_expire := True\<rparr>"

definition Expired :: "budget_state \<Rightarrow> bool" where
  "Expired s = bs_expired s"

subsection \<open>The middleware's side\<close>

text \<open>The locked section after the timer or the context ended first.\<close>

definition budget_over :: "bool \<Rightarrow> budget_state \<Rightarrow> budget_state" where
  "budget_over is_gone s =
     (if bs_wrote s \<or> bs_committed s then s\<lparr>bs_middle := Waiting\<rparr>
      else s\<lparr>bs_expired := True, bs_middle := Answering is_gone (bs_on_expire s)\<rparr>)"

definition budget_answer :: "budget_state \<Rightarrow> budget_state" where
  "budget_answer s = (case bs_middle s of
      Answering g c \<Rightarrow> s\<lparr>bs_middle := Returned,
         bs_out := bs_out s @ (if g then [] else if c then [BudgetCustom] else [BudgetExpired])\<rparr>
    | _ \<Rightarrow> s)"

definition handler_done :: "budget_state \<Rightarrow> budget_state" where
  "handler_done s = s\<lparr>bs_middle := (if bs_worker s = Panicked then Repanicked else Returned)\<rparr>"

inductive budget_step :: "budget_state \<Rightarrow> budget_state \<Rightarrow> bool" where
  header: "bs_worker s = Running \<Longrightarrow> budget_step s (WriteHeader code s)"
| bytes: "bs_worker s = Running \<Longrightarrow> budget_step s (fst (WriteBytes b s))"
| flush: "bs_worker s = Running \<Longrightarrow> budget_step s (Flush s)"
| commit: "bs_worker s = Running \<Longrightarrow> budget_step s (fst (Commit s))"
| on_expiry: "bs_worker s = Running \<Longrightarrow> budget_step s (OnExpiry s)"
| finish: "bs_worker s = Running \<Longrightarrow> w \<noteq> Running \<Longrightarrow> budget_step s (s\<lparr>bs_worker := w\<rparr>)"
| returned: "bs_middle s = Selecting \<or> bs_middle s = Waiting \<Longrightarrow> bs_worker s \<noteq> Running \<Longrightarrow> budget_step s (handler_done s)"
| over: "bs_middle s = Selecting \<Longrightarrow> budget_step s (budget_over g s)"
| answer: "bs_middle s = Answering g c \<Longrightarrow> budget_step s (budget_answer s)"

inductive_cases budget_stepE: "budget_step s s'"

inductive budget_reach :: "budget_state \<Rightarrow> bool" where
  start: "budget_reach budget_init"
| step: "budget_reach s \<Longrightarrow> budget_step s s' \<Longrightarrow> budget_reach s'"

subsection \<open>The invariant\<close>

fun from_handler :: "reply \<Rightarrow> bool" where
  "from_handler BudgetExpired = False"
| "from_handler BudgetCustom = False"
| "from_handler _ = True"

fun budget_inv :: "budget_state \<Rightarrow> bool" where
  "budget_inv s \<longleftrightarrow>
     (if bs_expired s
      then \<not> bs_wrote s \<and> \<not> bs_committed s \<and>
        (case bs_middle s of Answering g c \<Rightarrow> bs_out s = []
         | Returned \<Rightarrow> bs_out s = [] \<or> bs_out s = [BudgetCustom] \<or> bs_out s = [BudgetExpired] | _ \<Rightarrow> False)
      else list_all from_handler (bs_out s) \<and> (bs_wrote s \<longleftrightarrow> bs_out s \<noteq> []) \<and>
        (case bs_middle s of Answering g c \<Rightarrow> False | _ \<Rightarrow> True))"

lemmas budget_defs = WriteHeader_def WriteBytes_def Flush_def write_reply_def begin_write_def Commit_def OnExpiry_def
  handler_done_def budget_over_def budget_answer_def

lemma budget_step_inv:
  assumes "budget_step s s'" "budget_inv s"
  shows "budget_inv s'"
  using assms(1)
proof (cases rule: budget_step.cases)
  case (returned)
  then show ?thesis using assms(2) by (auto simp: budget_defs split: if_splits)
next
  case (over g)
  then show ?thesis using assms(2) by (auto simp: budget_defs split: if_splits)
next
  case (answer g c)
  then show ?thesis using assms(2) by (auto simp: budget_defs split: if_splits)
qed (use assms(2) in \<open>auto simp: budget_defs split: if_splits middle.splits\<close>)

lemma budget_reach_inv: "budget_reach s \<Longrightarrow> budget_inv s"
proof (induction rule: budget_reach.induct)
  case (step s s')
  then show ?case using budget_step_inv by blast
qed (simp add: budget_init_def)

subsection \<open>Properties\<close>

text \<open>
  C33. Whatever the interleaving, what the client gets is either only what the handler wrote or
  one single answer of the budget; and once a commit was granted, only what the handler
  writes.
\<close>

theorem one_answer_per_request:
  assumes "budget_reach s"
  shows "(list_all from_handler (bs_out s) \<or> bs_out s = [BudgetExpired] \<or> bs_out s = [BudgetCustom]) \<and>
     (bs_committed s \<longrightarrow> \<not> Expired s \<and> list_all from_handler (bs_out s))"
  using budget_reach_inv [OF assms] by (auto simp: Expired_def split: if_splits middle.splits)

definition ex_expired :: budget_state where
  "ex_expired = budget_answer (budget_over False budget_init)"

lemma ex_expired_reach: "budget_reach ex_expired"
proof -
  have "budget_step budget_init (budget_over False budget_init)" by (rule budget_step.over) (simp add: budget_init_def)
  moreover have "budget_step (budget_over False budget_init) ex_expired"
    unfolding ex_expired_def by (rule budget_step.answer [of _ False False]) (simp add: budget_init_def budget_over_def)
  ultimately show ?thesis using budget_reach.intros by blast
qed

theorem one_answer_per_request_witness:
  "budget_reach (WriteHeader 200 ex_expired) \<and> bs_out (WriteHeader 200 ex_expired) = [BudgetExpired]"
proof -
  have r: "budget_reach (WriteHeader 200 ex_expired)"
    by (rule budget_reach.step [OF ex_expired_reach], rule budget_step.header) code_simp
  have "\<not> list_all from_handler (bs_out (WriteHeader 200 ex_expired))" "bs_out (WriteHeader 200 ex_expired) \<noteq> [BudgetCustom]"
    by code_simp+
  then show ?thesis using one_answer_per_request [OF r] r by blast
qed

text \<open>
  When the budget ends before the handler has written or committed anything, the middleware
  answers on its own, whatever the handler still does: two of its steps lead to a state with
  exactly one answer, and no later step of anyone changes it.
\<close>

theorem budget_end_is_answered:
  assumes "budget_reach s" "bs_middle s = Selecting" "\<not> bs_wrote s" "\<not> bs_committed s"
  shows "budget_step s (budget_over False s) \<and> budget_step (budget_over False s) (budget_answer (budget_over False s)) \<and>
     bs_out (budget_answer (budget_over False s)) = [if bs_on_expire s then BudgetCustom else BudgetExpired] \<and>
     (\<forall>t. budget_step\<^sup>*\<^sup>* (budget_answer (budget_over False s)) t \<longrightarrow> bs_out t = bs_out (budget_answer (budget_over False s)))"
proof -
  let ?t = "budget_answer (budget_over False s)"
  have inv: "budget_inv s" by (rule budget_reach_inv [OF assms(1)])
  have t: "bs_expired ?t" "bs_middle ?t = Returned" "bs_out ?t = [if bs_on_expire s then BudgetCustom else BudgetExpired]"
    using assms inv by (auto simp: budget_defs split: if_splits)
  have keep: "bs_expired u' \<and> bs_middle u' = Returned \<and> bs_out u' = bs_out u"
    if "budget_step u u'" "bs_expired u" "bs_middle u = Returned" for u u'
    using that by (cases rule: budget_step.cases) (auto simp: budget_defs)
  have "bs_expired v \<and> bs_middle v = Returned \<and> bs_out v = bs_out ?t" if "budget_step\<^sup>*\<^sup>* ?t v" for v
    using that by (induction rule: rtranclp_induct) (use t keep in auto)
  moreover have "budget_step s (budget_over False s)" by (rule budget_step.over) (rule assms(2))
  moreover have "budget_step (budget_over False s) ?t"
    by (rule budget_step.answer [of _ False "bs_on_expire s"]) (use assms(3,4) in \<open>simp add: budget_over_def\<close>)
  ultimately show ?thesis using t by blast
qed

theorem budget_end_is_answered_witness:
  "bs_out (budget_answer (budget_over False (OnExpiry budget_init))) = [BudgetCustom]"
proof -
  have r: "budget_reach (OnExpiry budget_init)"
    by (rule budget_reach.step [OF budget_reach.start], rule budget_step.on_expiry) (simp add: budget_init_def)
  show ?thesis
    using budget_end_is_answered [OF r] by (simp add: OnExpiry_def budget_init_def)
qed

end
