(* ===== verification/Lifecycle.thy ===== *)
theory Lifecycle
  imports Prelude
begin

section \<open>Lifecycle: tracked work and the shutdown sequence\<close>

text \<open>
  \<^verbatim>\<open>backend/internal/lifecycle/lifecycle.go\<close>. Work that can outlive its request is a unit of a group;
  the group's idle channel is closed while no unit runs, and the shutdown waits on it. Channels
  are numbers: \<open>g_idle\<close> is the channel the field holds, \<open>g_closed\<close> the closed ones, and closing a
  closed channel, which panics in Go, sets \<open>g_panic\<close>. Every locked section is one step of
  \<open>life_step\<close>, interleaved with requests, background work and the clock.
\<close>

record Unit =
  un_kind :: string
  un_id :: string
  un_detail :: "string option"

text \<open>\<^verbatim>\<open>Unit.String\<close>, and the line logged for an abandoned unit; \<open>un_detail\<close> is what \<^verbatim>\<open>Detail\<close> returns.\<close>

definition unit_text :: "Unit \<Rightarrow> string" where
  "unit_text u = un_kind u @ (if un_id u \<noteq> '''' then '' '' @ un_id u else '''')"

definition abandoned_line :: "Unit \<Rightarrow> string" where
  "abandoned_line u = ''shutdown: abandoned '' @ unit_text u @
     (case un_detail u of Some d \<Rightarrow> (if d \<noteq> '''' then '' ('' @ d @ '')'' else '''') | None \<Rightarrow> '''')"

record Group =
  g_next :: nat
  g_units :: "(nat \<times> Unit) list"
  g_idle :: nat
  g_chans :: nat
  g_closed :: "nat list"
  g_panic :: bool
  g_fired :: "nat list"
  g_cancelled :: bool
  g_shutting :: bool
  g_deadline :: "int option"

definition NewGroup :: Group where
  "NewGroup = \<lparr>g_next = 0, g_units = [], g_idle = 0, g_chans = 1, g_closed = [0], g_panic = False, g_fired = [],
     g_cancelled = False, g_shutting = False, g_deadline = None\<rparr>"

definition close_idle :: "Group \<Rightarrow> Group" where
  "close_idle g = (if g_idle g \<in> set (g_closed g) then g\<lparr>g_panic := True\<rparr> else g\<lparr>g_closed := g_idle g # g_closed g\<rparr>)"

definition Track :: "Unit \<Rightarrow> Group \<Rightarrow> Group" where
  "Track u g = (let g1 = (if g_units g = [] then g\<lparr>g_idle := g_chans g, g_chans := g_chans g + 1\<rparr> else g)
     in g1\<lparr>g_next := g_next g + 1, g_units := g_units g @ [(g_next g, u)]\<rparr>)"

text \<open>The function \<^verbatim>\<open>Track\<close> returns for the unit \<open>i\<close>; its \<^verbatim>\<open>sync.Once\<close> is \<open>g_fired\<close>.\<close>

definition done_unit :: "nat \<Rightarrow> Group \<Rightarrow> Group" where
  "done_unit i g =
     (if i \<in> set (g_fired g) then g
      else let g1 = g\<lparr>g_fired := i # g_fired g, g_units := filter (\<lambda>p. fst p \<noteq> i) (g_units g)\<rparr>
           in if g_units g1 = [] then close_idle g1 else g1)"

definition Pending :: "Group \<Rightarrow> Unit list" where
  "Pending g = map snd (sort_key fst (g_units g))"

definition BeginShutdown :: "Group \<Rightarrow> Group" where
  "BeginShutdown g = g\<lparr>g_shutting := True\<rparr>"

definition DrainDeadline :: "Group \<Rightarrow> int option" where
  "DrainDeadline g = g_deadline g"

subsection \<open>Waiting and shutting down\<close>

text \<open>
  The loop of \<^verbatim>\<open>Wait\<close>: it reads the idle channel, blocks on it, is woken when that channel is
  closed, and looks whether a unit has been tracked since; \<open>over\<close> tells that the wait's context
  is done.
\<close>

datatype wait = WaitLook | WaitOn nat | WaitCheck | WaitEnd bool

inductive wait_step :: "bool \<Rightarrow> Group \<Rightarrow> wait \<Rightarrow> wait \<Rightarrow> bool" for over :: bool and g :: Group where
  look: "wait_step over g WaitLook (WaitOn (g_idle g))"
| woken: "c \<in> set (g_closed g) \<Longrightarrow> wait_step over g (WaitOn c) WaitCheck"
| timeout: "over \<Longrightarrow> wait_step over g (WaitOn c) (WaitEnd False)"
| check: "wait_step over g WaitCheck (if g_units g = [] then WaitEnd True else WaitLook)"

inductive_cases wait_stepE: "wait_step over g w w'"

datatype phase = Serving | Noticing | Draining wait | AwaitServer bool | Cancelling wait | Ended bool

record system =
  sy_group :: Group
  sy_phase :: phase
  sy_conns :: nat
  sy_listening :: bool
  sy_scheduling :: bool
  sy_drain_over :: bool
  sy_grace_over :: bool
  sy_server :: "bool option"
  sy_log :: "string list"

definition sys_start :: system where
  "sys_start = \<lparr>sy_group = NewGroup, sy_phase = Serving, sy_conns = 0, sy_listening = True, sy_scheduling = True,
     sy_drain_over = False, sy_grace_over = False, sy_server = None, sy_log = []\<rparr>"

text \<open>
  The steps of \<^verbatim>\<open>Shutdown\<close>. The notice ends with the drain's deadline set; the drain waits for
  the units and then for the server; when either is left over, the units are cancelled, the
  grace is waited and each unit still running is logged.
\<close>

definition shutdown_begins :: "system \<Rightarrow> system" where
  "shutdown_begins s = s\<lparr>sy_group := BeginShutdown (sy_group s), sy_scheduling := False, sy_phase := Noticing\<rparr>"

definition drain_begins :: "int \<Rightarrow> system \<Rightarrow> system" where
  "drain_begins t s = s\<lparr>sy_group := (sy_group s)\<lparr>g_deadline := Some t\<rparr>, sy_phase := Draining WaitLook\<rparr>"

definition drain_ends :: "bool \<Rightarrow> bool \<Rightarrow> system \<Rightarrow> system" where
  "drain_ends units_idle server_ok s =
     (if units_idle \<and> server_ok then s\<lparr>sy_phase := Ended True, sy_log := sy_log s @ [''shutdown: drained cleanly'']\<rparr>
      else s\<lparr>sy_group := (sy_group s)\<lparr>g_cancelled := True\<rparr>, sy_phase := Cancelling WaitLook\<rparr>)"

definition grace_ends :: "system \<Rightarrow> system" where
  "grace_ends s = s\<lparr>sy_phase := Ended False, sy_log := sy_log s @ map abandoned_line (Pending (sy_group s))\<rparr>"

text \<open>
  Around it: the server accepts connections while it listens and stops listening once the
  drain has begun; its \<^verbatim>\<open>Shutdown\<close> returns without error when no connection is left, else with
  the deadline's error. A request, a running unit or a scheduler may track a unit; a unit ends.
\<close>

inductive life_step :: "system \<Rightarrow> system \<Rightarrow> bool" where
  accept: "sy_listening s \<Longrightarrow> life_step s (s\<lparr>sy_conns := sy_conns s + 1\<rparr>)"
| hangup: "0 < sy_conns s \<Longrightarrow> life_step s (s\<lparr>sy_conns := sy_conns s - 1\<rparr>)"
| track: "0 < sy_conns s \<or> g_units (sy_group s) \<noteq> [] \<or> sy_scheduling s \<Longrightarrow>
    life_step s (s\<lparr>sy_group := Track u (sy_group s)\<rparr>)"
| finish: "i < g_next (sy_group s) \<Longrightarrow> life_step s (s\<lparr>sy_group := done_unit i (sy_group s)\<rparr>)"
| begins: "sy_phase s = Serving \<Longrightarrow> life_step s (shutdown_begins s)"
| drain: "sy_phase s = Noticing \<Longrightarrow> life_step s (drain_begins t s)"
| unlisten: "sy_phase s \<noteq> Serving \<Longrightarrow> sy_phase s \<noteq> Noticing \<Longrightarrow> life_step s (s\<lparr>sy_listening := False\<rparr>)"
| server_idle: "\<not> sy_listening s \<Longrightarrow> sy_conns s = 0 \<Longrightarrow> sy_server s = None \<Longrightarrow> life_step s (s\<lparr>sy_server := Some True\<rparr>)"
| server_late: "\<not> sy_listening s \<Longrightarrow> sy_drain_over s \<Longrightarrow> sy_server s = None \<Longrightarrow> life_step s (s\<lparr>sy_server := Some False\<rparr>)"
| drain_over: "sy_phase s = Draining w \<Longrightarrow> life_step s (s\<lparr>sy_drain_over := True\<rparr>)"
| waiting: "sy_phase s = Draining w \<Longrightarrow> wait_step (sy_drain_over s) (sy_group s) w w' \<Longrightarrow>
    life_step s (s\<lparr>sy_phase := Draining w'\<rparr>)"
| waited: "sy_phase s = Draining (WaitEnd b) \<Longrightarrow> life_step s (s\<lparr>sy_phase := AwaitServer b\<rparr>)"
| drained: "sy_phase s = AwaitServer b \<Longrightarrow> sy_server s = Some e \<Longrightarrow> life_step s (drain_ends b e s)"
| grace_over: "sy_phase s = Cancelling w \<Longrightarrow> life_step s (s\<lparr>sy_grace_over := True\<rparr>)"
| grace: "sy_phase s = Cancelling w \<Longrightarrow> wait_step (sy_grace_over s) (sy_group s) w w' \<Longrightarrow>
    life_step s (s\<lparr>sy_phase := Cancelling w'\<rparr>)"
| reported: "sy_phase s = Cancelling (WaitEnd b) \<Longrightarrow> life_step s (grace_ends s)"

inductive_cases life_stepE: "life_step s s'"

inductive life_reach :: "system \<Rightarrow> bool" where
  start: "life_reach sys_start"
| step: "life_reach s \<Longrightarrow> life_step s s' \<Longrightarrow> life_reach s'"

subsection \<open>The group's invariant\<close>

text \<open>
  The idle channel is closed exactly while no unit runs; every other channel made so far is
  closed; ids are fresh, and a unit is tracked exactly when its function has not run.
\<close>

definition group_inv :: "Group \<Rightarrow> bool" where
  "group_inv g \<longleftrightarrow> \<not> g_panic g \<and> g_idle g < g_chans g \<and> list_all (\<lambda>c. c < g_chans g) (g_closed g) \<and>
     (\<forall>c < g_chans g. c \<in> set (g_closed g) \<or> c = g_idle g) \<and>
     (g_idle g \<in> set (g_closed g) \<longleftrightarrow> g_units g = []) \<and>
     sorted_wrt (<) (map fst (g_units g)) \<and> list_all (\<lambda>i. i < g_next g) (map fst (g_units g)) \<and>
     (\<forall>i < g_next g. i \<in> set (map fst (g_units g)) \<longleftrightarrow> i \<notin> set (g_fired g)) \<and> list_all (\<lambda>i. i < g_next g) (g_fired g)"

lemma NewGroup_inv: "group_inv NewGroup"
  by (simp add: group_inv_def NewGroup_def)

lemma Track_inv:
  assumes "group_inv g"
  shows "group_inv (Track u g)"
proof -
  have "g_next g \<notin> set (g_fired g)" using assms by (auto simp: group_inv_def list_all_iff)
  then show ?thesis
    using assms by (auto simp: group_inv_def Track_def Let_def list_all_iff sorted_wrt_append less_Suc_eq image_iff)
qed

lemma done_unit_inv:
  assumes "group_inv g" "i < g_next g"
  shows "group_inv (done_unit i g)"
proof (cases "i \<in> set (g_fired g)")
  case False
  then have "i \<in> set (map fst (g_units g))" using assms by (simp add: group_inv_def)
  then have "g_units g \<noteq> []" by auto
  moreover have "sorted_wrt (<) (map fst (filter (\<lambda>p. fst p \<noteq> i) (g_units g)))"
    using assms(1) by (simp add: group_inv_def sorted_wrt_map sorted_wrt_filter)
  ultimately show ?thesis
    using False assms by (auto simp: group_inv_def done_unit_def close_idle_def Let_def list_all_iff filter_empty_conv)
qed (use assms in \<open>simp add: done_unit_def\<close>)

lemma group_inv_fields [simp]:
  "group_inv (g\<lparr>g_shutting := b\<rparr>) = group_inv g" "group_inv (g\<lparr>g_cancelled := b\<rparr>) = group_inv g"
  "group_inv (g\<lparr>g_deadline := d\<rparr>) = group_inv g"
  by (simp_all add: group_inv_def)

text \<open>What a waiter holds: a channel made earlier, and the end \<open>True\<close> only after it saw no unit.\<close>

fun wait_ok :: "Group \<Rightarrow> wait \<Rightarrow> bool" where
  "wait_ok g (WaitOn c) \<longleftrightarrow> c < g_chans g"
| "wait_ok g _ \<longleftrightarrow> True"

fun phase_ok :: "Group \<Rightarrow> phase \<Rightarrow> bool" where
  "phase_ok g (Draining w) \<longleftrightarrow> wait_ok g w"
| "phase_ok g (Cancelling w) \<longleftrightarrow> wait_ok g w"
| "phase_ok g _ \<longleftrightarrow> True"

lemma g_chans_mono: "g_chans g \<le> g_chans (Track u g)" "g_chans (done_unit i g) = g_chans g"
  by (simp_all add: Track_def done_unit_def close_idle_def Let_def)

lemma wait_ok_mono: "wait_ok g w \<Longrightarrow> g_chans g \<le> g_chans g' \<Longrightarrow> wait_ok g' w"
  by (cases w) auto

lemma phase_ok_mono: "phase_ok g p \<Longrightarrow> g_chans g \<le> g_chans g' \<Longrightarrow> phase_ok g' p"
  by (cases p) (auto intro: wait_ok_mono)

lemma wait_step_ok: "wait_step over g w w' \<Longrightarrow> group_inv g \<Longrightarrow> wait_ok g w'"
  by (erule wait_stepE) (auto simp: group_inv_def)

lemma life_step_inv:
  assumes "life_step s s'" "group_inv (sy_group s)" "phase_ok (sy_group s) (sy_phase s)"
  shows "group_inv (sy_group s') \<and> phase_ok (sy_group s') (sy_phase s')"
  using assms(1)
proof (cases rule: life_step.cases)
  case (track u)
  then show ?thesis using assms by (auto intro: Track_inv phase_ok_mono g_chans_mono)
next
  case (finish i)
  then show ?thesis using assms by (auto intro: done_unit_inv phase_ok_mono simp: g_chans_mono)
qed (use assms in \<open>auto simp: shutdown_begins_def BeginShutdown_def drain_begins_def drain_ends_def grace_ends_def
       intro: wait_step_ok phase_ok_mono\<close>)

lemma life_reach_inv: "life_reach s \<Longrightarrow> group_inv (sy_group s) \<and> phase_ok (sy_group s) (sy_phase s)"
proof (induction rule: life_reach.induct)
  case start
  then show ?case by (simp add: sys_start_def NewGroup_inv)
next
  case (step s s')
  then show ?case using life_step_inv by blast
qed

lemma closed_when_idle: "group_inv g \<Longrightarrow> g_units g = [] \<Longrightarrow> c < g_chans g \<Longrightarrow> c \<in> set (g_closed g)"
  by (auto simp: group_inv_def)

subsection \<open>Properties\<close>

text \<open>
  C16. Whatever is tracked and finished, in any interleaving and however often a unit's
  function is called, the idle channel is closed exactly while no unit runs, no channel is
  closed twice (that would panic), and the pending list holds the running units oldest first.
\<close>

theorem idle_channel_tracks_units:
  assumes "life_reach s"
  shows "\<not> g_panic (sy_group s) \<and> (g_idle (sy_group s) \<in> set (g_closed (sy_group s)) \<longleftrightarrow> g_units (sy_group s) = []) \<and>
     Pending (sy_group s) = map snd (g_units (sy_group s)) \<and> sorted_wrt (<) (map fst (g_units (sy_group s)))"
proof -
  have g: "group_inv (sy_group s)" using life_reach_inv [OF assms] by simp
  then have "sorted (map fst (g_units (sy_group s)))"
    by (auto simp: group_inv_def intro: sorted_wrt_mono_rel [of _ "(<)" "(\<le>)"])
  then have "sort_key fst (g_units (sy_group s)) = g_units (sy_group s)" by (rule sort_key_id_if_sorted)
  with g show ?thesis by (simp add: group_inv_def Pending_def)
qed

text \<open>A unit tracked and finished while the process serves.\<close>

definition ex_unit :: Unit where
  "ex_unit = \<lparr>un_kind = ''booking-completion'', un_id = ''b1'', un_detail = Some ''0 of 1 hosts''\<rparr>"

theorem idle_channel_tracks_units_witness:
  "g_idle (done_unit 0 (done_unit 0 (Track ex_unit NewGroup))) \<in> set (g_closed (done_unit 0 (done_unit 0 (Track ex_unit NewGroup)))) \<and>
   \<not> g_panic (done_unit 0 (done_unit 0 (Track ex_unit NewGroup)))"
proof -
  let ?s1 = "sys_start\<lparr>sy_group := Track ex_unit (sy_group sys_start)\<rparr>"
  let ?s2 = "?s1\<lparr>sy_group := done_unit 0 (sy_group ?s1)\<rparr>"
  let ?s3 = "?s2\<lparr>sy_group := done_unit 0 (sy_group ?s2)\<rparr>"
  have "life_step sys_start ?s1" by (rule life_step.track) (simp add: sys_start_def)
  moreover have "life_step ?s1 ?s2" by (rule life_step.finish) (simp add: sys_start_def NewGroup_def Track_def)
  moreover have "life_step ?s2 ?s3"
    by (rule life_step.finish) (simp add: sys_start_def NewGroup_def Track_def done_unit_def close_idle_def)
  ultimately have "life_reach ?s3" by (meson life_reach.intros)
  from idle_channel_tracks_units [OF this]
  have "(g_idle (sy_group ?s3) \<in> set (g_closed (sy_group ?s3)) \<longleftrightarrow> g_units (sy_group ?s3) = []) \<and> \<not> g_panic (sy_group ?s3)"
    by blast
  moreover have "sy_group ?s3 = done_unit 0 (done_unit 0 (Track ex_unit NewGroup))" by (simp add: sys_start_def)
  moreover have "g_units (done_unit 0 (done_unit 0 (Track ex_unit NewGroup))) = []" by code_simp
  ultimately show ?thesis by simp
qed

text \<open>
  No wake-up is lost: in every reachable state without a running unit, the shutdown's waiter,
  wherever it is in its loop, comes to the end that reports an idle group by its own steps,
  unless its time was already up.
\<close>

theorem waiter_is_woken:
  assumes "life_reach s" "g_units (sy_group s) = []"
    and "sy_phase s = Draining w \<or> sy_phase s = Cancelling w" "w \<noteq> WaitEnd False"
  shows "(wait_step over (sy_group s))\<^sup>*\<^sup>* w (WaitEnd True)"
proof -
  let ?R = "wait_step over (sy_group s)"
  have inv: "group_inv (sy_group s)" "wait_ok (sy_group s) w"
    using life_reach_inv [OF assms(1)] assms(3) by auto
  have check: "?R\<^sup>*\<^sup>* WaitCheck (WaitEnd True)"
    using wait_step.check [of over "sy_group s"] assms(2) by (simp add: r_into_rtranclp)
  have on: "?R\<^sup>*\<^sup>* (WaitOn c) (WaitEnd True)" if "c < g_chans (sy_group s)" for c
    using wait_step.woken [OF closed_when_idle [OF inv(1) assms(2) that]] check by (rule converse_rtranclp_into_rtranclp)
  have "g_idle (sy_group s) < g_chans (sy_group s)" using inv(1) by (simp add: group_inv_def)
  then have look: "?R\<^sup>*\<^sup>* WaitLook (WaitEnd True)"
    using wait_step.look on by (meson converse_rtranclp_into_rtranclp)
  show ?thesis
  proof (cases w)
    case (WaitEnd b)
    then show ?thesis using assms(4) by (cases b) auto
  qed (use look on check inv(2) in auto)
qed

text \<open>The drain of a process that is serving one connection, up to the waiter's end.\<close>

definition ex_drained :: system where
  "ex_drained = \<lparr>sy_group = NewGroup\<lparr>g_shutting := True, g_deadline := Some 30\<rparr>, sy_phase = AwaitServer True, sy_conns = 1,
     sy_listening = False, sy_scheduling = False, sy_drain_over = False, sy_grace_over = False, sy_server = None, sy_log = []\<rparr>"

definition ex_draining :: "wait \<Rightarrow> system" where
  "ex_draining w = ex_drained\<lparr>sy_phase := Draining w\<rparr>"

lemma ex_draining_reach: "life_reach (ex_draining WaitLook)"
proof -
  let ?s1 = "sys_start\<lparr>sy_conns := 1\<rparr>"
  let ?s2 = "shutdown_begins ?s1" and ?s3 = "drain_begins 30 (shutdown_begins ?s1)"
  have "life_step sys_start ?s1" using life_step.accept [of sys_start] by (simp add: sys_start_def)
  moreover have "life_step ?s1 ?s2" by (rule life_step.begins) (simp add: sys_start_def)
  moreover have "life_step ?s2 ?s3" by (rule life_step.drain) (simp add: shutdown_begins_def)
  moreover have "life_step ?s3 (?s3\<lparr>sy_listening := False\<rparr>)" by (rule life_step.unlisten) (simp_all add: drain_begins_def)
  ultimately have "life_reach (?s3\<lparr>sy_listening := False\<rparr>)" by (meson life_reach.intros)
  moreover have "?s3\<lparr>sy_listening := False\<rparr> = ex_draining WaitLook"
    by (simp add: ex_draining_def ex_drained_def drain_begins_def shutdown_begins_def BeginShutdown_def sys_start_def)
  ultimately show ?thesis by simp
qed

lemma ex_drained_reach: "life_reach ex_drained"
proof -
  let ?g = "sy_group ex_drained"
  have w: "wait_step False ?g WaitLook (WaitOn 0)" "wait_step False ?g (WaitOn 0) WaitCheck" "wait_step False ?g WaitCheck (WaitEnd True)"
    using wait_step.look [of False ?g] wait_step.woken [of 0 ?g False] wait_step.check [of False ?g]
    by (simp_all add: ex_drained_def NewGroup_def)
  have step: "life_reach (ex_draining v)" if "life_reach (ex_draining u)" "wait_step False ?g u v" for u v
    using life_reach.step [OF that(1) life_step.waiting [of "ex_draining u" u v]] that(2)
    by (simp add: ex_draining_def) (simp add: ex_drained_def)
  have "life_reach (ex_draining (WaitEnd True))" using ex_draining_reach w step by meson
  from life_reach.step [OF this life_step.waited [of _ True]] show ?thesis by (simp add: ex_draining_def ex_drained_def)
qed

theorem waiter_is_woken_witness:
  "(wait_step False (sy_group (ex_draining WaitLook)))\<^sup>*\<^sup>* WaitLook (WaitEnd True)"
  by (rule waiter_is_woken [OF ex_draining_reach]) (simp_all add: ex_draining_def ex_drained_def NewGroup_def)

text \<open>
  A clean exit does not mean that everything finished: the units are awaited before the
  server, so a connection that has not reached its handler when the group is found idle can
  still start a unit, and the server's own shutdown then ends without error while that unit
  runs. It is neither awaited nor logged as abandoned.
\<close>

theorem clean_exit_can_leave_work:
  "\<exists>s. life_reach s \<and> sy_phase s = Ended True \<and> Pending (sy_group s) = [ex_unit] \<and> sy_log s = [''shutdown: drained cleanly'']"
proof -
  let ?s1 = "ex_drained\<lparr>sy_group := Track ex_unit (sy_group ex_drained)\<rparr>"
  let ?s2 = "?s1\<lparr>sy_conns := 0\<rparr>"
  let ?s3 = "?s2\<lparr>sy_server := Some True\<rparr>"
  let ?s4 = "drain_ends True True ?s3"
  have "life_step ex_drained ?s1" by (rule life_step.track) (simp add: ex_drained_def)
  moreover have "life_step ?s1 ?s2" using life_step.hangup [of ?s1] by (simp add: ex_drained_def)
  moreover have "life_step ?s2 ?s3" by (rule life_step.server_idle) (simp_all add: ex_drained_def)
  moreover have "life_step ?s3 ?s4" by (rule life_step.drained) (simp_all add: ex_drained_def)
  ultimately have "life_reach ?s4" using ex_drained_reach by (meson life_reach.step)
  moreover have "sy_phase ?s4 = Ended True" "sy_log ?s4 = [''shutdown: drained cleanly'']" "Pending (sy_group ?s4) = [ex_unit]"
    by (simp_all add: drain_ends_def ex_drained_def Pending_def Track_def NewGroup_def)
  ultimately show ?thesis by blast
qed

end
