(* ===== verification/Stepping.thy ===== *)
theory Stepping
  imports Intervals
begin

section \<open>Stepping: the loops that try a start every few minutes\<close>

text \<open>
  The loop \<^verbatim>\<open>for !t.Add(dur).After(end) { ...; t = t.Add(step) }\<close> of the suggestion engines
  (\<^verbatim>\<open>backend/engine/smart_schedule.go\<close>, \<^verbatim>\<open>team_availability.go\<close>), as the list of the starts it
  visits. Both loops step by a positive constant; the guard makes the recursion total.
\<close>

function starts_until :: "int \<Rightarrow> gotime \<Rightarrow> gotime \<Rightarrow> int \<Rightarrow> gotime list" where
  "starts_until step t e dur =
     (if step \<le> 0 \<or> After (Add t dur) e then [] else t # starts_until step (Add t step) e dur)"
  by pat_completeness auto
termination
  by (relation "measure (\<lambda>(step, t, e, dur). nat (ns e - ns t - dur + 1))") (auto simp: time_cmp_defs)

declare starts_until.simps [simp del]

lemma starts_until_set:
  assumes "0 < step"
  shows "set (starts_until step t e dur) = {Add t (int k * step) |k. ns t + int k * step + dur \<le> ns e}"
  using assms
proof (induction step t e dur rule: starts_until.induct)
  case (1 step t e dur)
  show ?case
  proof (cases "After (Add t dur) e")
    case True
    have "\<not> ns t + int k * step + dur \<le> ns e" for k
      using True 1(2) by (simp add: time_cmp_defs) (smt (verit) mult_nonneg_nonneg of_nat_0_le_iff)
    then show ?thesis using True by (subst starts_until.simps) simp
  next
    case False
    have ih: "set (starts_until step (Add t step) e dur) =
        {Add (Add t step) (int k * step) |k. ns (Add t step) + int k * step + dur \<le> ns e}"
      using 1 False by simp
    have shift: "Add (Add t step) (int k * step) = Add t (int (Suc k) * step)" for k
      by (simp add: Add_def algebra_simps)
    have "{Add t (int k * step) |k. ns t + int k * step + dur \<le> ns e} =
       insert t {Add (Add t step) (int k * step) |k. ns (Add t step) + int k * step + dur \<le> ns e}" (is "?L = insert t ?R")
    proof (intro equalityI subsetI)
      fix x
      assume "x \<in> ?L"
      then obtain k where k: "x = Add t (int k * step)" "ns t + int k * step + dur \<le> ns e" by blast
      show "x \<in> insert t ?R"
      proof (cases k)
        case 0
        then show ?thesis using k by (simp add: Add_def)
      next
        case (Suc j)
        have "x = Add (Add t step) (int j * step)" "ns (Add t step) + int j * step + dur \<le> ns e"
          using k Suc by (simp_all add: Add_def algebra_simps)
        then show ?thesis by blast
      qed
    next
      fix x
      assume "x \<in> insert t ?R"
      then consider "x = t" | j where "x = Add (Add t step) (int j * step)" "ns (Add t step) + int j * step + dur \<le> ns e" by blast
      then show "x \<in> ?L"
      proof cases
        case 1
        then show ?thesis using False by (auto simp: Add_def time_cmp_defs intro!: exI [of _ 0])
      next
        case (2 j)
        then have "x = Add t (int (Suc j) * step)" "ns t + int (Suc j) * step + dur \<le> ns e"
          using shift by (simp_all add: Add_def algebra_simps)
        then show ?thesis by blast
      qed
    qed
    then show ?thesis using False 1(2) ih by (subst starts_until.simps) simp
  qed
qed

lemma starts_until_fits:
  assumes "0 < step" "x \<in> set (starts_until step t e dur)"
  shows "ns t \<le> ns x" "ns x + dur \<le> ns e" "tloc x = tloc t"
  using assms by (auto simp: starts_until_set Add_def)

text \<open>A slot inside a free interval meets nothing the free interval does not meet.\<close>

lemma inside_free:
  assumes "lo f \<le> lo iv" "hi iv \<le> hi f" "\<not> overlaps f b"
  shows "\<not> overlaps iv b"
  using assms by (auto simp: overlaps_iff)

end
