(* ===== verification/SmartSchedule.thy ===== *)
theory SmartSchedule
  imports FocusTime Stepping
begin

section \<open>SmartSchedule: suggesting and creating meetings\<close>

text \<open>
  \<^verbatim>\<open>backend/engine/smart_schedule.go\<close>. \<^verbatim>\<open>Suggest\<close> walks the free time of all attendees in steps of
  half an hour, drops what lies outside working hours or in the lunch break, scores the rest
  and keeps at most three that start an hour apart; \<^verbatim>\<open>CreateMeeting\<close> creates the event. The
  calendar, the settings read and the audit insert are the environment \<open>smart_env\<close>. A reason is
  a constructor for its text.
\<close>

record ScheduleRequest =
  sq_duration :: int
  sq_attendees :: "string list"
  sq_start :: gotime
  sq_end :: gotime
  sq_title :: string
  sq_description :: string
  sq_location :: string
  sq_preferred :: "string list"
  sq_avoid :: "string list"

datatype reason =
    MorningSlot
  | EarlyAfternoon
  | OverlapsFocus
  | FridayAfternoon
  | EarlierInWeek
  | PreferredTime
  | AvoidTime

record SuggestedSlot =
  sg_start :: gotime
  sg_end :: gotime
  sg_score :: int
  sg_reasons :: "reason list"

text \<open>
  What the calendar and the database answer: \<open>sm_freebusy\<close> gives the busy intervals of the
  emails, in the order the map is walked in.
\<close>

record smart_env =
  sm_settings :: "string + Settings"
  sm_client :: "gerr + string"
  sm_freebusy :: "string list \<Rightarrow> gotime \<Rightarrow> gotime \<Rightarrow> string + interval list"
  sm_list :: "gotime \<Rightarrow> gotime \<Rightarrow> string + event list"
  sm_focus :: "FocusRow list"
  sm_focus_fails :: bool
  sm_create :: "event \<Rightarrow> gerr + string"
  sm_audit_ok :: bool

subsection \<open>The source's functions\<close>

definition eventIsOutsideWork :: "gotime \<Rightarrow> gotime \<Rightarrow> Settings \<Rightarrow> location \<Rightarrow> bool" where
  "eventIsOutsideWork st en s loc =
     (case WorkWindow s (In st loc) of (wsRaw, weRaw, enabled) \<Rightarrow>
        if \<not> enabled then True
        else Before st (parseHHMM wsRaw (In st loc) loc) \<or> After en (parseHHMM weRaw (In st loc) loc))"

definition canScheduleOutOfHours ::
  "(string \<Rightarrow> location option) \<Rightarrow> (gotime \<Rightarrow> gotime \<Rightarrow> string + event list) \<Rightarrow> Settings \<Rightarrow> gotime \<Rightarrow> string + bool" where
  "canScheduleOutOfHours tzdb lst s anchor =
     (if se_out_of_hours s \<le> 0 then Inr False
      else let loc = location_or_utc tzdb (se_timezone s); weekStart = startOfWeek (In anchor loc)
           in case lst weekStart (AddDays weekStart 7) of
                Inl e \<Rightarrow> Inl e
              | Inr events \<Rightarrow>
                  Inr (int (length (filter (\<lambda>ev. case parseEventTime ev of (a, b) \<Rightarrow>
                         \<not> (IsZero a \<or> IsZero b) \<and> eventIsOutsideWork a b s loc) events)) < se_out_of_hours s))"

definition scoreCandidate :: "gotime \<Rightarrow> gotime \<Rightarrow> FocusRow list \<Rightarrow> int \<times> reason list" where
  "scoreCandidate st en blocks =
     (let hour = Hour st; wd = Weekday st;
          a = (if 9 \<le> hour \<and> hour < 12 then (40, [MorningSlot])
               else if 14 \<le> hour \<and> hour < 16 then (20, [EarlyAfternoon]) else (0, []));
          b = (if list_ex (\<lambda>fb. Before st (fb_end fb) \<and> After en (fb_start fb)) blocks then (- 20, [OverlapsFocus]) else (0, []));
          c = (if wd = 5 \<and> 14 \<le> hour then (- 10, [FridayAfternoon]) else (0, []));
          d = (if wd = 1 \<or> wd = 2 \<or> wd = 3 then (10, [EarlierInWeek]) else (0, []))
      in (fst a + fst b + fst c + fst d, snd a @ snd b @ snd c @ snd d))"

text \<open>The digits are read as bytes, so a character below \<^verbatim>\<open>'0'\<close> wraps around.\<close>

definition byte_digit :: "char \<Rightarrow> int" where
  "byte_digit c = (int (char_code c) - 48) mod 256"

definition parseHHMMParts :: "string \<Rightarrow> int \<times> int" where
  "parseHHMMParts raw =
     (let s = TrimSpace raw
      in if length s < 5 \<or> s ! 2 \<noteq> CHR '':'' then (0, 0)
         else (byte_digit (s ! 0) * 10 + byte_digit (s ! 1), byte_digit (s ! 3) * 10 + byte_digit (s ! 4)))"

definition timeInHHMMRange :: "int \<Rightarrow> int \<Rightarrow> string \<Rightarrow> bool" where
  "timeInHHMMRange h m r = (case split_first CHR ''-'' r of
      None \<Rightarrow> False
    | Some (p, q) \<Rightarrow>
        (let (sh, sm) = parseHHMMParts p; (eh, em) = parseHHMMParts q; cur = h * 60 + m
         in sh * 60 + sm \<le> cur \<and> cur < eh * 60 + em))"

definition adjustScoreForPreferences ::
  "int \<times> reason list \<Rightarrow> gotime \<Rightarrow> location \<Rightarrow> string list \<Rightarrow> string list \<Rightarrow> int \<times> reason list" where
  "adjustScoreForPreferences sr t loc preferred avoid =
     (let h = Hour (In t loc); m = Minute (In t loc);
          hit = (\<lambda>d why (score, reasons) r. if timeInHHMMRange h m r then (score + d, reasons @ [why]) else (score, reasons))
      in foldl (hit (- 40) AvoidTime) (foldl (hit 25 PreferredTime) sr preferred) avoid)"

definition better_slot :: "SuggestedSlot \<Rightarrow> SuggestedSlot \<Rightarrow> bool" where
  "better_slot a b \<longleftrightarrow> sg_score a > sg_score b"

definition sortSlotsByScore :: "SuggestedSlot list \<Rightarrow> SuggestedSlot list" where
  "sortSlotsByScore slots = insertion_sort better_slot slots"

definition too_close :: "int \<Rightarrow> SuggestedSlot \<Rightarrow> SuggestedSlot \<Rightarrow> bool" where
  "too_close gap s p \<longleftrightarrow> \<bar>Sub (sg_start s) (sg_start p)\<bar> < gap"

definition pick_step :: "nat \<Rightarrow> int \<Rightarrow> SuggestedSlot list \<Rightarrow> SuggestedSlot \<Rightarrow> SuggestedSlot list" where
  "pick_step n gap res s = (if length res \<ge> n \<or> list_ex (too_close gap s) res then res else res @ [s])"

definition pickTopUnique :: "SuggestedSlot list \<Rightarrow> nat \<Rightarrow> int \<Rightarrow> SuggestedSlot list" where
  "pickTopUnique slots n gap = foldl (pick_step n gap) [] slots"

text \<open>One round of the loop: the start is skipped, or it becomes a scored candidate.\<close>

definition candidate_at ::
  "Settings \<Rightarrow> ScheduleRequest \<Rightarrow> location \<Rightarrow> FocusRow list \<Rightarrow> bool \<Rightarrow> gotime \<Rightarrow> SuggestedSlot option" where
  "candidate_at s req loc blocks allowOut t =
     (let en = Add t (sq_duration req * minute_ns);
          (wsRaw, weRaw, workEnabled) = WorkWindow s (In t loc);
          outside = (\<not> workEnabled \<or> Before t (parseHHMM wsRaw t loc) \<or> After en (parseHHMM weRaw t loc));
          (lsRaw, leRaw, lunchEnabled) = LunchWindow s (In t loc)
      in if outside \<and> \<not> allowOut then None
         else if lunchEnabled \<and> Before t (parseHHMM leRaw t loc) \<and> After en (parseHHMM lsRaw t loc) then None
         else let (score, reasons) = adjustScoreForPreferences (scoreCandidate t en blocks) t loc (sq_preferred req) (sq_avoid req)
              in Some \<lparr>sg_start = t, sg_end = en, sg_score = score, sg_reasons = reasons\<rparr>)"

definition free_starts :: "ScheduleRequest \<Rightarrow> interval \<Rightarrow> gotime list" where
  "free_starts req f =
     starts_until (30 * minute_ns) (if Before (istart f) (sq_start req) then sq_start req else istart f) (iend f)
       (sq_duration req * minute_ns)"

definition suggest_candidates ::
  "Settings \<Rightarrow> ScheduleRequest \<Rightarrow> location \<Rightarrow> FocusRow list \<Rightarrow> bool \<Rightarrow> interval list \<Rightarrow> SuggestedSlot list" where
  "suggest_candidates s req loc blocks allowOut free =
     concat (map (\<lambda>f. List.map_filter (candidate_at s req loc blocks allowOut) (free_starts req f)) free)"

definition Suggest :: "(string \<Rightarrow> location option) \<Rightarrow> smart_env \<Rightarrow> uuid \<Rightarrow> ScheduleRequest \<Rightarrow> SuggestedSlot list result" where
  "Suggest tzdb env u req = (case sm_settings env of
      Inl e \<Rightarrow> Inl (OtherError (''load settings: '' @ e))
    | Inr s \<Rightarrow> (case sm_client env of
        Inl e \<Rightarrow> Inl e
      | Inr own \<Rightarrow> (case sm_freebusy env (own # sq_attendees req) (sq_start req) (sq_end req) of
          Inl e \<Rightarrow> Inl (OtherError (''freebusy: '' @ e))
        | Inr busy \<Rightarrow>
            let free = subtractIntervals (ivl (sq_start req) (sq_end req)) (mergeIntervals busy);
                loc = location_or_utc tzdb (se_timezone s);
                blocks = (if sm_focus_fails env then [] else ListFocusBlocksForUserWeek (sm_focus env) u (sq_start req))
            in (case canScheduleOutOfHours tzdb (sm_list env) s (sq_start req) of
                  Inl e \<Rightarrow> Inl (OtherError (''count out-of-hours meetings: '' @ e))
                | Inr allowOut \<Rightarrow>
                    Inr (pickTopUnique (sortSlotsByScore (suggest_candidates s req loc blocks allowOut free)) 3 hour_ns)))))"

definition meeting_event :: "ScheduleRequest \<Rightarrow> SuggestedSlot \<Rightarrow> event" where
  "meeting_event req slot = empty_event\<lparr>ev_summary := sq_title req, ev_description := sq_description req,
     ev_location := sq_location req, ev_start := at_time (sg_start slot), ev_end := at_time (sg_end slot),
     ev_attendees := map email_attendee (sq_attendees req)\<rparr>"

text \<open>The result is the activity log after the call and the created event's id.\<close>

definition CreateMeeting ::
  "(string \<Rightarrow> location option) \<Rightarrow> smart_env \<Rightarrow> uuid \<Rightarrow> ScheduleRequest \<Rightarrow> SuggestedSlot \<Rightarrow> AuditRow list
    \<Rightarrow> AuditRow list \<times> string result" where
  "CreateMeeting tzdb env u req slot log = (case sm_client env of
      Inl e \<Rightarrow> (log, Inl e)
    | Inr own \<Rightarrow> (case sm_settings env of
        Inl e \<Rightarrow> (log, Inl (OtherError (''load settings: '' @ e)))
      | Inr s \<Rightarrow>
          let loc = location_or_utc tzdb (se_timezone s);
              send = (case sm_create env (meeting_event req slot) of
                  Inl e \<Rightarrow> (log, Inl e)
                | Inr i \<Rightarrow> (WriteAuditLog (sm_audit_ok env) u ''meeting_scheduled'' (MeetingScheduled i (sq_title req)) log, Inr i))
          in if eventIsOutsideWork (sg_start slot) (sg_end slot) s loc
             then (case canScheduleOutOfHours tzdb (sm_list env) s (sg_start slot) of
                 Inl e \<Rightarrow> (log, Inl (OtherError (''count out-of-hours meetings: '' @ e)))
               | Inr allowed \<Rightarrow> if allowed then send else (log, Inl ErrOutOfHoursAllowance))
             else send))"

subsection \<open>Picking the best slots\<close>

interpretation by_suggestion: key_sorter better_slot "\<lambda>s. - sg_score s"
  by unfold_locales (simp add: better_slot_def)

lemma sortSlots_sorted: "sorted_wrt (\<lambda>a b. sg_score b \<le> sg_score a) (sortSlotsByScore xs)"
  using by_suggestion.insertion_sort_sorted_wrt [of xs] by (simp add: sortSlotsByScore_def)

lemma set_sortSlots [simp]: "set (sortSlotsByScore xs) = set xs"
  by (simp add: sortSlotsByScore_def)

text \<open>
  What the picked list promises of the slots looked at so far: it is a part of them, at most
  \<open>n\<close>, pairwise apart; and a slot left out was close to a picked one that scores no less, or the
  list was full with slots that score no less.
\<close>

definition picked_ok :: "nat \<Rightarrow> int \<Rightarrow> SuggestedSlot list \<Rightarrow> SuggestedSlot list \<Rightarrow> bool" where
  "picked_ok n gap seen res \<longleftrightarrow> set res \<subseteq> set seen \<and> length res \<le> n \<and>
     sorted_wrt (\<lambda>a b. \<not> too_close gap b a) res \<and> sorted_wrt (\<lambda>a b. sg_score b \<le> sg_score a) res \<and>
     (\<forall>s \<in> set seen. s \<in> set res \<or> (\<exists>p \<in> set res. too_close gap s p \<and> sg_score s \<le> sg_score p) \<or>
        (length res = n \<and> (\<forall>p \<in> set res. sg_score s \<le> sg_score p)))"

lemma pick_step_ok:
  assumes "picked_ok n gap seen res" "\<forall>x \<in> set seen. sg_score s \<le> sg_score x"
  shows "picked_ok n gap (seen @ [s]) (pick_step n gap res s)"
proof -
  have sub: "set res \<subseteq> set seen" using assms(1) by (simp add: picked_ok_def)
  then have low: "\<forall>p \<in> set res. sg_score s \<le> sg_score p" using assms(2) by blast
  show ?thesis
  proof (cases "length res \<ge> n \<or> list_ex (too_close gap s) res")
    case True
    then show ?thesis using assms(1) low by (auto simp: picked_ok_def pick_step_def list_ex_iff)
  next
    case False
    then show ?thesis using assms(1) low
      by (auto simp: picked_ok_def pick_step_def list_ex_iff sorted_wrt_append)
  qed
qed

lemma foldl_pick_ok:
  assumes "picked_ok n gap seen res" "sorted_wrt (\<lambda>a b. sg_score b \<le> sg_score a) (seen @ slots)"
  shows "picked_ok n gap (seen @ slots) (foldl (pick_step n gap) res slots)"
  using assms
proof (induction slots arbitrary: seen res)
  case (Cons s slots)
  have "picked_ok n gap (seen @ [s]) (pick_step n gap res s)"
    using Cons.prems by (intro pick_step_ok) (auto simp: sorted_wrt_append)
  from Cons.IH [OF this] Cons.prems(2) show ?case by simp
qed simp

lemma pickTopUnique_ok: "picked_ok n gap (sortSlotsByScore xs) (pickTopUnique (sortSlotsByScore xs) n gap)"
  using foldl_pick_ok [of n gap "[]" "[]" "sortSlotsByScore xs"] sortSlots_sorted
  by (simp add: picked_ok_def pickTopUnique_def)

subsection \<open>Suggestions\<close>

text \<open>What the walk promises of one slot.\<close>

definition slot_allowed :: "Settings \<Rightarrow> location \<Rightarrow> bool \<Rightarrow> gotime \<Rightarrow> gotime \<Rightarrow> bool" where
  "slot_allowed s loc allowOut st en \<longleftrightarrow>
     (allowOut \<or> (case WorkWindow s (In st loc) of (a, b, on) \<Rightarrow>
        on \<and> ns (parseHHMM a st loc) \<le> ns st \<and> ns en \<le> ns (parseHHMM b st loc))) \<and>
     list_all (\<lambda>l. \<not> overlaps (ivl st en) l) (lunch_interval s st loc)"

lemma candidate_at_Some:
  assumes "candidate_at s req loc blocks allowOut t = Some c"
  shows "sg_start c = t" "sg_end c = Add t (sq_duration req * minute_ns)" "slot_allowed s loc allowOut t (sg_end c)"
  using assms
  by (auto simp: candidate_at_def Let_def slot_allowed_def lunch_interval_def overlaps_def time_cmp_defs
      split: prod.splits if_splits)




lemma suggest_candidates_set:
  "c \<in> set (suggest_candidates s req loc blocks allowOut free) \<longleftrightarrow>
   (\<exists>f \<in> set free. \<exists>t \<in> set (free_starts req f). candidate_at s req loc blocks allowOut t = Some c)"
  by (auto simp: suggest_candidates_def map_filter_mem)

lemma half_hour: "0 < 30 * minute_ns" by simp

lemma free_starts_fits:
  assumes "t \<in> set (free_starts req f)"
  shows "lo f \<le> ns t" "ns (sq_start req) \<le> ns t" "ns t + sq_duration req * minute_ns \<le> hi f"
  using starts_until_fits [OF half_hour assms [unfolded free_starts_def]] by (auto simp: time_cmp_defs split: if_splits)

text \<open>
  The parts of a call that answered: the settings, the busy time and whether the week's
  out-of-hours allowance is left.
\<close>

definition suggest_parts ::
  "(string \<Rightarrow> location option) \<Rightarrow> smart_env \<Rightarrow> uuid \<Rightarrow> ScheduleRequest \<Rightarrow> Settings \<Rightarrow> interval list \<Rightarrow> bool \<Rightarrow> SuggestedSlot list \<Rightarrow> bool" where
  "suggest_parts tzdb env u req s busy allowOut cs \<longleftrightarrow> sm_settings env = Inr s \<and>
     (\<exists>own. sm_client env = Inr own \<and> sm_freebusy env (own # sq_attendees req) (sq_start req) (sq_end req) = Inr busy) \<and>
     canScheduleOutOfHours tzdb (sm_list env) s (sq_start req) = Inr allowOut \<and>
     cs = suggest_candidates s req (location_or_utc tzdb (se_timezone s))
       (if sm_focus_fails env then [] else ListFocusBlocksForUserWeek (sm_focus env) u (sq_start req)) allowOut
       (subtractIntervals (ivl (sq_start req) (sq_end req)) (mergeIntervals busy))"

lemma Suggest_parts:
  assumes "Suggest tzdb env u req = Inr slots"
  obtains s busy allowOut cs where "suggest_parts tzdb env u req s busy allowOut cs"
    "slots = pickTopUnique (sortSlotsByScore cs) 3 hour_ns"
  using assms by (auto simp: Suggest_def suggest_parts_def Let_def split: sum.splits)

lemma suggest_candidates_fit:
  assumes "suggest_parts tzdb env u req s busy allowOut cs" "list_all valid_ivl busy"
    and "ns (sq_start req) < ns (sq_end req)" "c \<in> set cs"
  shows "sg_end c = Add (sg_start c) (sq_duration req * minute_ns) \<and>
     ns (sq_start req) \<le> ns (sg_start c) \<and> ns (sg_end c) \<le> ns (sq_end req) \<and>
     list_all (\<lambda>b. \<not> overlaps (ivl (sg_start c) (sg_end c)) b) busy \<and>
     slot_allowed s (location_or_utc tzdb (se_timezone s)) allowOut (sg_start c) (sg_end c)"
proof -
  let ?whole = "ivl (sq_start req) (sq_end req)" and ?loc = "location_or_utc tzdb (se_timezone s)"
  obtain f t where f: "f \<in> set (subtractIntervals ?whole (mergeIntervals busy))" "t \<in> set (free_starts req f)"
    and c: "candidate_at s req ?loc (if sm_focus_fails env then [] else ListFocusBlocksForUserWeek (sm_focus env) u (sq_start req))
        allowOut t = Some c"
    using assms(1,4) by (auto simp: suggest_parts_def suggest_candidates_set)
  note ct = candidate_at_Some [OF c] and ft = free_starts_fits [OF f(2)]
  have v: "list_all valid_ivl (mergeIntervals busy)" by (rule mergeIntervals_valid [OF assms(2)])
  have "hi f \<le> ns (sq_end req)" using subtractIntervals_within(2) [OF v f(1)] by simp
  moreover have "\<not> overlaps (ivl (sg_start c) (sg_end c)) b" if "b \<in> set busy" for b
  proof (rule inside_free)
    show "\<not> overlaps f b" by (rule free_of_busy [OF assms(2) _ f(1) that]) (use assms(3) in simp)
  qed (use ct ft in \<open>simp_all add: Add_def\<close>)
  ultimately show ?thesis using ct ft by (auto simp: list_all_iff Add_def)
qed

text \<open>
  C11. Every suggested slot can be used: it has the length asked for, lies in the range, meets no
  busy time of any attendee, avoids the lunch break and, when no out-of-hours meeting is left
  for the week, lies in the working hours. There are at most three, best score first, and
  they start at least an hour apart.
\<close>

theorem suggestions_fit:
  assumes "Suggest tzdb env u req = Inr slots" "ns (sq_start req) < ns (sq_end req)"
    and "sm_client env = Inr own" "sm_freebusy env (own # sq_attendees req) (sq_start req) (sq_end req) = Inr busy" "list_all valid_ivl busy"
    and "sm_settings env = Inr s" "canScheduleOutOfHours tzdb (sm_list env) s (sq_start req) = Inr allowOut"
  shows "length slots \<le> 3 \<and> sorted_wrt (\<lambda>a b. sg_score b \<le> sg_score a \<and> hour_ns \<le> \<bar>ns (sg_start b) - ns (sg_start a)\<bar>) slots \<and>
     list_all (\<lambda>c. ns (sg_end c) = ns (sg_start c) + sq_duration req * minute_ns \<and>
        ns (sq_start req) \<le> ns (sg_start c) \<and> ns (sg_end c) \<le> ns (sq_end req) \<and>
        list_all (\<lambda>b. \<not> overlaps (ivl (sg_start c) (sg_end c)) b) busy \<and>
        slot_allowed s (location_or_utc tzdb (se_timezone s)) allowOut (sg_start c) (sg_end c)) slots"
proof -
  obtain s' busy' allowOut' cs where p: "suggest_parts tzdb env u req s' busy' allowOut' cs"
      and slots: "slots = pickTopUnique (sortSlotsByScore cs) 3 hour_ns"
    by (rule Suggest_parts [OF assms(1)])
  have "s' = s" "busy' = busy" "allowOut' = allowOut" using p assms by (auto simp: suggest_parts_def)
  note fit = suggest_candidates_fit [OF p [unfolded this] assms(5,2)]
  have ok: "picked_ok 3 hour_ns (sortSlotsByScore cs) slots" unfolding slots by (rule pickTopUnique_ok)
  then have "sorted_wrt (\<lambda>a b. sg_score b \<le> sg_score a \<and> hour_ns \<le> \<bar>ns (sg_start b) - ns (sg_start a)\<bar>) slots"
    by (fastforce simp: picked_ok_def too_close_def Sub_def sorted_wrt_iff_nth_less not_less)
  then show ?thesis using ok fit by (fastforce simp: picked_ok_def list_all_iff Add_def)
qed


subsection \<open>Examples\<close>

text \<open>
  A week day's morning (1970-01-05, a Monday) with one busy half hour, and a calendar with
  nothing else.
\<close>

definition ex_clock :: "int \<Rightarrow> int \<Rightarrow> gotime" where
  "ex_clock d minutes = \<lparr>ns = d * day_ns + minutes * minute_ns, tloc = UTC\<rparr>"

definition ex_meeting_request :: ScheduleRequest where
  "ex_meeting_request = \<lparr>sq_duration = 30, sq_attendees = [''bob@x.org''], sq_start = ex_clock 4 540, sq_end = ex_clock 4 720,
     sq_title = ''Sync'', sq_description = '''', sq_location = '''', sq_preferred = [], sq_avoid = []\<rparr>"

definition ex_smart :: "Settings \<Rightarrow> interval list \<Rightarrow> smart_env" where
  "ex_smart s busy = \<lparr>sm_settings = Inr s, sm_client = Inr ''me@x.org'', sm_freebusy = (\<lambda>_ _ _. Inr busy),
     sm_list = (\<lambda>_ _. Inr []), sm_focus = [], sm_focus_fails = False, sm_create = (\<lambda>_. Inr ''e1''), sm_audit_ok = True\<rparr>"

definition ex_busy :: "interval list" where
  "ex_busy = [ivl (ex_clock 4 570) (ex_clock 4 600)]"

definition ex_suggested :: "SuggestedSlot list" where
  "ex_suggested = (case Suggest (\<lambda>_. None) (ex_smart default_settings ex_busy) 7 ex_meeting_request of Inr ss \<Rightarrow> ss | Inl _ \<Rightarrow> [])"

lemma ex_suggest_ok: "Suggest (\<lambda>_. None) (ex_smart default_settings ex_busy) 7 ex_meeting_request = Inr ex_suggested"
  by (simp add: ex_suggested_def Suggest_def ex_smart_def canScheduleOutOfHours_def default_settings_def)

lemma ex_smart_parts:
  "sm_client (ex_smart s busy) = Inr ''me@x.org''" "sm_freebusy (ex_smart s busy) es a b = Inr busy"
  "sm_settings (ex_smart s busy) = Inr s" "canScheduleOutOfHours tzdb lst default_settings t = Inr False"
  by (simp_all add: ex_smart_def canScheduleOutOfHours_def default_settings_def)

theorem suggestions_fit_witness:
  "map (\<lambda>c. ns (sg_start c)) ex_suggested = [4 * day_ns + 540 * minute_ns, 4 * day_ns + 600 * minute_ns, 4 * day_ns + 660 * minute_ns] \<and>
   list_all (\<lambda>c. ns (sg_end c) = ns (sg_start c) + 30 * minute_ns \<and> \<not> overlaps (ivl (sg_start c) (sg_end c)) (hd ex_busy)) ex_suggested"
proof
  show "map (\<lambda>c. ns (sg_start c)) ex_suggested = [4 * day_ns + 540 * minute_ns, 4 * day_ns + 600 * minute_ns, 4 * day_ns + 660 * minute_ns]"
    by code_simp
  have "list_all valid_ivl ex_busy" "ns (sq_start ex_meeting_request) < ns (sq_end ex_meeting_request)"
    by (simp_all add: ex_busy_def valid_ivl_def ex_clock_def ex_meeting_request_def)
  from suggestions_fit [OF ex_suggest_ok this(2) ex_smart_parts(1,2) this(1) ex_smart_parts(3,4)]
  show "list_all (\<lambda>c. ns (sg_end c) = ns (sg_start c) + 30 * minute_ns \<and> \<not> overlaps (ivl (sg_start c) (sg_end c)) (hd ex_busy)) ex_suggested"
    by (auto simp: list_all_iff ex_meeting_request_def ex_busy_def)
qed


text \<open>A user thirteen hours ahead of UTC, and the same Monday morning there, given in UTC.\<close>

definition ex_ahead :: location where
  "ex_ahead = \<lparr>loc_name = ''Pacific/Auckland'', loc_base = 46800, loc_trans = []\<rparr>"

definition ex_ahead_zones :: "string \<Rightarrow> location option" where
  "ex_ahead_zones = [''Pacific/Auckland'' \<mapsto> ex_ahead]"

definition ex_ahead_settings :: Settings where
  "ex_ahead_settings = default_settings\<lparr>se_timezone := ''Pacific/Auckland''\<rparr>"

definition ex_ahead_request :: ScheduleRequest where
  "ex_ahead_request = ex_meeting_request\<lparr>sq_start := ex_clock 3 1200, sq_end := ex_clock 3 1380\<rparr>"

text \<open>
  The walk reads the clock texts of the working hours on the calendar day the start has in the
  request's zone, not in the user's. Where the two days differ nothing is suggested: here the
  range is the user's Monday from nine to twelve, the calendar is empty, the check of
  \<^verbatim>\<open>CreateMeeting\<close> counts the first half hour as working time, and still no slot is found.
\<close>

theorem suggest_misses_working_hours:
  "Suggest ex_ahead_zones (ex_smart ex_ahead_settings []) 7 ex_ahead_request = Inr [] \<and>
   \<not> eventIsOutsideWork (sq_start ex_ahead_request) (Add (sq_start ex_ahead_request) (30 * minute_ns)) ex_ahead_settings ex_ahead \<and>
   length (case Suggest ex_ahead_zones (ex_smart ex_ahead_settings []) 7
     (ex_ahead_request\<lparr>sq_start := In (sq_start ex_ahead_request) ex_ahead, sq_end := In (sq_end ex_ahead_request) ex_ahead\<rparr>) of
       Inr ss \<Rightarrow> ss | Inl _ \<Rightarrow> []) = 3"
proof (intro conjI)
  have "case Suggest ex_ahead_zones (ex_smart ex_ahead_settings []) 7 ex_ahead_request of Inr ss \<Rightarrow> ss = [] | Inl _ \<Rightarrow> False"
    by code_simp
  then show "Suggest ex_ahead_zones (ex_smart ex_ahead_settings []) 7 ex_ahead_request = Inr []" by (simp split: sum.splits)
qed code_simp+

end
