(* ===== verification/Compression.thy ===== *)
theory Compression
  imports FocusTime
begin

section \<open>Compression: moving meetings to make room for focus time\<close>

text \<open>
  \<^verbatim>\<open>backend/engine/compression.go\<close>. For each meeting the user may move, the engine tries the
  positions next to the other meetings and proposes the first one that makes the day's largest
  free slot more than half an hour longer; \<^verbatim>\<open>Apply\<close> moves meetings as proposed.

  The trial of a position builds the day's busy list with \<^verbatim>\<open>append(otherMoveable, ...)\<close> and then
  sorts it in place. When the array behind \<^verbatim>\<open>otherMoveable\<close> has room for the appended elements
  they are written there, and the sort then reorders the array that \<^verbatim>\<open>otherMoveable\<close> still
  shows. The model carries that list through the loop: \<open>ce_cap n\<close> is the capacity of a slice
  that grew to \<open>n\<close> elements by appending one at a time, which the Go runtime decides. Two
  \<^verbatim>\<open>time.Time\<close> values compared with \<^verbatim>\<open>==\<close> are compared by \<open>ce_same\<close>, as equal instants may differ in
  their location pointer.
\<close>

record MoveProposal =
  mp_event :: string
  mp_title :: string
  mp_current :: interval
  mp_proposed :: interval
  mp_gain :: int

record CompressionResult =
  cr_date :: int
  cr_proposals :: "MoveProposal list"
  cr_total :: int

record eventInterval =
  ei_event :: event
  ei_start :: gotime
  ei_end :: gotime

record compress_env =
  ce_settings :: "string + Settings"
  ce_client :: "gerr + unit"
  ce_list :: "gotime \<Rightarrow> gotime \<Rightarrow> string + event list"
  ce_freebusy :: "string list \<Rightarrow> gotime \<Rightarrow> gotime \<Rightarrow> string + interval list"
  ce_get :: "string \<Rightarrow> string + event"
  ce_update :: "string \<Rightarrow> event \<Rightarrow> string option"
  ce_audit_ok :: bool
  ce_cap :: "nat \<Rightarrow> nat"
  ce_same :: "gotime \<Rightarrow> gotime \<Rightarrow> bool"

subsection \<open>The source's functions\<close>

definition event_interval :: "gotime \<Rightarrow> gotime \<Rightarrow> event \<Rightarrow> eventInterval option" where
  "event_interval workStart workEnd ev =
     (if (case ev_start ev of None \<Rightarrow> True | Some d \<Rightarrow> edt_datetime d = '''') then None
      else case event_times ev of
          None \<Rightarrow> None
        | Some (a, b) \<Rightarrow> if Before b workStart \<or> After a workEnd then None
                        else Some \<lparr>ei_event = ev, ei_start = a, ei_end = b\<rparr>)"

definition can_move :: "eventInterval \<Rightarrow> bool" where
  "can_move ei \<longleftrightarrow> ev_organizer_self (ei_event ei) = Some True \<and> ev_transparency (ei_event ei) \<noteq> ''transparent''"

definition classifyEvents :: "event list \<Rightarrow> gotime \<Rightarrow> gotime \<Rightarrow> eventInterval list \<times> eventInterval list" where
  "classifyEvents events workStart workEnd =
     (let eis = List.map_filter (event_interval workStart workEnd) events
      in (filter can_move eis, filter (\<lambda>ei. \<not> can_move ei) eis))"

definition toIntervals :: "eventInterval list \<Rightarrow> interval list" where
  "toIntervals eis = map (\<lambda>ei. ivl (ei_start ei) (ei_end ei)) eis"

definition toIntervalsExcept :: "eventInterval list \<Rightarrow> string \<Rightarrow> interval list" where
  "toIntervalsExcept eis excludeID = toIntervals (filter (\<lambda>ei. ev_id (ei_event ei) \<noteq> excludeID) eis)"

definition extractAttendees :: "eventInterval \<Rightarrow> string list" where
  "extractAttendees ei =
     map at_email (filter (\<lambda>a. \<not> at_self a \<and> at_status a \<noteq> ''declined'') (ev_attendees (ei_event ei)))"

definition beside :: "gotime \<Rightarrow> int \<Rightarrow> interval \<Rightarrow> gotime list" where
  "beside workStart dur iv =
     iend iv # (let t = Add (istart iv) (- dur) in if Before t workStart then [] else [t])"

definition generateAdjacentPositions :: "interval list \<Rightarrow> interval list \<Rightarrow> gotime \<Rightarrow> int \<Rightarrow> gotime list" where
  "generateAdjacentPositions others fixed workStart dur =
     workStart # concat (map (beside workStart dur) others) @ concat (map (beside workStart dur) fixed)"

definition hasConflict :: "interval list \<Rightarrow> gotime \<Rightarrow> gotime \<Rightarrow> bool" where
  "hasConflict busy st en \<longleftrightarrow> list_ex (\<lambda>s. Before st (iend s) \<and> After en (istart s)) busy"

definition attendees_busy :: "compress_env \<Rightarrow> string list \<Rightarrow> gotime \<Rightarrow> gotime \<Rightarrow> bool" where
  "attendees_busy env emails st en \<longleftrightarrow> emails \<noteq> [] \<and>
     (case ce_freebusy env emails st en of Inl _ \<Rightarrow> True | Inr busy \<Rightarrow> hasConflict busy st en)"

text \<open>The gain of a busy list over the day's current largest free slot, in minutes.\<close>

definition focus_gain :: "interval \<Rightarrow> int \<Rightarrow> interval list \<Rightarrow> int" where
  "focus_gain work currentLargest busy =
     minutes_of (largestSlot (subtractIntervals work (mergeIntervals busy)) - currentLargest)"

text \<open>
  What \<^verbatim>\<open>otherMoveable\<close> shows after a position was tried: the sorted busy list cut to its length
  when all of it fitted in the array, else what it showed before.
\<close>

definition after_trial :: "compress_env \<Rightarrow> interval list \<Rightarrow> interval list \<Rightarrow> interval \<Rightarrow> interval list" where
  "after_trial env other fixed iv =
     (if length other + length fixed + 1 \<le> ce_cap env (length other)
      then take (length other) (sortIntervals (other @ fixed @ [iv])) else other)"

fun try_positions ::
  "compress_env \<Rightarrow> eventInterval \<Rightarrow> interval list \<Rightarrow> interval \<Rightarrow> int \<Rightarrow> interval list \<Rightarrow> gotime list \<Rightarrow> MoveProposal option" where
  "try_positions env mv fixed work currentLargest other [] = None"
| "try_positions env mv fixed work currentLargest other (p # ps) =
     (let dur = Sub (ei_end mv) (ei_start mv); e = Add p dur; iv = ivl p e;
          gain = focus_gain work currentLargest (other @ fixed @ [iv])
      in if ce_same env p (ei_start mv) \<or> After e (iend work) \<or> overlapsWith iv (other @ fixed) \<or>
            attendees_busy env (extractAttendees mv) p e
         then try_positions env mv fixed work currentLargest other ps
         else if gain > 30
         then Some \<lparr>mp_event = ev_id (ei_event mv), mp_title = ev_summary (ei_event mv),
                mp_current = ivl (ei_start mv) (ei_end mv), mp_proposed = iv, mp_gain = gain\<rparr>
         else try_positions env mv fixed work currentLargest (after_trial env other fixed iv) ps)"

definition propose_move ::
  "compress_env \<Rightarrow> eventInterval list \<Rightarrow> interval list \<Rightarrow> interval \<Rightarrow> int \<Rightarrow> eventInterval \<Rightarrow> MoveProposal option" where
  "propose_move env moveable fixed work currentLargest mv =
     (let other = toIntervalsExcept moveable (ev_id (ei_event mv))
      in try_positions env mv fixed work currentLargest other
           (generateAdjacentPositions other fixed (istart work) (Sub (ei_end mv) (ei_start mv))))"

text \<open>A day's meetings: the ones that can move, and the fixed ones with the lunch break.\<close>

definition day_meetings :: "Settings \<Rightarrow> gotime \<Rightarrow> location \<Rightarrow> interval \<Rightarrow> event list \<Rightarrow> eventInterval list \<times> interval list" where
  "day_meetings s date loc work events =
     (case classifyEvents events (istart work) (iend work) of
        (moveable, fixed) \<Rightarrow> (moveable, toIntervals fixed @ lunch_interval s date loc))"

definition day_proposals :: "compress_env \<Rightarrow> eventInterval list \<Rightarrow> interval list \<Rightarrow> interval \<Rightarrow> MoveProposal list" where
  "day_proposals env moveable fixed work =
     (let currentLargest = largestSlot (subtractIntervals work (mergeIntervals (toIntervals moveable @ fixed)))
      in List.map_filter (propose_move env moveable fixed work currentLargest) moveable)"

definition SuggestForDay :: "(string \<Rightarrow> location option) \<Rightarrow> compress_env \<Rightarrow> gotime \<Rightarrow> CompressionResult result" where
  "SuggestForDay tzdb env date = (case ce_settings env of
      Inl e \<Rightarrow> Inl (OtherError (''load settings: '' @ e))
    | Inr s \<Rightarrow> (case ce_client env of
        Inl e \<Rightarrow> Inl e
      | Inr _ \<Rightarrow>
          (let loc = location_or_utc tzdb (se_timezone s); dayStart = go_date (date_of date) 0 0 0 0 loc
           in case WorkWindow s (In date loc) of (wsRaw, weRaw, workEnabled) \<Rightarrow>
             if \<not> workEnabled then Inr \<lparr>cr_date = date_of date, cr_proposals = [], cr_total = 0\<rparr>
             else (case ce_list env dayStart (Add dayStart day_ns) of
                 Inl e \<Rightarrow> Inl (OtherError (''list events: '' @ e))
               | Inr events \<Rightarrow>
                   let work = ivl (parseHHMM wsRaw date loc) (parseHHMM weRaw date loc);
                       (moveable, fixed) = day_meetings s date loc work events;
                       ps = day_proposals env moveable fixed work
                   in Inr \<lparr>cr_date = date_of date, cr_proposals = ps, cr_total = sum_list (map mp_gain ps)\<rparr>))))"

text \<open>
  \<^verbatim>\<open>Apply\<close> over the calendar: \<open>sent\<close> are the updates it accepted. The conflict check asks about
  no email at all, as the code does.
\<close>

record apply_state =
  as_sent :: "(string \<times> event) list"
  as_audit :: "AuditRow list"
  as_applied :: "string list"
  as_failed :: "string list"

definition moved_event :: "MoveProposal \<Rightarrow> event \<Rightarrow> event" where
  "moved_event p ev = ev\<lparr>ev_start := at_time (istart (mp_proposed p)), ev_end := at_time (iend (mp_proposed p))\<rparr>"

definition apply_one :: "compress_env \<Rightarrow> uuid \<Rightarrow> apply_state \<Rightarrow> MoveProposal \<Rightarrow> apply_state" where
  "apply_one env u st p =
     (let a = istart (mp_proposed p); b = iend (mp_proposed p);
          conflict = (case ce_freebusy env [] a b of Inl _ \<Rightarrow> False | Inr busy \<Rightarrow> hasConflict busy a b);
          fail = (\<lambda>why. st\<lparr>as_failed := as_failed st @ [mp_event p @ '': '' @ why]\<rparr>)
      in if conflict then fail ''attendee conflict at proposed time''
         else case ce_get env (mp_event p) of
             Inl e \<Rightarrow> fail e
           | Inr existing \<Rightarrow> (case ce_update env (mp_event p) (moved_event p existing) of
               Some e \<Rightarrow> fail e
             | None \<Rightarrow> st\<lparr>as_sent := as_sent st @ [(mp_event p, moved_event p existing)],
                 as_audit := WriteAuditLog (ce_audit_ok env) u ''meeting_moved'' (MeetingMoved (mp_event p) (format_rfc3339 a)) (as_audit st),
                 as_applied := as_applied st @ [mp_event p]\<rparr>))"

definition Apply :: "compress_env \<Rightarrow> uuid \<Rightarrow> MoveProposal list \<Rightarrow> AuditRow list \<Rightarrow> gerr + apply_state" where
  "Apply env u ps log = (case ce_client env of
      Inl e \<Rightarrow> Inl e
    | Inr _ \<Rightarrow> Inr (foldl (apply_one env u) \<lparr>as_sent = [], as_audit = log, as_applied = [], as_failed = []\<rparr> ps))"

subsection \<open>What a proposal promises\<close>

definition proposal_ok :: "compress_env \<Rightarrow> eventInterval \<Rightarrow> interval list \<Rightarrow> interval list \<Rightarrow> interval \<Rightarrow> int \<Rightarrow> MoveProposal \<Rightarrow> bool" where
  "proposal_ok env mv other fixed work currentLargest p \<longleftrightarrow>
     mp_event p = ev_id (ei_event mv) \<and> mp_current p = ivl (ei_start mv) (ei_end mv) \<and>
     hi (mp_proposed p) - lo (mp_proposed p) = ns (ei_end mv) - ns (ei_start mv) \<and>
     lo work \<le> lo (mp_proposed p) \<and> hi (mp_proposed p) \<le> hi work \<and>
     list_all (\<lambda>b. \<not> overlaps (mp_proposed p) b) (other @ fixed) \<and>
     \<not> attendees_busy env (extractAttendees mv) (istart (mp_proposed p)) (iend (mp_proposed p)) \<and>
     mp_gain p = focus_gain work currentLargest (other @ fixed @ [mp_proposed p]) \<and> 30 < mp_gain p"

text \<open>No room behind the slice: nothing the trial appends fits in its array.\<close>

definition no_spare :: "compress_env \<Rightarrow> nat \<Rightarrow> nat \<Rightarrow> bool" where
  "no_spare env n m \<longleftrightarrow> ce_cap env n \<le> n + m"

lemma after_trial_same: "no_spare env (length other) (length fixed) \<Longrightarrow> after_trial env other fixed iv = other"
  by (simp add: after_trial_def no_spare_def)

lemma try_positions_ok:
  assumes "try_positions env mv fixed work cl other ps = Some p" "no_spare env (length other) (length fixed)"
    and "list_all (\<lambda>t. lo work \<le> ns t) ps"
  shows "proposal_ok env mv other fixed work cl p"
  using assms(1,3)
proof (induction ps)
  case (Cons q ps)
  show ?case
  proof (cases "try_positions env mv fixed work cl other ps = Some p")
    case False
    then show ?thesis
      using Cons.prems after_trial_same [OF assms(2)]
      by (auto simp: Let_def proposal_ok_def overlapsWith_def list_ex_iff list_all_iff Add_def Sub_def time_cmp_defs split: if_splits)
  next
    case True
    then show ?thesis using Cons.IH Cons.prems(2) by simp
  qed
qed simp

lemma positions_in_hours:
  assumes "list_all (\<lambda>b. lo work \<le> hi b) (others @ fixed)"
  shows "list_all (\<lambda>t. lo work \<le> ns t) (generateAdjacentPositions others fixed (istart work) dur)"
  using assms by (auto simp: generateAdjacentPositions_def beside_def list_all_iff Let_def Add_def time_cmp_defs split: if_splits)

lemma meetings_end_in_hours:
  assumes "day_meetings s date loc work events = (moveable, fixed)"
    and "list_all (\<lambda>l. lo work \<le> hi l) (lunch_interval s date loc)"
  shows "list_all (\<lambda>b. lo work \<le> hi b) (toIntervalsExcept moveable i @ fixed)"
proof -
  have "lo work \<le> ns (ei_end ei)"
    if "ei \<in> set (List.map_filter (event_interval (istart work) (iend work)) events)" for ei
    using that unfolding map_filter_mem
    by (elim bexE) (auto simp: event_interval_def time_cmp_defs split: option.split_asm if_split_asm)
  then show ?thesis
    using assms by (auto simp: day_meetings_def classifyEvents_def Let_def toIntervalsExcept_def toIntervals_def list_all_iff)
qed

lemma day_proposals_ok:
  assumes "p \<in> set (day_proposals env moveable fixed work)"
    and "list_all (\<lambda>mv. no_spare env (length (toIntervalsExcept moveable (ev_id (ei_event mv)))) (length fixed)) moveable"
    and "\<And>i. list_all (\<lambda>b. lo work \<le> hi b) (toIntervalsExcept moveable i @ fixed)"
  shows "\<exists>mv \<in> set moveable. proposal_ok env mv (toIntervalsExcept moveable (ev_id (ei_event mv))) fixed work
     (largestSlot (subtractIntervals work (mergeIntervals (toIntervals moveable @ fixed)))) p"
proof -
  obtain mv where "mv \<in> set moveable"
    and "propose_move env moveable fixed work (largestSlot (subtractIntervals work (mergeIntervals (toIntervals moveable @ fixed)))) mv = Some p"
    using assms(1) by (auto simp: day_proposals_def Let_def map_filter_mem)
  then show ?thesis
    using assms(2) try_positions_ok [OF _ _ positions_in_hours [OF assms(3)]]
    by (fastforce simp: propose_move_def Let_def list_all_iff)
qed

text \<open>
  C13. Where the slice of the other meetings has no spare room and the lunch break does not end
  before the working hours start, a proposed move is sound: the meeting keeps its length, lies
  within the working hours, meets no other meeting of the day and no lunch break, its attendees
  are free then, and the day's largest free slot grows by the minutes it says, more than thirty.
  The total is the sum of the proposals' gains. Without the first condition the claim fails,
  as \<open>trial_corrupts_the_day\<close> below shows, and without the second, as \<open>early_lunch_leaves_the_hours\<close>
  does.
\<close>

theorem proposed_moves_are_safe:
  assumes "SuggestForDay tzdb env date = Inr r" "ce_settings env = Inr s" "loc = location_or_utc tzdb (se_timezone s)"
    and "WorkWindow s (In date loc) = (wsRaw, weRaw, True)" "work = ivl (parseHHMM wsRaw date loc) (parseHHMM weRaw date loc)"
    and "ce_list env (go_date (date_of date) 0 0 0 0 loc) (Add (go_date (date_of date) 0 0 0 0 loc) day_ns) = Inr events"
    and "day_meetings s date loc work events = (moveable, fixed)"
    and "list_all (\<lambda>mv. no_spare env (length (toIntervalsExcept moveable (ev_id (ei_event mv)))) (length fixed)) moveable"
    and "list_all (\<lambda>l. lo work \<le> hi l) (lunch_interval s date loc)"
  shows "cr_total r = sum_list (map mp_gain (cr_proposals r)) \<and>
     list_all (\<lambda>p. list_ex (\<lambda>mv. proposal_ok env mv (toIntervalsExcept moveable (ev_id (ei_event mv))) fixed work
        (largestSlot (subtractIntervals work (mergeIntervals (toIntervals moveable @ fixed)))) p) moveable) (cr_proposals r)"
proof -
  have "r = \<lparr>cr_date = date_of date, cr_proposals = day_proposals env moveable fixed work,
      cr_total = sum_list (map mp_gain (day_proposals env moveable fixed work))\<rparr>"
    using assms(1-7) by (auto simp: SuggestForDay_def Let_def split: sum.splits)
  then show ?thesis using day_proposals_ok [OF _ assms(8) meetings_end_in_hours [OF assms(7,9)]]
    by (auto simp: list_all_iff list_ex_iff)
qed

subsection \<open>Examples\<close>

text \<open>
  A Monday (1970-01-05) with meetings the user organizes; the capacities are those of a slice
  that doubles when it is full.
\<close>

definition ex_at :: "int \<Rightarrow> gotime" where
  "ex_at minutes = \<lparr>ns = 4 * day_ns + minutes * minute_ns, tloc = UTC\<rparr>"

definition ex_own :: "string \<Rightarrow> int \<Rightarrow> int \<Rightarrow> event" where
  "ex_own i a b = empty_event\<lparr>ev_id := i, ev_organizer_self := Some True, ev_start := at_time (ex_at a), ev_end := at_time (ex_at b)\<rparr>"

fun doubling :: "nat \<Rightarrow> nat" where
  "doubling 0 = 0"
| "doubling (Suc n) = (if Suc n \<le> doubling n then doubling n else max 1 (2 * doubling n))"

definition ex_compress :: "(nat \<Rightarrow> nat) \<Rightarrow> event list \<Rightarrow> compress_env" where
  "ex_compress cap evs = \<lparr>ce_settings = Inr (default_settings\<lparr>se_protect_lunch := False\<rparr>), ce_client = Inr (),
     ce_list = (\<lambda>_ _. Inr evs), ce_freebusy = (\<lambda>_ _ _. Inr []), ce_get = (\<lambda>i. case find (\<lambda>e. ev_id e = i) evs of None \<Rightarrow> Inl ''not found'' | Some e \<Rightarrow> Inr e),
     ce_update = (\<lambda>_ _. None), ce_audit_ok = True, ce_cap = cap, ce_same = (\<lambda>a b. ns a = ns b)\<rparr>"

definition ex_full_day :: "event list" where
  "ex_full_day = [ex_own ''m'' 555 615, ex_own ''a'' 645 675, ex_own ''b'' 705 735, ex_own ''c'' 765 960]"

definition ex_work :: interval where
  "ex_work = ivl (ex_at 540) (ex_at 1080)"

definition ex_slots :: "event list \<Rightarrow> eventInterval list" where
  "ex_slots evs = fst (day_meetings (default_settings\<lparr>se_protect_lunch := False\<rparr>) (ex_at 0) UTC ex_work evs)"

definition ex_moves :: "(nat \<Rightarrow> nat) \<Rightarrow> event list \<Rightarrow> MoveProposal list" where
  "ex_moves cap evs = (case SuggestForDay (\<lambda>_. None) (ex_compress cap evs) (ex_at 0) of Inr r \<Rightarrow> cr_proposals r | Inl _ \<Rightarrow> [])"

lemma ex_full_hours:
  "location_or_utc (\<lambda>_. None) (se_timezone (default_settings\<lparr>se_protect_lunch := False\<rparr>)) = UTC"
  "case WorkWindow (default_settings\<lparr>se_protect_lunch := False\<rparr>) (In (ex_at 0) UTC) of (a, b, on) \<Rightarrow>
     on \<and> ivl (parseHHMM a (ex_at 0) UTC) (parseHHMM b (ex_at 0) UTC) = ex_work"
  "lunch_interval (default_settings\<lparr>se_protect_lunch := False\<rparr>) (ex_at 0) UTC = []"
  by code_simp+

lemma ex_day_meetings:
  assumes "list_all can_move (List.map_filter (event_interval (istart ex_work) (iend ex_work)) evs)"
  shows "day_meetings (default_settings\<lparr>se_protect_lunch := False\<rparr>) (ex_at 0) UTC ex_work evs = (ex_slots evs, [])"
  using assms ex_full_hours(3)
  by (simp add: ex_slots_def day_meetings_def classifyEvents_def Let_def toIntervals_def filter_empty_conv list_all_iff)

lemma ex_suggest:
  assumes "list_all can_move (List.map_filter (event_interval (istart ex_work) (iend ex_work)) evs)"
  shows "SuggestForDay (\<lambda>_. None) (ex_compress cap evs) (ex_at 0) =
     Inr \<lparr>cr_date = date_of (ex_at 0), cr_proposals = day_proposals (ex_compress cap evs) (ex_slots evs) [] ex_work,
          cr_total = sum_list (map mp_gain (day_proposals (ex_compress cap evs) (ex_slots evs) [] ex_work))\<rparr>"
proof -
  obtain a b where "WorkWindow (default_settings\<lparr>se_protect_lunch := False\<rparr>) (In (ex_at 0) UTC) = (a, b, True)"
      "ivl (parseHHMM a (ex_at 0) UTC) (parseHHMM b (ex_at 0) UTC) = ex_work"
    using ex_full_hours(2) by (auto split: prod.splits)
  then show ?thesis
    unfolding SuggestForDay_def
    by (simp only: ex_compress_def compress_env.simps sum.case Let_def ex_full_hours(1) prod.case if_True not_True_eq_False if_False
        ex_day_meetings [OF assms])
qed

lemma ex_moves_eq:
  assumes "list_all can_move (List.map_filter (event_interval (istart ex_work) (iend ex_work)) evs)"
  shows "ex_moves cap evs = day_proposals (ex_compress cap evs) (ex_slots evs) [] ex_work"
  by (simp add: ex_moves_def ex_suggest [OF assms])

definition ex_one :: "event list" where
  "ex_one = [ex_own ''m'' 780 840]"

lemma ex_all_move:
  "list_all can_move (List.map_filter (event_interval (istart ex_work) (iend ex_work)) ex_one)"
  by code_simp

theorem proposed_moves_are_safe_witness:
  "length (ex_moves (\<lambda>n. n) ex_one) = 1 \<and>
   list_all (\<lambda>p. list_ex (\<lambda>mv. proposal_ok (ex_compress (\<lambda>n. n) ex_one) mv (toIntervalsExcept (ex_slots ex_one) (ev_id (ei_event mv)))
      [] ex_work (largestSlot (subtractIntervals ex_work (mergeIntervals (toIntervals (ex_slots ex_one) @ [])))) p) (ex_slots ex_one))
     (ex_moves (\<lambda>n. n) ex_one)"
proof
  show "length (ex_moves (\<lambda>n. n) ex_one) = 1"
    unfolding ex_moves_eq [OF ex_all_move] by code_simp
  obtain a b where w: "WorkWindow (default_settings\<lparr>se_protect_lunch := False\<rparr>) (In (ex_at 0) UTC) = (a, b, True)"
      "ex_work = ivl (parseHHMM a (ex_at 0) UTC) (parseHHMM b (ex_at 0) UTC)"
    using ex_full_hours(2) by (auto split: prod.splits)
  show "list_all (\<lambda>p. list_ex (\<lambda>mv. proposal_ok (ex_compress (\<lambda>n. n) ex_one) mv (toIntervalsExcept (ex_slots ex_one) (ev_id (ei_event mv)))
      [] ex_work (largestSlot (subtractIntervals ex_work (mergeIntervals (toIntervals (ex_slots ex_one) @ [])))) p) (ex_slots ex_one))
     (ex_moves (\<lambda>n. n) ex_one)"
    using proposed_moves_are_safe [OF ex_suggest [OF ex_all_move, of "\<lambda>n. n"] _ ex_full_hours(1) [symmetric] w _ ex_day_meetings [OF ex_all_move]]
    by (simp add: ex_moves_eq [OF ex_all_move] ex_full_hours(3) no_spare_def list_all_iff) (simp add: ex_compress_def)
qed

text \<open>
  With the room that appending leaves behind the slice, a tried position overwrites the list
  of the other meetings: on this day of four meetings the first one is proposed to move onto
  the last one, for a gain that counts the last meeting as gone. Without the sharing the same
  engine proposes no move of it.
\<close>

theorem trial_corrupts_the_day:
  "list_ex (\<lambda>p. mp_event p = ''m'' \<and> lo (mp_proposed p) = ns (ex_at 735) \<and> mp_gain p = 165 \<and>
      overlaps (mp_proposed p) (ivl (ex_at 765) (ex_at 960))) (ex_moves doubling ex_full_day) \<and>
   \<not> list_ex (\<lambda>p. mp_event p = ''m'') (ex_moves (\<lambda>n. n) ex_full_day)"
  by (intro conjI; code_simp)

text \<open>
  The end of a lunch break is tried like the end of a meeting, and only the position before a
  meeting is compared with the start of the working hours. With the working hours in the
  afternoon and lunch before them, the engine proposes to move a meeting to the end of lunch,
  outside the working hours, and counts its whole time as gained.
\<close>

definition ex_afternoon :: Settings where
  "ex_afternoon = default_settings\<lparr>se_work_start := ''14:00'', se_work_end := ''18:00'',
     se_working_hours := defaultWorkingHours ''14:00'' ''18:00''\<rparr>"

theorem early_lunch_leaves_the_hours:
  "case WorkWindow ex_afternoon (In (ex_at 0) UTC) of (a, b, on) \<Rightarrow>
     on \<and> lo (ivl (parseHHMM a (ex_at 0) UTC) (parseHHMM b (ex_at 0) UTC)) = ns (ex_at 840)"
  "case SuggestForDay (\<lambda>_. None) (ex_compress (\<lambda>n. n) [ex_own ''m'' 840 880]\<lparr>ce_settings := Inr ex_afternoon\<rparr>) (ex_at 0) of
     Inl _ \<Rightarrow> False
   | Inr r \<Rightarrow> list_ex (\<lambda>p. mp_event p = ''m'' \<and> lo (mp_proposed p) = ns (ex_at 780) \<and> mp_gain p = 40) (cr_proposals r)"
  by code_simp+

definition can_apply :: "compress_env \<Rightarrow> MoveProposal \<Rightarrow> bool" where
  "can_apply env p \<longleftrightarrow> (case ce_get env (mp_event p) of Inl _ \<Rightarrow> False | Inr ev \<Rightarrow> ce_update env (mp_event p) (moved_event p ev) = None)"

lemma apply_one_cases:
  assumes "ce_freebusy env [] (istart (mp_proposed p)) (iend (mp_proposed p)) = Inr []"
  shows "can_apply env p \<Longrightarrow> \<exists>ev. as_sent (apply_one env u st p) = as_sent st @ [(mp_event p, moved_event p ev)] \<and>
      as_applied (apply_one env u st p) = as_applied st @ [mp_event p] \<and> as_failed (apply_one env u st p) = as_failed st"
    and "\<not> can_apply env p \<Longrightarrow> \<exists>why. apply_one env u st p = st\<lparr>as_failed := as_failed st @ [mp_event p @ '': '' @ why]\<rparr>"
  using assms by (auto simp: apply_one_def can_apply_def hasConflict_def split: sum.splits option.splits)

definition move_sent :: "string \<times> event \<Rightarrow> MoveProposal \<Rightarrow> bool" where
  "move_sent ie p \<longleftrightarrow> fst ie = mp_event p \<and> ev_start (snd ie) = at_time (istart (mp_proposed p)) \<and>
     ev_end (snd ie) = at_time (iend (mp_proposed p))"

lemma foldl_apply:
  assumes "\<And>a b. ce_freebusy env [] a b = Inr []"
  shows "as_applied (foldl (apply_one env u) st ps) = as_applied st @ map mp_event (filter (can_apply env) ps) \<and>
     length (as_failed (foldl (apply_one env u) st ps)) = length (as_failed st) + length (filter (\<lambda>p. \<not> can_apply env p) ps) \<and>
     (\<exists>new. as_sent (foldl (apply_one env u) st ps) = as_sent st @ new \<and> list_all2 move_sent new (filter (can_apply env) ps))"
proof (induction ps arbitrary: st)
  case (Cons p ps)
  show ?case
  proof (cases "can_apply env p")
    case True
    then obtain ev where a: "as_sent (apply_one env u st p) = as_sent st @ [(mp_event p, moved_event p ev)]"
        "as_applied (apply_one env u st p) = as_applied st @ [mp_event p]" "as_failed (apply_one env u st p) = as_failed st"
      using apply_one_cases(1) assms by blast
    obtain new where "as_sent (foldl (apply_one env u) (apply_one env u st p) ps) = as_sent (apply_one env u st p) @ new"
        "list_all2 move_sent new (filter (can_apply env) ps)"
      using Cons.IH by blast
    then have "as_sent (foldl (apply_one env u) st (p # ps)) = as_sent st @ ((mp_event p, moved_event p ev) # new)"
        "list_all2 move_sent ((mp_event p, moved_event p ev) # new) (filter (can_apply env) (p # ps))"
      using True a by (simp_all add: move_sent_def moved_event_def)
    then show ?thesis using Cons.IH [of "apply_one env u st p"] True a by auto
  next
    case False
    then obtain why where "apply_one env u st p = st\<lparr>as_failed := as_failed st @ [mp_event p @ '': '' @ why]\<rparr>"
      using apply_one_cases(2) assms by blast
    then show ?thesis using Cons.IH [of "apply_one env u st p"] False by simp
  qed
qed simp

text \<open>
  \<^verbatim>\<open>Apply\<close> asks the calendar about no email. When the calendar answers such a question with
  nothing, the conflict check never refuses: whoever is busy, a proposal is applied exactly when
  its event can be read and updated; every other one is listed as failed, in order, and the
  updates sent carry the proposed times.
\<close>

theorem apply_accounts_for_every_proposal:
  assumes "Apply env u ps log = Inr st" "\<And>a b. ce_freebusy env [] a b = Inr []"
  shows "as_applied st = map mp_event (filter (can_apply env) ps) \<and>
     length (as_failed st) = length (filter (\<lambda>p. \<not> can_apply env p) ps) \<and>
     list_all2 move_sent (as_sent st) (filter (can_apply env) ps)"
proof -
  have "st = foldl (apply_one env u) \<lparr>as_sent = [], as_audit = log, as_applied = [], as_failed = []\<rparr> ps"
    using assms(1) by (auto simp: Apply_def split: sum.splits)
  then show ?thesis using foldl_apply [OF assms(2)] by (metis append_Nil apply_state.select_convs(1,3,4) add_0 list.size(3))
qed

definition ex_move :: MoveProposal where
  "ex_move = \<lparr>mp_event = ''m'', mp_title = '''', mp_current = ivl (ex_at 780) (ex_at 840), mp_proposed = ivl (ex_at 540) (ex_at 600), mp_gain = 240\<rparr>"

definition ex_crowded :: compress_env where
  "ex_crowded = (ex_compress (\<lambda>n. n) ex_one)\<lparr>ce_freebusy := (\<lambda>es a b. if es = [] then Inr [] else Inr [ivl a b])\<rparr>"

theorem apply_accounts_for_every_proposal_witness:
  "attendees_busy ex_crowded [''bob@x.org''] (ex_at 540) (ex_at 600) \<and>
   (\<exists>st. Apply ex_crowded 7 [ex_move] [] = Inr st \<and> as_applied st = [''m''])"
proof
  show "attendees_busy ex_crowded [''bob@x.org''] (ex_at 540) (ex_at 600)" by code_simp
  obtain st where st: "Apply ex_crowded 7 [ex_move] [] = Inr st" by (simp add: Apply_def ex_crowded_def ex_compress_def)
  have "can_apply ex_crowded ex_move" by (simp add: can_apply_def ex_crowded_def ex_compress_def ex_move_def ex_one_def ex_own_def)
  with apply_accounts_for_every_proposal [OF st] st
  show "\<exists>st. Apply ex_crowded 7 [ex_move] [] = Inr st \<and> as_applied st = [''m'']"
    by (simp add: ex_crowded_def ex_move_def)
qed

end
