(* ===== verification/AutoDecline.thy ===== *)
theory AutoDecline
  imports Settings CalendarEvents
begin

section \<open>AutoDecline: declining invitations outside working hours\<close>

text \<open>
  \<^verbatim>\<open>backend/engine/auto_decline.go\<close>: for each user who asked for it, the pending invitations of
  the next ten weekdays that start or end outside the working hours, or meet the protected
  lunch, are answered with a decline. The settings read, the token, the client and the
  calendar's answers are the environment \<open>decline_env\<close> of a user; the declines sent are part of
  the result. The search for the end of the window is a loop without a bound of its own: it is
  a partial function, and not returning is \<open>None\<close>.
\<close>

datatype decline_error = DbRequired | OauthRequired | NoToken uuid | Failed string | Cancelled string

record decline_env =
  dv_settings :: "string + Settings"
  dv_oauth :: bool
  dv_token :: "string + bool"
  dv_client :: "string option"
  dv_list :: "gotime \<Rightarrow> gotime \<Rightarrow> string + event list"
  dv_decline :: "string \<Rightarrow> event \<Rightarrow> string option"

subsection \<open>The window\<close>

definition AutoDeclineWorkingDays :: int where "AutoDeclineWorkingDays = 10"

definition isWorkingDay :: "int \<Rightarrow> bool" where
  "isWorkingDay wd \<longleftrightarrow> 1 \<le> wd \<and> wd \<le> 5"

partial_function (option) window_end :: "int \<Rightarrow> int \<Rightarrow> gotime \<Rightarrow> gotime option" where
  "window_end days counted cursor =
     (if isWorkingDay (Weekday cursor)
      then (if counted + 1 = days then Some (AddDays cursor 1) else window_end days (counted + 1) (AddDays cursor 1))
      else window_end days counted (AddDays cursor 1))"

declare window_end.simps [code]

definition nextWorkingDaysWindow :: "gotime \<Rightarrow> int \<Rightarrow> (gotime \<times> gotime) option" where
  "nextWorkingDaysWindow now days =
     (if days \<le> 0 then Some (now, now)
      else map_option (Pair now) (window_end days 0 (go_date (date_of now) 0 0 0 0 (tloc now))))"

definition settingsLocation :: "(string \<Rightarrow> location option) \<Rightarrow> string \<Rightarrow> location" where
  "settingsLocation tzdb name =
     (if name = '''' then UTC else case LoadLocation tzdb name of None \<Rightarrow> UTC | Some loc \<Rightarrow> loc)"

subsection \<open>Which invitations\<close>

text \<open>\<^verbatim>\<open>time.ParseInLocation\<close> with the layouts \<^verbatim>\<open>15\<close> and \<^verbatim>\<open>04\<close> for the two parts.\<close>

definition policyClock :: "string \<Rightarrow> gotime \<Rightarrow> gotime option" where
  "policyClock value date = (case split_all CHR '':'' value of
      [a, b] \<Rightarrow>
        (case (get1or2 a, get2 b) of
           (Some (h, ra), Some (m, rb)) \<Rightarrow>
             if ra = [] \<and> rb = [] \<and> h < 24 \<and> m < 60 then Some (go_date (date_of date) h m 0 0 (tloc date)) else None
         | _ \<Rightarrow> None)
    | _ \<Rightarrow> None)"

definition is_pending :: "attendee \<Rightarrow> bool" where
  "is_pending a \<longleftrightarrow> at_self a \<and> \<not> at_organizer a \<and>
     (let status = ToLower (at_status a) in status = ''needsaction'' \<or> status = ''tentative'' \<or> status = ''pending'')"

definition pendingSelfAttendee :: "event \<Rightarrow> attendee option" where
  "pendingSelfAttendee ev = find is_pending (ev_attendees ev)"

text \<open>The time part of the policy, from the line that reads the working window on.\<close>

definition outside_policy :: "Settings \<Rightarrow> gotime \<Rightarrow> gotime \<Rightarrow> bool" where
  "outside_policy s start end' = (case WorkWindow s start of (workStartRaw, workEndRaw, enabled) \<Rightarrow>
     if \<not> enabled then True
     else case policyClock workStartRaw start of
         None \<Rightarrow> False
       | Some workStart \<Rightarrow> (case policyClock workEndRaw start of
           None \<Rightarrow> False
         | Some workEnd \<Rightarrow>
             if Before start workStart \<or> After end' workEnd then True
             else case LunchWindow s start of (lunchStartRaw, lunchEndRaw, lunchEnabled) \<Rightarrow>
               if \<not> lunchEnabled then False
               else case policyClock lunchStartRaw start of
                   None \<Rightarrow> False
                 | Some lunchStart \<Rightarrow> (case policyClock lunchEndRaw start of
                     None \<Rightarrow> False
                   | Some lunchEnd \<Rightarrow> Before start lunchEnd \<and> After end' lunchStart)))"

definition shouldAutoDecline :: "event \<Rightarrow> Settings \<Rightarrow> location \<Rightarrow> bool" where
  "shouldAutoDecline ev s loc =
     (if ev_status ev = ''cancelled'' then False
      else if ev_organizer_self ev = None \<or> ev_organizer_self ev = Some True then False
      else if pendingSelfAttendee ev = None then False
      else case (ev_start ev, ev_end ev) of
          (Some st, Some en) \<Rightarrow>
            if edt_date st \<noteq> '''' \<or> edt_date en \<noteq> '''' \<or> edt_datetime st = '''' \<or> edt_datetime en = '''' then False
            else (case parse_rfc3339 (edt_datetime st) of
                None \<Rightarrow> False
              | Some start \<Rightarrow> (case parse_rfc3339 (edt_datetime en) of
                  None \<Rightarrow> False
                | Some end' \<Rightarrow>
                    if \<not> After end' start then False
                    else outside_policy s (In start loc) (In end' loc)))
        | _ \<Rightarrow> False)"

subsection \<open>The runs\<close>

text \<open>The pending attendee is changed in place, so the event that is sent carries the answer.\<close>

fun answer_declined :: "attendee list \<Rightarrow> attendee list" where
  "answer_declined [] = []"
| "answer_declined (a # as) = (if is_pending a then a\<lparr>at_status := ''declined''\<rparr> # as else a # answer_declined as)"

definition declined_event :: "event \<Rightarrow> event" where
  "declined_event ev = ev\<lparr>ev_attendees := answer_declined (ev_attendees ev)\<rparr>"

record decline_result =
  dr_sent :: "event list"
  dr_count :: nat
  dr_error :: "decline_error option"

definition decline_one :: "decline_env \<Rightarrow> Settings \<Rightarrow> location \<Rightarrow> decline_result \<Rightarrow> event \<Rightarrow> decline_result" where
  "decline_one env s loc r ev =
     (if \<not> shouldAutoDecline ev s loc \<or> pendingSelfAttendee ev = None then r
      else let sent = declined_event ev; r1 = r\<lparr>dr_sent := dr_sent r @ [sent]\<rparr>
           in case dv_decline env (ev_id ev) sent of
               Some e \<Rightarrow> (if dr_error r = None then r1\<lparr>dr_error := Some (Failed e)\<rparr> else r1)
             | None \<Rightarrow> r1\<lparr>dr_count := Suc (dr_count r)\<rparr>)"

definition stop :: "decline_error \<Rightarrow> decline_result" where
  "stop e = \<lparr>dr_sent = [], dr_count = 0, dr_error = Some e\<rparr>"

definition nothing_sent :: decline_result where
  "nothing_sent = \<lparr>dr_sent = [], dr_count = 0, dr_error = None\<rparr>"

definition RunForUser_decline :: "(string \<Rightarrow> location option) \<Rightarrow> bool \<Rightarrow> decline_env \<Rightarrow> uuid \<Rightarrow> gotime \<Rightarrow> decline_result option" where
  "RunForUser_decline tzdb has_db env u now =
     (if \<not> has_db then Some (stop DbRequired)
      else case dv_settings env of
          Inl e \<Rightarrow> Some (stop (Failed e))
        | Inr s \<Rightarrow>
            if \<not> se_auto_decline s then Some nothing_sent
            else if \<not> dv_oauth env then Some (stop OauthRequired)
            else case dv_token env of
                Inl e \<Rightarrow> Some (stop (Failed e))
              | Inr present \<Rightarrow>
                  if \<not> present then Some (stop (NoToken u))
                  else let loc = settingsLocation tzdb (se_timezone s)
                       in (case nextWorkingDaysWindow (In now loc) AutoDeclineWorkingDays of
                          None \<Rightarrow> None
                        | Some (start, end') \<Rightarrow>
                            (case dv_client env of
                               Some e \<Rightarrow> Some (stop (Failed e))
                             | None \<Rightarrow>
                                 (case dv_list env start end' of
                                    Inl e \<Rightarrow> Some (stop (Failed e))
                                  | Inr events \<Rightarrow> Some (foldl (decline_one env s loc) nothing_sent events)))))"

text \<open>
  All users in turn; \<open>cancelled i\<close> is the context's error before user \<open>i\<close>. An error of one user
  does not stop the others and the first one is the answer.
\<close>

fun run_users ::
  "(uuid \<Rightarrow> nat \<Rightarrow> decline_result option) \<Rightarrow> (nat \<Rightarrow> string option) \<Rightarrow> uuid list \<Rightarrow> nat \<Rightarrow> event list \<Rightarrow> decline_error option \<Rightarrow>
    (event list \<times> decline_error option) option" where
  "run_users run cancelled [] i sent firstErr = Some (sent, firstErr)"
| "run_users run cancelled (u # us) i sent firstErr = (case cancelled i of
      Some e \<Rightarrow> Some (sent, Some (Cancelled e))
    | None \<Rightarrow> (case run u i of
        None \<Rightarrow> None
      | Some r \<Rightarrow> run_users run cancelled us (Suc i) (sent @ dr_sent r)
          (if firstErr = None then dr_error r else firstErr)))"

definition RunAll ::
  "(string \<Rightarrow> location option) \<Rightarrow> bool \<Rightarrow> (uuid \<Rightarrow> decline_env) \<Rightarrow> string + uuid list \<Rightarrow> (nat \<Rightarrow> string option) \<Rightarrow> (nat \<Rightarrow> gotime) \<Rightarrow>
    (event list \<times> decline_error option) option" where
  "RunAll tzdb has_db envs users cancelled clock =
     (if \<not> has_db then Some ([], Some DbRequired)
      else case users of
          Inl e \<Rightarrow> Some ([], Some (Failed e))
        | Inr us \<Rightarrow> run_users (\<lambda>u i. RunForUser_decline tzdb has_db (envs u) u (clock i)) cancelled us 0 [] None)"

subsection \<open>The window's end\<close>

text \<open>A zone where every day has its midnight.\<close>

definition has_midnights :: "location \<Rightarrow> bool" where
  "has_midnights l \<longleftrightarrow> (\<forall>d. date_of (go_date d 0 0 0 0 l) = d \<and> clock_sec (go_date d 0 0 0 0 l) = 0)"

lemma has_midnights_UTC: "has_midnights UTC"
  using go_date_UTC [of 0 0 0] by (simp add: has_midnights_def)

lemma next_midnight:
  assumes "has_midnights l"
  shows "AddDays (go_date d 0 0 0 0 l) 1 = go_date (d + 1) 0 0 0 0 l"
proof -
  have "Nanosecond (go_date d 0 0 0 0 l) = 0" by (simp add: Nanosecond_def go_date_def)
  then show ?thesis using assms
    by (simp add: AddDays_def has_midnights_def Hour_def Minute_def Second_def) (simp add: go_date_def)
qed

text \<open>The weekdays from day \<open>a\<close> up to, not including, day \<open>b\<close>.\<close>

definition weekdays :: "int \<Rightarrow> int \<Rightarrow> int" where
  "weekdays a b = int (length (filter (\<lambda>d. isWorkingDay ((d + 4) mod 7)) [a..b - 1]))"

lemma weekdays_split: "a < b \<Longrightarrow> weekdays a b = (if isWorkingDay ((a + 4) mod 7) then 1 else 0) + weekdays (a + 1) b"
  by (simp add: weekdays_def upto_rec1)

lemma weekday_soon: "isWorkingDay ((d + 4) mod 7) \<or> isWorkingDay ((d + 1 + 4) mod 7) \<or> isWorkingDay ((d + 2 + 4) mod 7)"
  unfolding isWorkingDay_def by presburger

lemma window_end_midnight:
  assumes "has_midnights l"
  shows "window_end days counted (go_date d 0 0 0 0 l) =
    (if isWorkingDay ((d + 4) mod 7)
     then (if counted + 1 = days then Some (go_date (d + 1) 0 0 0 0 l) else window_end days (counted + 1) (go_date (d + 1) 0 0 0 0 l))
     else window_end days counted (go_date (d + 1) 0 0 0 0 l))"
  using assms by (subst window_end.simps) (simp add: next_midnight Weekday_def has_midnights_def)

definition ends_window :: "location \<Rightarrow> int \<Rightarrow> int \<Rightarrow> int \<Rightarrow> gotime option \<Rightarrow> bool" where
  "ends_window l d n k r \<longleftrightarrow> (\<exists>e > d. r = Some (go_date e 0 0 0 0 l) \<and> weekdays d e = n \<and> isWorkingDay ((e - 1 + 4) mod 7) \<and> e \<le> d + k)"

lemma ends_window_later:
  assumes "ends_window l (d + 1) n k r" "n' = n + (if isWorkingDay ((d + 4) mod 7) then 1 else 0)" "k' = k + 1"
  shows "ends_window l d n' k' r"
proof -
  obtain e where e: "e > d + 1" "r = Some (go_date e 0 0 0 0 l)" "weekdays (d + 1) e = n" "isWorkingDay ((e - 1 + 4) mod 7)" "e \<le> d + 1 + k"
    using assms(1) by (auto simp: ends_window_def)
  then have "weekdays d e = n'" using weekdays_split [of d e] assms(2) by auto
  then show ?thesis using e assms(3) unfolding ends_window_def by (intro exI [of _ e]) auto
qed

lemma window_end_counts:
  assumes "has_midnights l" "counted < days"
  shows "ends_window l d (days - counted) (3 * (days - counted)) (window_end days counted (go_date d 0 0 0 0 l))"
  using assms(2)
proof (induction "nat (days - counted)" arbitrary: counted d)
  case 0
  then show ?case by simp
next
  case (Suc n)
  note step = window_end_midnight [OF assms(1), of days counted]
  have work: "ends_window l x (days - counted) (3 * (days - counted) - 2) (window_end days counted (go_date x 0 0 0 0 l))"
    if x: "isWorkingDay ((x + 4) mod 7)" for x
  proof (cases "counted + 1 = days")
    case True
    have "weekdays x (x + 1) = 1" using x by (simp add: weekdays_def)
    then show ?thesis using True x step [of x] by (auto simp: ends_window_def add.commute [of 4] intro!: exI [of _ "x + 1"])
  next
    case False
    then have "n = nat (days - (counted + 1))" "counted + 1 < days" using Suc.hyps(2) Suc.prems by auto
    from ends_window_later [OF Suc.hyps(1) [OF this], where d = x and n' = "days - counted" and k' = "3 * (days - counted) - 2"] x False step [of x]
    show ?thesis by simp
  qed
  have weaken: "ends_window l x m k r \<Longrightarrow> k \<le> k' \<Longrightarrow> ends_window l x m k' r" for x m k k' r
    unfolding ends_window_def by force
  consider "isWorkingDay ((d + 4) mod 7)"
    | "\<not> isWorkingDay ((d + 4) mod 7)" "isWorkingDay ((d + 1 + 4) mod 7)"
    | "\<not> isWorkingDay ((d + 4) mod 7)" "\<not> isWorkingDay ((d + 1 + 4) mod 7)" "isWorkingDay ((d + 2 + 4) mod 7)"
    using weekday_soon [of d] by blast
  then show ?case
  proof cases
    case 1
    then show ?thesis by (rule weaken [OF work]) simp
  next
    case 2
    from ends_window_later [OF work [OF 2(2)] refl refl] 2 step [of d] show ?thesis
      by (auto intro: weaken)
  next
    case 3
    have two: "d + 1 + 1 = d + 2" by simp
    have "ends_window l (d + 1) (days - counted) (3 * (days - counted) - 1) (window_end days counted (go_date (d + 1) 0 0 0 0 l))"
      using ends_window_later [where d = "d + 1", unfolded two, OF work [OF 3(3)] refl refl] 3(2) step [of "d + 1"] by (simp add: add.commute)
    from ends_window_later [OF this refl refl] 3 step [of d] show ?thesis by simp
  qed
qed

text \<open>
  The search for the end of the scanned window returns in every zone
  that has a midnight each day: the window ends at the midnight after a weekday, at most three
  days later per weekday asked for, and the days from the start up to that end hold exactly
  the number of weekdays asked for, the first day included.
\<close>

theorem decline_window_ends:
  assumes "has_midnights (tloc now)" "0 < days"
  shows "\<exists>e. nextWorkingDaysWindow now days = Some (now, go_date e 0 0 0 0 (tloc now)) \<and>
    date_of now < e \<and> e \<le> date_of now + 3 * days \<and> weekdays (date_of now) e = days \<and> isWorkingDay ((e - 1 + 4) mod 7)"
  using window_end_counts [OF assms(1), of 0 days "date_of now"] assms(2)
  by (auto simp: nextWorkingDaysWindow_def ends_window_def)

theorem decline_window_ends_witness:
  "has_midnights UTC \<and> (\<exists>e. nextWorkingDaysWindow (go_date 20458 15 30 0 0 UTC) 10 = Some (go_date 20458 15 30 0 0 UTC, go_date e 0 0 0 0 UTC) \<and>
     20458 < e \<and> e \<le> 20488 \<and> weekdays 20458 e = 10)"
proof -
  have "tloc (go_date 20458 15 30 0 0 UTC) = UTC" "date_of (go_date 20458 15 30 0 0 UTC) = 20458" by code_simp+
  then show ?thesis using decline_window_ends [of "go_date 20458 15 30 0 0 UTC" 10] has_midnights_UTC by auto
qed

subsection \<open>What is declined\<close>

text \<open>An invitation the policy is about: someone else's, not cancelled, timed, still open.\<close>

definition open_invitation :: "event \<Rightarrow> bool" where
  "open_invitation ev \<longleftrightarrow> ev_status ev \<noteq> ''cancelled'' \<and> ev_organizer_self ev = Some False \<and> list_ex is_pending (ev_attendees ev) \<and>
     (case (ev_start ev, ev_end ev) of
        (Some st, Some en) \<Rightarrow> edt_date st = '''' \<and> edt_date en = '''' \<and> edt_datetime st \<noteq> '''' \<and> edt_datetime en \<noteq> ''''
      | _ \<Rightarrow> False)"

lemma pendingSelfAttendee_None: "pendingSelfAttendee ev = None \<longleftrightarrow> \<not> list_ex is_pending (ev_attendees ev)"
  by (auto simp: pendingSelfAttendee_def find_None_iff list_ex_iff)

text \<open>The times an invitation is judged by, in the user's zone.\<close>

definition judged_times :: "event \<Rightarrow> location \<Rightarrow> (gotime \<times> gotime) option" where
  "judged_times ev loc = (case event_times ev of
      None \<Rightarrow> None
    | Some (a, b) \<Rightarrow> if ns a < ns b then Some (In a loc, In b loc) else None)"

lemma shouldAutoDecline_iff:
  "shouldAutoDecline ev s loc \<longleftrightarrow> open_invitation ev \<and> (\<exists>a b. judged_times ev loc = Some (a, b) \<and> outside_policy s a b)"
  by (auto simp: shouldAutoDecline_def open_invitation_def judged_times_def event_times_def pendingSelfAttendee_None time_cmp_defs
      split: option.splits if_splits)

lemma decline_one_if:
  "decline_one env s loc r ev =
     (if shouldAutoDecline ev s loc
      then r\<lparr>dr_sent := dr_sent r @ [declined_event ev],
             dr_count := dr_count r + (if dv_decline env (ev_id ev) (declined_event ev) = None then 1 else 0),
             dr_error := (if dr_error r = None then map_option Failed (dv_decline env (ev_id ev) (declined_event ev)) else dr_error r)\<rparr>
      else r)"
proof -
  have "shouldAutoDecline ev s loc \<Longrightarrow> pendingSelfAttendee ev \<noteq> None"
    by (auto simp: shouldAutoDecline_def split: if_splits)
  then show ?thesis by (auto simp: decline_one_def Let_def split: option.splits)
qed

text \<open>The first of the answers that is an error.\<close>

definition first_refusal :: "string option list \<Rightarrow> decline_error option" where
  "first_refusal os = (case find (\<lambda>x. x \<noteq> None) os of Some (Some e) \<Rightarrow> Some (Failed e) | _ \<Rightarrow> None)"

lemma first_refusal_Cons: "first_refusal (x # xs) = (case x of Some e \<Rightarrow> Some (Failed e) | None \<Rightarrow> first_refusal xs)"
  by (auto simp: first_refusal_def split: option.splits)

definition answers :: "decline_env \<Rightarrow> event list \<Rightarrow> string option list" where
  "answers env evs = map (\<lambda>ev. dv_decline env (ev_id ev) (declined_event ev)) evs"

lemma decline_fold:
  "foldl (decline_one env s loc) r events =
     (let due = filter (\<lambda>ev. shouldAutoDecline ev s loc) events
      in r\<lparr>dr_sent := dr_sent r @ map declined_event due,
           dr_count := dr_count r + length (filter (\<lambda>x. x = None) (answers env due)),
           dr_error := (if dr_error r = None then first_refusal (answers env due) else dr_error r)\<rparr>)"
proof (induction events arbitrary: r)
  case Nil
  then show ?case by (simp add: answers_def first_refusal_def)
next
  case (Cons ev events)
  then show ?case
    by (auto simp: decline_one_if answers_def Let_def first_refusal_Cons split: option.splits)
qed

lemma answer_declined_only:
  "list_ex is_pending as \<Longrightarrow> \<exists>pre a post. as = pre @ a # post \<and> is_pending a \<and> answer_declined as = pre @ a\<lparr>at_status := ''declined''\<rparr> # post"
proof (induction as)
  case (Cons b as)
  show ?case
  proof (cases "is_pending b")
    case True
    then show ?thesis by (intro exI [of _ "[]"] exI [of _ b] exI [of _ as]) simp
  next
    case False
    then obtain pre a post where "as = pre @ a # post" "is_pending a" "answer_declined as = pre @ a\<lparr>at_status := ''declined''\<rparr> # post"
      using Cons by auto
    then show ?thesis using False by (intro exI [of _ "b # pre"] exI [of _ a] exI [of _ post]) simp
  qed
qed simp

text \<open>
  C14. A run for a user who asked for it, with a calendar that
  answers, sends one decline for each open invitation of the window that the policy puts
  outside the working hours or into lunch, and nothing else, in the order of the calendar. Each
  event sent differs from the calendar's only in the answer of one attendee, the user's own
  pending entry. A refused decline does not stop the rest: the count is that of the accepted
  ones and the error is the first refusal.
\<close>

theorem declines_exactly_the_due:
  assumes "has_midnights loc" "loc = settingsLocation tzdb (se_timezone s)"
    and "dv_settings env = Inr s" "se_auto_decline s" "dv_oauth env" "dv_token env = Inr True" "dv_client env = None"
    and "\<And>a b. dv_list env a b = Inr events"
  shows "\<exists>r due. RunForUser_decline tzdb True env u now = Some r \<and>
    due = filter (\<lambda>ev. open_invitation ev \<and> (case judged_times ev loc of Some (a, b) \<Rightarrow> outside_policy s a b | None \<Rightarrow> False)) events \<and>
    dr_sent r = map declined_event due \<and>
    (\<forall>ev \<in> set due. \<exists>pre a post. ev_attendees ev = pre @ a # post \<and> is_pending a \<and>
       declined_event ev = ev\<lparr>ev_attendees := pre @ a\<lparr>at_status := ''declined''\<rparr> # post\<rparr>) \<and>
    dr_count r = length (filter (\<lambda>x. x = None) (answers env due)) \<and> dr_error r = first_refusal (answers env due)"
proof -
  let ?due = "filter (\<lambda>ev. open_invitation ev \<and> (case judged_times ev loc of Some (a, b) \<Rightarrow> outside_policy s a b | None \<Rightarrow> False)) events"
  have due: "shouldAutoDecline ev s loc \<longleftrightarrow> open_invitation ev \<and> (case judged_times ev loc of Some (a, b) \<Rightarrow> outside_policy s a b | None \<Rightarrow> False)" for ev
    by (auto simp: shouldAutoDecline_iff split: option.splits)
  obtain e where w: "nextWorkingDaysWindow (In now loc) AutoDeclineWorkingDays = Some (In now loc, go_date e 0 0 0 0 loc)"
    using window_end_counts [OF assms(1), of 0 AutoDeclineWorkingDays "date_of (In now loc)"]
    by (auto simp: nextWorkingDaysWindow_def AutoDeclineWorkingDays_def ends_window_def In_def)
  have run: "RunForUser_decline tzdb True env u now = Some (foldl (decline_one env s loc) nothing_sent events)"
    using assms(3-8) w by (simp add: RunForUser_decline_def Let_def assms(2) [symmetric])
  have sent: "\<exists>pre a post. ev_attendees ev = pre @ a # post \<and> is_pending a \<and>
       declined_event ev = ev\<lparr>ev_attendees := pre @ a\<lparr>at_status := ''declined''\<rparr> # post\<rparr>" if "ev \<in> set ?due" for ev
  proof -
    have "list_ex is_pending (ev_attendees ev)" using that by (simp add: open_invitation_def)
    from answer_declined_only [OF this] show ?thesis by (auto simp: declined_event_def) blast
  qed
  show ?thesis unfolding run decline_fold Let_def due
    using sent by (intro exI [of _ ?due] exI conjI) (auto simp: nothing_sent_def)
qed


text \<open>Two invitations of a Monday, one at eight in the evening and one at ten in the morning.\<close>

definition ex_invite :: "string \<Rightarrow> string \<Rightarrow> string \<Rightarrow> event" where
  "ex_invite i a b = empty_event\<lparr>ev_id := i, ev_organizer_self := Some False,
     ev_start := Some \<lparr>edt_datetime = a, edt_date = ''''\<rparr>, ev_end := Some \<lparr>edt_datetime = b, edt_date = ''''\<rparr>,
     ev_attendees := [\<lparr>at_email = ''me@x.org'', at_self = True, at_organizer = False, at_status = ''needsAction''\<rparr>]\<rparr>"

definition ex_late :: event where "ex_late = ex_invite ''late'' ''2026-01-05T20:00:00Z'' ''2026-01-05T21:00:00Z''"
definition ex_morning :: event where "ex_morning = ex_invite ''morning'' ''2026-01-05T10:00:00Z'' ''2026-01-05T11:00:00Z''"

definition ex_decline :: decline_env where
  "ex_decline = \<lparr>dv_settings = Inr (default_settings\<lparr>se_auto_decline := True\<rparr>), dv_oauth = True, dv_token = Inr True, dv_client = None,
     dv_list = (\<lambda>_ _. Inr [ex_late, ex_morning]), dv_decline = (\<lambda>_ _. None)\<rparr>"

lemma ex_due:
  "filter (\<lambda>ev. open_invitation ev \<and> (case judged_times ev UTC of Some (a, b) \<Rightarrow> outside_policy (default_settings\<lparr>se_auto_decline := True\<rparr>) a b | None \<Rightarrow> False))
     [ex_late, ex_morning] = [ex_late]"
  by code_simp

theorem declines_exactly_the_due_witness:
  "\<exists>r. RunForUser_decline (\<lambda>_. None) True ex_decline 7 (go_date 20458 9 0 0 0 UTC) = Some r \<and> dr_sent r = [declined_event ex_late] \<and>
     dr_count r = 1 \<and> dr_error r = None"
proof -
  have "UTC = settingsLocation (\<lambda>_. None) (se_timezone (default_settings\<lparr>se_auto_decline := True\<rparr>))"
    "dv_settings ex_decline = Inr (default_settings\<lparr>se_auto_decline := True\<rparr>)" "se_auto_decline (default_settings\<lparr>se_auto_decline := True\<rparr>)"
    "dv_oauth ex_decline" "dv_token ex_decline = Inr True" "dv_client ex_decline = None" "dv_list ex_decline a b = Inr [ex_late, ex_morning]" for a b
    by (simp_all add: ex_decline_def settingsLocation_def default_settings_def LoadLocation_def)
  from declines_exactly_the_due [OF has_midnights_UTC this, of 7 "go_date 20458 9 0 0 0 UTC"]
  show ?thesis unfolding ex_due by (auto simp: answers_def ex_decline_def first_refusal_def)
qed

end
