(* ===== verification/HabitStore.thy ===== *)
theory HabitStore
  imports Rfc3339
begin

section \<open>HabitStore: habits and their occurrences\<close>

text \<open>
  \<^verbatim>\<open>backend/storage/habits.go\<close>: the tables \<^verbatim>\<open>habits\<close> and \<^verbatim>\<open>habit_occurrences\<close> with every statement of
  the file. The window columns have the type \<^verbatim>\<open>TIME\<close> and come back with their seconds, as the
  test of the scheduling links records (\<open>time_column\<close>). The date of an occurrence is scanned
  into a string, which \<^verbatim>\<open>database/sql\<close> fills with RFC 3339 text, as the comment of
  \<^verbatim>\<open>calendarDate\<close> in \<^verbatim>\<open>backend/storage/analytics.go\<close> says, and is then read as a plain date, whose
  error is dropped. Ids and the clock of new rows are arguments.
\<close>

record Habit =
  hb_id :: uuid
  hb_user :: uuid
  hb_title :: string
  hb_duration :: int
  hb_days :: "int list"
  hb_window_start :: string
  hb_window_end :: string
  hb_priority :: int
  hb_color :: string
  hb_active :: bool
  hb_created_at :: int

record HabitOccurrence =
  oc_id :: uuid
  oc_habit :: uuid
  oc_date :: gotime
  oc_start :: gotime
  oc_end :: gotime
  oc_status :: string
  oc_event :: string
  oc_created_at :: int

text \<open>A stored occurrence; its date is a day number.\<close>

record occ_row =
  or_id :: uuid
  or_habit :: uuid
  or_date :: int
  or_start :: gotime
  or_end :: gotime
  or_status :: string
  or_event :: string
  or_created_at :: int

record habit_db =
  t_habits :: "Habit list"
  t_occurrences :: "occ_row list"

definition date_column :: "int \<Rightarrow> string" where
  "date_column d = format_date d @ ''T00:00:00Z''"

subsection \<open>Statements\<close>

definition CreateHabit :: "uuid \<Rightarrow> int \<Rightarrow> Habit \<Rightarrow> habit_db \<Rightarrow> habit_db \<times> Habit" where
  "CreateHabit newid now h db =
     (let row = h\<lparr>hb_id := newid, hb_window_start := time_column (hb_window_start h), hb_window_end := time_column (hb_window_end h),
                  hb_active := True, hb_created_at := now\<rparr>
      in (db\<lparr>t_habits := t_habits db @ [row]\<rparr>, row))"

definition GetHabitByID :: "habit_db \<Rightarrow> uuid \<Rightarrow> Habit option" where
  "GetHabitByID db i = find (\<lambda>h. hb_id h = i) (t_habits db)"

text \<open>\<^verbatim>\<open>ORDER BY priority DESC, created_at ASC\<close>; rows that agree in both keep the order of the table.\<close>

definition by_priority :: "Habit list \<Rightarrow> Habit list" where
  "by_priority hs = sort_key (\<lambda>h. - hb_priority h) (sort_key hb_created_at hs)"

definition ListHabitsByUser :: "habit_db \<Rightarrow> uuid \<Rightarrow> Habit list" where
  "ListHabitsByUser db u = by_priority (filter (\<lambda>h. hb_user h = u) (t_habits db))"

definition ListActiveHabitsByUser :: "habit_db \<Rightarrow> uuid \<Rightarrow> Habit list" where
  "ListActiveHabitsByUser db u = by_priority (filter (\<lambda>h. hb_user h = u \<and> hb_active h) (t_habits db))"

definition UpdateHabit :: "uuid \<Rightarrow> Habit \<Rightarrow> habit_db \<Rightarrow> habit_db \<times> Habit option" where
  "UpdateHabit i new db =
     (let set_row = (\<lambda>h. if hb_id h = i
          then h\<lparr>hb_title := hb_title new, hb_duration := hb_duration new, hb_days := hb_days new,
                 hb_window_start := time_column (hb_window_start new), hb_window_end := time_column (hb_window_end new),
                 hb_priority := hb_priority new, hb_color := hb_color new, hb_active := hb_active new\<rparr>
          else h);
          db' = db\<lparr>t_habits := map set_row (t_habits db)\<rparr>
      in (db', GetHabitByID db' i))"

definition DeactivateHabit :: "uuid \<Rightarrow> habit_db \<Rightarrow> habit_db" where
  "DeactivateHabit i db = db\<lparr>t_habits := map (\<lambda>h. if hb_id h = i then h\<lparr>hb_active := False\<rparr> else h) (t_habits db)\<rparr>"

definition scan_date :: "int \<Rightarrow> gotime" where
  "scan_date d = (case parse_dateonly (date_column d) of Some n \<Rightarrow> go_date n 0 0 0 0 UTC | None \<Rightarrow> zero_time)"

definition scanOccurrence :: "occ_row \<Rightarrow> HabitOccurrence" where
  "scanOccurrence r = \<lparr>oc_id = or_id r, oc_habit = or_habit r, oc_date = scan_date (or_date r), oc_start = or_start r,
     oc_end = or_end r, oc_status = or_status r, oc_event = or_event r, oc_created_at = or_created_at r\<rparr>"

definition same_day :: "uuid \<Rightarrow> int \<Rightarrow> occ_row \<Rightarrow> bool" where
  "same_day h d r \<longleftrightarrow> or_habit r = h \<and> or_date r = d"

text \<open>Instants are stored and read back in UTC. The parameter gives the new row's id and instant.\<close>

definition UpsertHabitOccurrence :: "uuid \<Rightarrow> int \<Rightarrow> HabitOccurrence \<Rightarrow> habit_db \<Rightarrow> habit_db" where
  "UpsertHabitOccurrence newid now o' db =
     (let h = oc_habit o'; d = date_of (oc_date o');
          put = (\<lambda>r. r\<lparr>or_start := In (oc_start o') UTC, or_end := In (oc_end o') UTC, or_status := oc_status o', or_event := oc_event o'\<rparr>)
      in db\<lparr>t_occurrences :=
           (if list_ex (same_day h d) (t_occurrences db)
            then map (\<lambda>r. if same_day h d r then put r else r) (t_occurrences db)
            else t_occurrences db @ [put \<lparr>or_id = newid, or_habit = h, or_date = d, or_start = zero_time, or_end = zero_time,
                   or_status = '''', or_event = '''', or_created_at = now\<rparr>])\<rparr>)"

definition ListHabitOccurrences :: "habit_db \<Rightarrow> uuid \<Rightarrow> int \<Rightarrow> int \<Rightarrow> HabitOccurrence list" where
  "ListHabitOccurrences db h from to =
     map scanOccurrence (sort_key or_date (filter (\<lambda>r. or_habit r = h \<and> from \<le> or_date r \<and> or_date r \<le> to) (t_occurrences db)))"

definition UpdateHabitOccurrenceStatus :: "uuid \<Rightarrow> uuid \<Rightarrow> uuid \<Rightarrow> string \<Rightarrow> habit_db \<Rightarrow> habit_db \<times> HabitOccurrence option" where
  "UpdateHabitOccurrenceStatus occ h u status db =
     (let hit = (\<lambda>r. or_id r = occ \<and> or_habit r = h \<and> list_ex (\<lambda>hb. hb_id hb = h \<and> hb_user hb = u) (t_habits db));
          db' = db\<lparr>t_occurrences := map (\<lambda>r. if hit r then r\<lparr>or_status := status\<rparr> else r) (t_occurrences db)\<rparr>
      in (db', map_option scanOccurrence (find hit (t_occurrences db'))))"

definition ListScheduledOccurrencesForDay :: "habit_db \<Rightarrow> uuid \<Rightarrow> gotime \<Rightarrow> HabitOccurrence list" where
  "ListScheduledOccurrencesForDay db u date =
     map scanOccurrence (filter (\<lambda>r. or_date r = date_of date \<and> or_status r = ''scheduled'' \<and>
        list_ex (\<lambda>hb. hb_id hb = or_habit r \<and> hb_user hb = u) (t_habits db)) (t_occurrences db))"

subsection \<open>The unique key\<close>

definition habits_ok :: "habit_db \<Rightarrow> bool" where
  "habits_ok db \<longleftrightarrow> distinct (map hb_id (t_habits db)) \<and> distinct (map (\<lambda>r. (or_habit r, or_date r)) (t_occurrences db))"

text \<open>The row of a habit on a date.\<close>

definition occ_at :: "habit_db \<Rightarrow> uuid \<Rightarrow> int \<Rightarrow> occ_row option" where
  "occ_at db h d = find (same_day h d) (t_occurrences db)"

lemma Upsert_ok: "habits_ok db \<Longrightarrow> habits_ok (UpsertHabitOccurrence i now o' db)"
proof -
  assume ok: "habits_ok db"
  let ?h = "oc_habit o'" and ?d = "date_of (oc_date o')"
  have keys: "map (\<lambda>r. (or_habit r, or_date r)) (map (\<lambda>r. if same_day ?h ?d r
        then r\<lparr>or_start := In (oc_start o') UTC, or_end := In (oc_end o') UTC, or_status := oc_status o', or_event := oc_event o'\<rparr> else r) rs) =
      map (\<lambda>r. (or_habit r, or_date r)) rs" for rs
    by (induction rs) auto
  show ?thesis
  proof (cases "list_ex (same_day ?h ?d) (t_occurrences db)")
    case True
    then show ?thesis using ok by (simp add: habits_ok_def UpsertHabitOccurrence_def Let_def keys del: map_map)
  next
    case False
    then show ?thesis using ok by (auto simp: habits_ok_def UpsertHabitOccurrence_def Let_def list_ex_iff same_day_def)
  qed
qed

lemma Upsert_habits [simp]: "t_habits (UpsertHabitOccurrence i now o' db) = t_habits db"
  by (simp add: UpsertHabitOccurrence_def Let_def)

lemma occ_at_upsert:
  "occ_at (UpsertHabitOccurrence i now o' db) h d =
     (if h = oc_habit o' \<and> d = date_of (oc_date o')
      then Some ((case occ_at db h d of
             Some r \<Rightarrow> r
           | None \<Rightarrow> \<lparr>or_id = i, or_habit = h, or_date = d, or_start = zero_time, or_end = zero_time,
               or_status = '''', or_event = '''', or_created_at = now\<rparr>)
         \<lparr>or_start := In (oc_start o') UTC, or_end := In (oc_end o') UTC, or_status := oc_status o', or_event := oc_event o'\<rparr>)
      else occ_at db h d)"
proof -
  let ?put = "\<lambda>r. r\<lparr>or_start := In (oc_start o') UTC, or_end := In (oc_end o') UTC, or_status := oc_status o', or_event := oc_event o'\<rparr>"
  let ?hit = "same_day (oc_habit o') (date_of (oc_date o'))"
  let ?f = "\<lambda>r. if ?hit r then ?put r else r"
  have find_f: "find (same_day h d) (map ?f rs) = map_option ?f (find (same_day h d) rs)" for rs
    by (rule find_map_same) (auto simp: same_day_def)
  show ?thesis
  proof (cases "list_ex ?hit (t_occurrences db)")
    case True
    then have "occ_at db (oc_habit o') (date_of (oc_date o')) \<noteq> None"
      by (auto simp: occ_at_def find_None_iff list_ex_iff)
    then obtain r where r: "occ_at db (oc_habit o') (date_of (oc_date o')) = Some r" by auto
    have "occ_at (UpsertHabitOccurrence i now o' db) h d = map_option ?f (occ_at db h d)"
      using True find_f by (simp add: UpsertHabitOccurrence_def Let_def occ_at_def)
    moreover have "?hit r" using r by (auto simp: occ_at_def find_Some_iff)
    moreover have "\<not> ?hit r'" if "occ_at db h d = Some r'" "h \<noteq> oc_habit o' \<or> d \<noteq> date_of (oc_date o')" for r'
      using that by (auto simp: occ_at_def find_Some_iff same_day_def)
    ultimately show ?thesis using r by (cases "occ_at db h d") auto
  next
    case False
    then have "occ_at db (oc_habit o') (date_of (oc_date o')) = None"
      by (auto simp: occ_at_def find_None_iff list_ex_iff)
    moreover have "find P (xs @ [y]) = (case find P xs of Some z \<Rightarrow> Some z | None \<Rightarrow> if P y then Some y else None)"
      for P :: "occ_row \<Rightarrow> bool" and xs y by (induction xs) auto
    ultimately show ?thesis using False
      by (auto simp: UpsertHabitOccurrence_def Let_def occ_at_def same_day_def split: option.splits)
  qed
qed

subsection \<open>Dates that read as zero\<close>

lemma get_date_rest: "get_date s = Some (x, r) \<Longrightarrow> length s = length r + 10"
  by (auto simp: get_date_def get4_def get2_def expect_def split: bind_splits if_splits list.splits)

lemma scan_date_zero: "scan_date d = zero_time"
proof -
  have "parse_dateonly (date_column d) = None"
  proof (rule ccontr)
    assume "parse_dateonly (date_column d) \<noteq> None"
    then obtain x where "get_date (date_column d) = Some (x, [])"
      by (auto simp: parse_dateonly_def split: bind_splits if_splits)
    from get_date_rest [OF this] have "length (date_column d) = 10" by simp
    moreover have "length (date_column d) \<ge> 16"
      by (simp add: date_column_def format_date_def pad2_def split: prod.splits)
    ultimately show False by simp
  qed
  then show ?thesis by (simp add: scan_date_def)
qed

end
