(* ===== verification/Habits.thy ===== *)
theory Habits
  imports HabitStore FocusTime
begin

section \<open>Habits: placing recurring habits\<close>

text \<open>
  \<^verbatim>\<open>backend/engine/habits.go\<close>: for each of the next fourteen days the active habits are taken in
  priority order; an occurrence that still fits stays, any other habit of the day gets the
  first free slot of its window, or counts as missed. The calendar, the settings read and the
  failures of the storage are the environment \<open>habit_env\<close>; errors of the storage are dropped, as
  the code drops them. The state holds the tables, the day's busy time and the events created.
  \<^verbatim>\<open>mergeIntervals\<close> sorts the code's slice in place; the model keeps the order of insertion, which no
  reader of the merged time can tell.
\<close>

record habit_env =
  hv_settings :: "Settings option"
  hv_connected :: bool
  hv_list :: "gotime \<Rightarrow> gotime \<Rightarrow> string + event list"
  hv_create :: "nat \<Rightarrow> event \<Rightarrow> string option"
  hv_focus :: "FocusRow list"
  hv_focus_fails :: bool
  hv_read_fails :: "uuid \<Rightarrow> int \<Rightarrow> bool"
  hv_write_fails :: "uuid \<Rightarrow> int \<Rightarrow> bool"
  hv_new_id :: "uuid \<Rightarrow> int \<Rightarrow> uuid"
  hv_now :: int

record habit_state =
  hs_db :: habit_db
  hs_busy :: "interval list"
  hs_sent :: "event list"
  hs_creates :: nat

subsection \<open>The source's functions\<close>

definition parseHabitTime :: "string \<Rightarrow> gotime \<Rightarrow> gotime" where
  "parseHabitTime hhmm day = parseTime hhmm day"

definition containsInt :: "int list \<Rightarrow> int \<Rightarrow> bool" where
  "containsInt xs v = list_ex (\<lambda>x. x = v) xs"

definition habitWeekday :: "gotime \<Rightarrow> int" where
  "habitWeekday day = (if Weekday day = 0 then 7 else Weekday day)"

definition habitColorID :: "string \<Rightarrow> string" where
  "habitColorID hex =
     (if hex = ''#5B7FFF'' then ''9'' else if hex = ''#E9B949'' then ''5'' else if hex = ''#9B7AE0'' then ''3'' else ''8'')"

definition habit_event :: "Habit \<Rightarrow> interval \<Rightarrow> event" where
  "habit_event h iv = empty_event\<lparr>ev_summary := hb_title h, ev_transparency := ''opaque'',
     ev_start := at_time (istart iv), ev_end := at_time (iend iv), ev_color := habitColorID (hb_color h)\<rparr>"

text \<open>The id of the created event, empty when the calendar refuses it.\<close>

definition createHabitEvent :: "habit_env \<Rightarrow> Habit \<Rightarrow> interval \<Rightarrow> habit_state \<Rightarrow> habit_state \<times> string" where
  "createHabitEvent env h iv st =
     (let ev = habit_event h iv; n = hs_creates st
      in case hv_create env n ev of
           None \<Rightarrow> (st\<lparr>hs_creates := Suc n\<rparr>, '''')
         | Some i \<Rightarrow> (st\<lparr>hs_creates := Suc n, hs_sent := hs_sent st @ [ev]\<rparr>, i))"

definition existingOccurrence :: "habit_env \<Rightarrow> habit_db \<Rightarrow> uuid \<Rightarrow> gotime \<Rightarrow> HabitOccurrence option" where
  "existingOccurrence env db h day =
     (if hv_read_fails env h (date_of day) then None
      else case ListHabitOccurrences db h (date_of day) (date_of day) of [] \<Rightarrow> None | o' # _ \<Rightarrow> Some o')"

definition upsert :: "habit_env \<Rightarrow> HabitOccurrence \<Rightarrow> habit_state \<Rightarrow> habit_state" where
  "upsert env o' st =
     (let h = oc_habit o'; d = date_of (oc_date o')
      in if hv_write_fails env h d then st
         else st\<lparr>hs_db := UpsertHabitOccurrence (hv_new_id env h d) (hv_now env) o' (hs_db st)\<rparr>)"

definition occurrence :: "uuid \<Rightarrow> gotime \<Rightarrow> interval \<Rightarrow> string \<Rightarrow> string \<Rightarrow> HabitOccurrence" where
  "occurrence h day iv status ev = \<lparr>oc_id = 0, oc_habit = h, oc_date = day, oc_start = istart iv, oc_end = iend iv,
     oc_status = status, oc_event = ev, oc_created_at = 0\<rparr>"

text \<open>The slot search of a habit and what becomes of it.\<close>

definition habit_slot :: "Habit \<Rightarrow> gotime \<Rightarrow> interval list \<Rightarrow> interval option" where
  "habit_slot h day busy =
     findFirstSlot (parseHabitTime (hb_window_start h) day) (parseHabitTime (hb_window_end h) day)
       (hb_duration h * minute_ns) (mergeIntervals busy)"

definition missed_slot :: "Habit \<Rightarrow> gotime \<Rightarrow> interval" where
  "missed_slot h day = (let ws = parseHabitTime (hb_window_start h) day in ivl ws (Add ws (hb_duration h * minute_ns)))"

definition place_habit :: "habit_env \<Rightarrow> gotime \<Rightarrow> Habit \<Rightarrow> habit_state \<Rightarrow> habit_state" where
  "place_habit env day h st = (case habit_slot h day (hs_busy st) of
      None \<Rightarrow> upsert env (occurrence (hb_id h) day (missed_slot h day) ''missed'' '''') st
    | Some iv \<Rightarrow>
        let (st1, ident) = (if hv_connected env then createHabitEvent env h iv st else (st, ''''));
            st2 = upsert env (occurrence (hb_id h) day iv ''scheduled'' ident) st1
        in st2\<lparr>hs_busy := hs_busy st2 @ [iv]\<rparr>)"

definition occ_ivl :: "HabitOccurrence \<Rightarrow> interval" where
  "occ_ivl o' = ivl (oc_start o') (oc_end o')"

definition habit_step :: "habit_env \<Rightarrow> gotime \<Rightarrow> habit_state \<Rightarrow> Habit \<Rightarrow> habit_state" where
  "habit_step env day st h =
     (if \<not> containsInt (hb_days h) (habitWeekday day) then st
      else case existingOccurrence env (hs_db st) (hb_id h) day of
          None \<Rightarrow> place_habit env day h st
        | Some o' \<Rightarrow>
            if oc_status o' = ''completed'' then st\<lparr>hs_busy := hs_busy st @ [occ_ivl o']\<rparr>
            else if oc_status o' = ''scheduled''
            then (if \<not> overlapsMerged (occ_ivl o') (mergeIntervals (hs_busy st)) then st\<lparr>hs_busy := hs_busy st @ [occ_ivl o']\<rparr>
                  else place_habit env day h (upsert env (o'\<lparr>oc_status := ''displaced''\<rparr>) st))
            else place_habit env day h st)"

definition opaque_times :: "event \<Rightarrow> interval option" where
  "opaque_times ev =
     (if ev_transparency ev = ''transparent'' then None
      else case parseEventTime ev of (a, b) \<Rightarrow> if \<not> IsZero a \<and> \<not> IsZero b then Some (ivl a b) else None)"

text \<open>The day's busy time before any habit: meetings with their buffers, lunch and focus blocks.\<close>

definition calendar_part :: "(string \<Rightarrow> location option) \<Rightarrow> habit_env \<Rightarrow> gotime \<Rightarrow> interval list" where
  "calendar_part tzdb env day =
     (let dayStart = go_date (date_of day) 0 0 0 0 (tloc day)
      in if \<not> hv_connected env then []
         else case hv_list env dayStart (Add dayStart day_ns) of
             Inl e \<Rightarrow> []
           | Inr events \<Rightarrow> List.map_filter opaque_times events @
               (case hv_settings env of
                  None \<Rightarrow> []
                | Some s \<Rightarrow>
                    let loc = location_or_utc tzdb (se_timezone s)
                    in case WorkWindow s (In day loc) of (wsRaw, weRaw, on) \<Rightarrow>
                         if on then ComputeBufferBlocks events s (parseHHMM wsRaw day loc) (parseHHMM weRaw day loc) else []))"

definition lunch_part :: "(string \<Rightarrow> location option) \<Rightarrow> habit_env \<Rightarrow> gotime \<Rightarrow> interval list" where
  "lunch_part tzdb env day = (case hv_settings env of
      None \<Rightarrow> []
    | Some s \<Rightarrow> lunch_interval s day (location_or_utc tzdb (se_timezone s)))"

definition focus_part :: "habit_env \<Rightarrow> uuid \<Rightarrow> gotime \<Rightarrow> interval list" where
  "focus_part env u day =
     (if hv_focus_fails env then []
      else map (\<lambda>fb. ivl (fb_start fb) (fb_end fb))
        (filter (\<lambda>fb. date_of (fb_start fb) = date_of day) (ListFocusBlocksForUserWeek (hv_focus env) u day)))"

definition day_busy :: "(string \<Rightarrow> location option) \<Rightarrow> habit_env \<Rightarrow> uuid \<Rightarrow> gotime \<Rightarrow> interval list" where
  "day_busy tzdb env u day = calendar_part tzdb env day @ lunch_part tzdb env day @ focus_part env u day"

definition scheduleDay ::
  "(string \<Rightarrow> location option) \<Rightarrow> habit_env \<Rightarrow> uuid \<Rightarrow> Habit list \<Rightarrow> habit_state \<Rightarrow> gotime \<Rightarrow> habit_state" where
  "scheduleDay tzdb env u habits st day =
     foldl (habit_step env day) (st\<lparr>hs_busy := day_busy tzdb env u day\<rparr>) habits"

definition ReoptimizeAll ::
  "(string \<Rightarrow> location option) \<Rightarrow> habit_env \<Rightarrow> string option \<Rightarrow> uuid \<Rightarrow> gotime \<Rightarrow> habit_state \<Rightarrow> habit_state \<times> string option" where
  "ReoptimizeAll tzdb env list_error u clock st = (case list_error of
      Some e \<Rightarrow> (st, Some (''list habits: '' @ e))
    | None \<Rightarrow>
        let habits = ListActiveHabitsByUser (hs_db st) u;
            now = (case hv_settings env of
                None \<Rightarrow> clock
              | Some s \<Rightarrow> (case LoadLocation tzdb (se_timezone s) of None \<Rightarrow> clock | Some loc \<Rightarrow> In clock loc))
        in (foldl (scheduleDay tzdb env u habits) st (map (\<lambda>i. AddDays now (int i)) [0..<14]), None))"

subsection \<open>Greedy placement\<close>

text \<open>
  The abstract algorithm: items are taken in order, each is offered the busy time so far, a
  chosen interval becomes busy, and an item without one may still add time of its own.
\<close>

fun placed :: "('h \<Rightarrow> interval list \<Rightarrow> interval option) \<Rightarrow> ('h \<Rightarrow> interval list) \<Rightarrow> 'h list \<Rightarrow> interval list \<Rightarrow> ('h \<times> interval) list" where
  "placed pick extra [] busy = []"
| "placed pick extra (h # hs) busy = (case pick h busy of
      Some iv \<Rightarrow> (h, iv) # placed pick extra hs (busy @ [iv])
    | None \<Rightarrow> placed pick extra hs (busy @ extra h))"

text \<open>The contract of a choice: it never meets the busy time it was offered.\<close>

locale slot_chooser =
  fixes pick :: "'h \<Rightarrow> interval list \<Rightarrow> interval option"
    and extra :: "'h \<Rightarrow> interval list"
  assumes pick_free: "pick h busy = Some iv \<Longrightarrow> \<not> overlapsMerged iv (mergeIntervals busy)"
begin

lemma chosen_apart_from_busy:
  assumes "pick h busy = Some iv" "b \<in> set busy"
  shows "\<not> overlaps iv b"
  using pick_free [OF assms(1)] mergeIntervals_overlaps_sound [of iv busy] assms(2)
  by (auto simp: overlapsMerged_def list_ex_iff)

lemma placed_avoids_busy:
  assumes "(h, iv) \<in> set (placed pick extra hs busy)" "b \<in> set busy"
  shows "\<not> overlaps iv b"
  using assms
proof (induction hs arbitrary: busy)
  case (Cons g hs)
  show ?case
  proof (cases "pick g busy")
    case None
    then show ?thesis using Cons.IH [of "busy @ extra g"] Cons.prems by simp
  next
    case (Some jv)
    then show ?thesis using Cons.IH [of "busy @ [jv]"] Cons.prems chosen_apart_from_busy [OF Some] by auto
  qed
qed simp

lemma placed_apart: "sorted_wrt (\<lambda>a b. \<not> overlaps (snd b) (snd a)) (placed pick extra hs busy)"
proof (induction hs arbitrary: busy)
  case (Cons g hs)
  show ?case
  proof (cases "pick g busy")
    case (Some jv)
    have "\<not> overlaps (snd p) jv" if "p \<in> set (placed pick extra hs (busy @ [jv]))" for p
      using placed_avoids_busy [of "fst p" "snd p" hs "busy @ [jv]" jv] that by simp
    then show ?thesis using Some Cons.IH by simp
  qed (use Cons.IH in simp)
qed simp

lemma placed_items: "fst ` set (placed pick extra hs busy) \<subseteq> set hs"
  by (induction hs arbitrary: busy) (fastforce split: option.splits)+

end

lemma placed_cong:
  assumes "\<And>h b. h \<in> set hs \<Longrightarrow> pick h b = pick' h b" "\<And>h. h \<in> set hs \<Longrightarrow> extra h = extra' h"
  shows "placed pick extra hs busy = placed pick' extra' hs busy"
  using assms by (induction hs arbitrary: busy) (auto split: option.splits)

text \<open>What a habit chooses, given the occurrence it has: keep it, or the first free slot.\<close>

definition habit_choice :: "gotime \<Rightarrow> (uuid \<Rightarrow> occ_row option) \<Rightarrow> Habit \<Rightarrow> interval list \<Rightarrow> interval option" where
  "habit_choice day rows h busy =
     (if \<not> containsInt (hb_days h) (habitWeekday day) then None
      else case rows (hb_id h) of
          None \<Rightarrow> habit_slot h day busy
        | Some r \<Rightarrow>
            if or_status r = ''completed'' then None
            else if or_status r = ''scheduled'' \<and> \<not> overlapsMerged (ivl (or_start r) (or_end r)) (mergeIntervals busy)
            then Some (ivl (or_start r) (or_end r))
            else habit_slot h day busy)"

definition habit_extra :: "gotime \<Rightarrow> (uuid \<Rightarrow> occ_row option) \<Rightarrow> Habit \<Rightarrow> interval list" where
  "habit_extra day rows h = (case rows (hb_id h) of
      None \<Rightarrow> []
    | Some r \<Rightarrow> if containsInt (hb_days h) (habitWeekday day) \<and> or_status r = ''completed''
                then [ivl (or_start r) (or_end r)] else [])"

lemma habit_slot_free: "habit_slot h day busy = Some iv \<Longrightarrow> \<not> overlapsMerged iv (mergeIntervals busy)"
  unfolding habit_slot_def using findFirstSlot_Some by blast

interpretation habit_placer: slot_chooser "habit_choice day rows" "habit_extra day rows"
  by unfold_locales (auto simp: habit_choice_def dest: habit_slot_free split: option.splits if_splits)

subsection \<open>The day's run is the greedy placement\<close>

lemma case_filter_find: "(case filter P xs of [] \<Rightarrow> None | x # _ \<Rightarrow> Some x) = find P xs"
  by (induction xs) auto

lemma existing_occ:
  assumes "\<not> hv_read_fails env h (date_of day)"
  shows "existingOccurrence env db h day = map_option scanOccurrence (occ_at db h (date_of day))"
proof -
  let ?d = "date_of day"
  have rows: "filter (\<lambda>r. or_habit r = h \<and> ?d \<le> or_date r \<and> or_date r \<le> ?d) (t_occurrences db) = filter (same_day h ?d) (t_occurrences db)"
    by (rule filter_cong) (auto simp: same_day_def)
  have "map or_date (filter (same_day h ?d) xs) = replicate (length (filter (same_day h ?d) xs)) ?d" for xs
    by (induction xs) (auto simp: same_day_def)
  then have "sorted (map or_date (filter (same_day h ?d) (t_occurrences db)))" by simp
  then have "sort_key or_date (filter (same_day h ?d) (t_occurrences db)) = filter (same_day h ?d) (t_occurrences db)"
    by (rule sort_key_id_if_sorted)
  then have l: "ListHabitOccurrences db h ?d ?d = map scanOccurrence (filter (same_day h ?d) (t_occurrences db))"
    by (simp only: ListHabitOccurrences_def rows)
  have "(case map scanOccurrence ys of [] \<Rightarrow> None | o' # _ \<Rightarrow> Some o') =
      map_option scanOccurrence (case ys of [] \<Rightarrow> None | y # _ \<Rightarrow> Some y)" for ys
    by (cases ys) auto
  then show ?thesis using assms by (simp add: existingOccurrence_def l occ_at_def case_filter_find)
qed

definition storage_works :: "habit_env \<Rightarrow> bool" where
  "storage_works env \<longleftrightarrow> (\<forall>h d. \<not> hv_read_fails env h d \<and> \<not> hv_write_fails env h d)"

text \<open>
  The state after a write of a habit's occurrence, as far as it matters: the busy time, and
  the rows.
\<close>

definition wrote :: "habit_state \<Rightarrow> uuid \<Rightarrow> int \<Rightarrow> interval \<Rightarrow> string \<Rightarrow> habit_state \<Rightarrow> bool" where
  "wrote st h d iv status st' \<longleftrightarrow>
     (\<forall>i e. (i \<noteq> h \<or> e \<noteq> d) \<longrightarrow> occ_at (hs_db st') i e = occ_at (hs_db st) i e) \<and>
     (\<exists>r. occ_at (hs_db st') h d = Some r \<and> or_status r = status \<and> ns (or_start r) = lo iv \<and> ns (or_end r) = hi iv)"

lemma upsert_wrote:
  assumes "storage_works env"
  shows "wrote st h (date_of day) iv status (upsert env (occurrence h day iv status ev) st) \<and>
     hs_busy (upsert env o' st) = hs_busy st"
  using assms by (simp add: wrote_def upsert_def storage_works_def occurrence_def occ_at_upsert Let_def In_def)

lemma createHabitEvent_same [simp]:
  "hs_db (fst (createHabitEvent env h iv st)) = hs_db st" "hs_busy (fst (createHabitEvent env h iv st)) = hs_busy st"
  by (simp_all add: createHabitEvent_def Let_def split: option.splits)

lemma place_habit_wrote:
  assumes "storage_works env"
  shows "case habit_slot h day (hs_busy st) of
      Some iv \<Rightarrow> wrote st (hb_id h) (date_of day) iv ''scheduled'' (place_habit env day h st) \<and>
        hs_busy (place_habit env day h st) = hs_busy st @ [iv]
    | None \<Rightarrow> wrote st (hb_id h) (date_of day) (missed_slot h day) ''missed'' (place_habit env day h st) \<and>
        hs_busy (place_habit env day h st) = hs_busy st"
proof (cases "habit_slot h day (hs_busy st)")
  case None
  then show ?thesis using upsert_wrote [OF assms] by (simp add: place_habit_def)
next
  case (Some iv)
  let ?c = "if hv_connected env then createHabitEvent env h iv st else (st, '''')"
  let ?o = "occurrence (hb_id h) day iv ''scheduled'' (snd ?c)"
  have p: "place_habit env day h st = (upsert env ?o (fst ?c))\<lparr>hs_busy := hs_busy (upsert env ?o (fst ?c)) @ [iv]\<rparr>"
    using Some by (simp add: place_habit_def Let_def split_beta)
  have "hs_db (fst ?c) = hs_db st" "hs_busy (fst ?c) = hs_busy st" by simp_all
  then show ?thesis
    using Some upsert_wrote [OF assms, where st = "fst ?c" and h = "hb_id h" and day = day and iv = iv and status = "''scheduled''" and ev = "snd ?c" and o' = ?o]
    unfolding p by (simp add: wrote_def)
qed

text \<open>One habit: the choice of the abstract placement, and its row.\<close>

definition step_ok :: "gotime \<Rightarrow> habit_state \<Rightarrow> Habit \<Rightarrow> habit_state \<Rightarrow> bool" where
  "step_ok day st h st' \<longleftrightarrow> (let rows = (\<lambda>i. occ_at (hs_db st) i (date_of day)); c = habit_choice day rows h (hs_busy st) in
     hs_busy st' = hs_busy st @ (case c of Some iv \<Rightarrow> [iv] | None \<Rightarrow> habit_extra day rows h) \<and>
     (\<forall>i. i \<noteq> hb_id h \<longrightarrow> occ_at (hs_db st') i (date_of day) = occ_at (hs_db st) i (date_of day)) \<and>
     (containsInt (hb_days h) (habitWeekday day) \<longrightarrow> (\<exists>r. occ_at (hs_db st') (hb_id h) (date_of day) = Some r \<and>
        (case c of Some iv \<Rightarrow> or_status r = ''scheduled'' \<and> ns (or_start r) = lo iv \<and> ns (or_end r) = hi iv
         | None \<Rightarrow> or_status r \<noteq> ''scheduled''))))"

lemma place_habit_ok:
  assumes "storage_works env" "containsInt (hb_days h) (habitWeekday day)"
    and "habit_choice day (\<lambda>i. occ_at (hs_db st) i (date_of day)) h (hs_busy st) = habit_slot h day (hs_busy st)"
    and "habit_extra day (\<lambda>i. occ_at (hs_db st) i (date_of day)) h = []"
    and "hs_busy st0 = hs_busy st" "\<And>i. occ_at (hs_db st0) i (date_of day) = occ_at (hs_db st) i (date_of day)"
  shows "step_ok day st h (place_habit env day h st0)"
  using place_habit_wrote [OF assms(1), where h = h and day = day and st = st0] assms(2-6)
  by (auto simp: step_ok_def Let_def wrote_def split: option.splits)

lemma displaced_elsewhere:
  assumes "storage_works env" "date_of day \<noteq> date_of zero_time"
  shows "occ_at (hs_db (upsert env ((scanOccurrence r)\<lparr>oc_status := s\<rparr>) st)) i (date_of day) = occ_at (hs_db st) i (date_of day)"
  using assms by (simp add: upsert_def storage_works_def Let_def occ_at_upsert scanOccurrence_def scan_date_zero)

lemma habit_step_ok:
  assumes "storage_works env" "date_of day \<noteq> date_of zero_time"
  shows "step_ok day st h (habit_step env day st h)"
proof (cases "containsInt (hb_days h) (habitWeekday day)")
  case False
  then show ?thesis by (simp add: step_ok_def habit_step_def habit_choice_def habit_extra_def split: option.splits)
next
  case True
  let ?row = "occ_at (hs_db st) (hb_id h) (date_of day)"
  have ex: "existingOccurrence env (hs_db st) (hb_id h) day = map_option scanOccurrence ?row"
    using assms(1) existing_occ by (simp add: storage_works_def)
  show ?thesis
  proof (cases ?row)
    case None
    then have "habit_step env day st h = place_habit env day h st" using True ex by (simp add: habit_step_def)
    then show ?thesis using place_habit_ok [OF assms(1) True] None True by (simp add: habit_choice_def habit_extra_def)
  next
    case (Some r)
    let ?iv = "ivl (or_start r) (or_end r)"
    consider (fin) "or_status r = ''completed''"
      | (keep) "or_status r = ''scheduled''" "\<not> overlapsMerged ?iv (mergeIntervals (hs_busy st))"
      | (move) "or_status r = ''scheduled''" "overlapsMerged ?iv (mergeIntervals (hs_busy st))"
      | (other) "or_status r \<noteq> ''completed''" "or_status r \<noteq> ''scheduled''" by blast
    then show ?thesis
    proof cases
      case fin
      then show ?thesis using True Some ex
        by (simp add: habit_step_def step_ok_def habit_choice_def habit_extra_def scanOccurrence_def occ_ivl_def)
    next
      case keep
      then show ?thesis using True Some ex
        by (simp add: habit_step_def step_ok_def habit_choice_def habit_extra_def scanOccurrence_def occ_ivl_def)
    next
      case move
      let ?st0 = "upsert env ((scanOccurrence r)\<lparr>oc_status := ''displaced''\<rparr>) st"
      have "habit_step env day st h = place_habit env day h ?st0"
        using move True Some ex by (simp add: habit_step_def occ_ivl_def) (simp add: scanOccurrence_def)
      then show ?thesis
        using place_habit_ok [OF assms(1) True, where st = st and ?st0.0 = ?st0] displaced_elsewhere [OF assms] upsert_wrote [OF assms(1)] move True Some
        by (simp add: habit_choice_def habit_extra_def)
    next
      case other
      then have "habit_step env day st h = place_habit env day h st"
        using True Some ex by (simp add: habit_step_def scanOccurrence_def)
      then show ?thesis using place_habit_ok [OF assms(1) True] other Some True by (simp add: habit_choice_def habit_extra_def)
    qed
  qed
qed

lemma schedule_loop:
  assumes "storage_works env" "date_of day \<noteq> date_of zero_time" "distinct (map hb_id hs)"
    and "rows = (\<lambda>i. occ_at (hs_db st) i (date_of day))"
  shows "(\<forall>i. i \<notin> hb_id ` set hs \<longrightarrow> occ_at (hs_db (foldl (habit_step env day) st hs)) i (date_of day) = rows i) \<and>
     (\<forall>h \<in> set hs. containsInt (hb_days h) (habitWeekday day) \<longrightarrow>
        (\<exists>r. occ_at (hs_db (foldl (habit_step env day) st hs)) (hb_id h) (date_of day) = Some r \<and>
          (or_status r = ''scheduled'' \<longrightarrow> (\<exists>iv. (h, iv) \<in> set (placed (habit_choice day rows) (habit_extra day rows) hs (hs_busy st)) \<and>
             ns (or_start r) = lo iv \<and> ns (or_end r) = hi iv))))"
  using assms(3,4)
proof (induction hs arbitrary: st rows)
  case Nil
  then show ?case by simp
next
  case (Cons h hs)
  let ?st' = "habit_step env day st h"
  let ?rows' = "\<lambda>i. occ_at (hs_db ?st') i (date_of day)"
  let ?final = "foldl (habit_step env day) ?st' hs"
  have ok: "step_ok day st h ?st'" by (rule habit_step_ok [OF assms(1,2)])
  have ih: "(\<forall>i. i \<notin> hb_id ` set hs \<longrightarrow> occ_at (hs_db ?final) i (date_of day) = ?rows' i) \<and>
     (\<forall>g \<in> set hs. containsInt (hb_days g) (habitWeekday day) \<longrightarrow>
        (\<exists>r. occ_at (hs_db ?final) (hb_id g) (date_of day) = Some r \<and>
          (or_status r = ''scheduled'' \<longrightarrow> (\<exists>iv. (g, iv) \<in> set (placed (habit_choice day ?rows') (habit_extra day ?rows') hs (hs_busy ?st')) \<and>
             ns (or_start r) = lo iv \<and> ns (or_end r) = hi iv))))"
    using Cons.IH [OF _ refl] Cons.prems(1) by simp
  have same: "?rows' i = rows i" if "i \<noteq> hb_id h" for i
    using ok that Cons.prems(2) by (simp add: step_ok_def Let_def)
  have sub: "placed (habit_choice day ?rows') (habit_extra day ?rows') hs b = placed (habit_choice day rows) (habit_extra day rows) hs b" for b
  proof (rule placed_cong)
    fix g b
    assume "g \<in> set hs"
    then have "?rows' (hb_id g) = rows (hb_id g)" using Cons.prems(1) same by (metis distinct.simps(2) image_eqI list.set_map list.simps(9))
    then show "habit_choice day ?rows' g b = habit_choice day rows g b" "habit_extra day ?rows' g = habit_extra day rows g"
      by (simp_all add: habit_choice_def habit_extra_def)
  qed
  have tail: "set (placed (habit_choice day rows) (habit_extra day rows) hs (hs_busy ?st')) \<subseteq>
      set (placed (habit_choice day rows) (habit_extra day rows) (h # hs) (hs_busy st))"
    using ok Cons.prems(2) by (auto simp: step_ok_def Let_def split: option.splits)
  have notin: "hb_id h \<notin> hb_id ` set hs" using Cons.prems(1) by simp
  have first: "\<exists>r. occ_at (hs_db ?final) (hb_id h) (date_of day) = Some r \<and>
      (or_status r = ''scheduled'' \<longrightarrow> (\<exists>iv. (h, iv) \<in> set (placed (habit_choice day rows) (habit_extra day rows) (h # hs) (hs_busy st)) \<and>
         ns (or_start r) = lo iv \<and> ns (or_end r) = hi iv))" if on: "containsInt (hb_days h) (habitWeekday day)"
    using ok ih notin on Cons.prems(2) by (auto simp: step_ok_def Let_def split: option.splits)
  show ?case
  proof (intro conjI allI impI ballI)
    fix i
    assume "i \<notin> hb_id ` set (h # hs)"
    then show "occ_at (hs_db (foldl (habit_step env day) st (h # hs))) i (date_of day) = rows i" using ih same by simp
  next
    fix g
    assume g: "g \<in> set (h # hs)" "containsInt (hb_days g) (habitWeekday day)"
    show "\<exists>r. occ_at (hs_db (foldl (habit_step env day) st (h # hs))) (hb_id g) (date_of day) = Some r \<and>
      (or_status r = ''scheduled'' \<longrightarrow> (\<exists>iv. (g, iv) \<in> set (placed (habit_choice day rows) (habit_extra day rows) (h # hs) (hs_busy st)) \<and>
         ns (or_start r) = lo iv \<and> ns (or_end r) = hi iv))"
    proof (cases "g = h")
      case True
      then show ?thesis using first g(2) by simp
    next
      case False
      then have "g \<in> set hs" using g(1) by simp
      then obtain r where "occ_at (hs_db ?final) (hb_id g) (date_of day) = Some r"
          "or_status r = ''scheduled'' \<longrightarrow> (\<exists>iv. (g, iv) \<in> set (placed (habit_choice day rows) (habit_extra day rows) hs (hs_busy ?st')) \<and>
             ns (or_start r) = lo iv \<and> ns (or_end r) = hi iv)"
        using ih g(2) unfolding sub by blast
      then show ?thesis using tail by auto
    qed
  qed
qed

subsection \<open>Properties\<close>

lemma sorted_wrt_pairs:
  assumes "sorted_wrt R xs" "x \<in> set xs" "y \<in> set xs" "x \<noteq> y"
  shows "R x y \<or> R y x"
  using assms by (induction xs) auto

lemma scheduleDay_slot:
  assumes "storage_works env" "date_of day \<noteq> date_of zero_time" "distinct (map hb_id hs)"
    and "h \<in> set hs" "containsInt (hb_days h) (habitWeekday day)"
    and rows: "rows = (\<lambda>i. occ_at (hs_db st) i (date_of day))"
  shows "\<exists>r. occ_at (hs_db (scheduleDay tzdb env u hs st day)) (hb_id h) (date_of day) = Some r \<and>
    (or_status r = ''scheduled'' \<longrightarrow> (\<exists>iv. (h, iv) \<in> set (placed (habit_choice day rows) (habit_extra day rows) hs (day_busy tzdb env u day)) \<and>
       ns (or_start r) = lo iv \<and> ns (or_end r) = hi iv))"
proof -
  have "rows = (\<lambda>i. occ_at (hs_db (st\<lparr>hs_busy := day_busy tzdb env u day\<rparr>)) i (date_of day))" using rows by simp
  from bspec [OF conjunct2 [OF schedule_loop [OF assms(1-3) this]] assms(4)] assms(5)
  show ?thesis by (simp add: scheduleDay_def)
qed

text \<open>
  C15. When the storage answers, after the run of a day the scheduled
  occurrences of the day's habits meet none of the day's busy time (meetings, buffers, lunch,
  focus blocks), and no two of them overlap. The day is any but the zero date.
\<close>

theorem scheduled_habits_apart:
  assumes "storage_works env" "date_of day \<noteq> date_of zero_time" "distinct (map hb_id hs)"
    and "h \<in> set hs" "containsInt (hb_days h) (habitWeekday day)"
    and "occ_at (hs_db (scheduleDay tzdb env u hs st day)) (hb_id h) (date_of day) = Some r" "or_status r = ''scheduled''"
  shows "(\<forall>b \<in> set (day_busy tzdb env u day). \<not> overlaps (ivl (or_start r) (or_end r)) b) \<and>
    (\<forall>g \<in> set hs. \<forall>q. g \<noteq> h \<and> containsInt (hb_days g) (habitWeekday day) \<and> or_status q = ''scheduled'' \<and>
        occ_at (hs_db (scheduleDay tzdb env u hs st day)) (hb_id g) (date_of day) = Some q \<longrightarrow>
       \<not> overlaps (ivl (or_start r) (or_end r)) (ivl (or_start q) (or_end q)))"
proof -
  let ?rows = "\<lambda>i. occ_at (hs_db st) i (date_of day)"
  let ?placed = "placed (habit_choice day ?rows) (habit_extra day ?rows) hs (day_busy tzdb env u day)"
  have slot: "\<exists>iv. (g, iv) \<in> set ?placed \<and> ns (or_start q) = lo iv \<and> ns (or_end q) = hi iv"
    if "g \<in> set hs" "containsInt (hb_days g) (habitWeekday day)" "or_status q = ''scheduled''"
       "occ_at (hs_db (scheduleDay tzdb env u hs st day)) (hb_id g) (date_of day) = Some q" for g q
    using scheduleDay_slot [OF assms(1-3) that(1,2) refl, of tzdb u st] that(3,4) by auto
  obtain iv where iv: "(h, iv) \<in> set ?placed" "ns (or_start r) = lo iv" "ns (or_end r) = hi iv"
    using slot assms(4-7) by blast
  have same: "overlaps (ivl (or_start r) (or_end r)) b \<longleftrightarrow> overlaps iv b" for b using iv by (simp add: overlaps_iff)
  have "\<not> overlaps (ivl (or_start r) (or_end r)) (ivl (or_start q) (or_end q))"
    if g: "g \<in> set hs" "g \<noteq> h" "containsInt (hb_days g) (habitWeekday day)" "or_status q = ''scheduled''"
       "occ_at (hs_db (scheduleDay tzdb env u hs st day)) (hb_id g) (date_of day) = Some q" for g q
  proof -
    obtain jv where jv: "(g, jv) \<in> set ?placed" "ns (or_start q) = lo jv" "ns (or_end q) = hi jv" using slot g by blast
    have "\<not> overlaps jv iv \<or> \<not> overlaps iv jv"
      using sorted_wrt_pairs [OF habit_placer.placed_apart iv(1) jv(1)] g(2) by auto
    then show ?thesis using iv jv by (auto simp: overlaps_iff)
  qed
  then show ?thesis using same habit_placer.placed_avoids_busy [OF iv(1)] by blast
qed


text \<open>A Monday with a focus block from ten to eleven and two habits of the same window.\<close>

definition ex_habit :: "uuid \<Rightarrow> int \<Rightarrow> Habit" where
  "ex_habit i p = \<lparr>hb_id = i, hb_user = 7, hb_title = ''Read'', hb_duration = 60, hb_days = [1], hb_window_start = ''10:00:00'',
     hb_window_end = ''14:00:00'', hb_priority = p, hb_color = ''#E9B949'', hb_active = True, hb_created_at = 0\<rparr>"

definition ex_habit_env :: "bool \<Rightarrow> event list \<Rightarrow> habit_env" where
  "ex_habit_env on evs = \<lparr>hv_settings = None, hv_connected = on, hv_list = (\<lambda>_ _. Inr evs), hv_create = (\<lambda>n _. Some (''ev'' @ show_nat n)),
     hv_focus = [\<lparr>fb_id = 1, fb_user = Some 7, fb_event = '''', fb_start = go_date 20458 10 0 0 0 UTC, fb_end = go_date 20458 11 0 0 0 UTC, fb_date = 20458\<rparr>],
     hv_focus_fails = False, hv_read_fails = (\<lambda>_ _. False), hv_write_fails = (\<lambda>_ _. False),
     hv_new_id = (\<lambda>h _. h + 100), hv_now = 0\<rparr>"

definition ex_habit_state :: "occ_row list \<Rightarrow> habit_state" where
  "ex_habit_state rows = \<lparr>hs_db = \<lparr>t_habits = [], t_occurrences = rows\<rparr>, hs_busy = [], hs_sent = [], hs_creates = 0\<rparr>"

definition ex_run :: habit_state where
  "ex_run = scheduleDay (\<lambda>_. None) (ex_habit_env False []) 7 [ex_habit 1 5, ex_habit 2 3] (ex_habit_state []) ex_monday"

definition ex_occ :: "uuid \<Rightarrow> int \<Rightarrow> occ_row" where
  "ex_occ i hour = \<lparr>or_id = i + 100, or_habit = i, or_date = 20458, or_start = go_date 20458 hour 0 0 0 UTC,
     or_end = go_date 20458 (hour + 1) 0 0 0 UTC, or_status = ''scheduled'', or_event = '''', or_created_at = 0\<rparr>"

lemma ex_storage_works: "storage_works (ex_habit_env on evs)"
  by (simp add: storage_works_def ex_habit_env_def)

lemma ex_habit_rows: "t_occurrences (hs_db ex_run) = [ex_occ 1 11, ex_occ 2 12]"
  by code_simp

lemma ex_days:
  "date_of ex_monday \<noteq> date_of zero_time" "containsInt (hb_days (ex_habit i p)) (habitWeekday ex_monday)" "date_of ex_monday = 20458"
  by code_simp+

theorem scheduled_habits_apart_witness:
  "occ_at (hs_db ex_run) 1 20458 = Some (ex_occ 1 11) \<and> occ_at (hs_db ex_run) 2 20458 = Some (ex_occ 2 12) \<and>
   \<not> overlaps (ivl (or_start (ex_occ 1 11)) (or_end (ex_occ 1 11))) (ivl (or_start (ex_occ 2 12)) (or_end (ex_occ 2 12)))"
proof -
  let ?hs = "[ex_habit 1 5, ex_habit 2 3]"
  have rows: "occ_at (hs_db ex_run) 1 20458 = Some (ex_occ 1 11)" "occ_at (hs_db ex_run) 2 20458 = Some (ex_occ 2 12)"
    by (simp_all add: occ_at_def ex_habit_rows same_day_def ex_occ_def)
  have hs: "distinct (map hb_id ?hs)" "ex_habit 1 5 \<in> set ?hs" "ex_habit 2 3 \<in> set ?hs" "ex_habit 2 3 \<noteq> ex_habit 1 5"
    and status: "or_status (ex_occ 1 11) = ''scheduled''" "or_status (ex_occ 2 12) = ''scheduled''"
    by (simp_all add: ex_habit_def ex_occ_def)
  have at: "occ_at (hs_db (scheduleDay (\<lambda>_. None) (ex_habit_env False []) 7 ?hs (ex_habit_state []) ex_monday)) (hb_id (ex_habit i p)) (date_of ex_monday) =
      occ_at (hs_db ex_run) i 20458" for i p
    by (simp add: ex_run_def ex_days ex_habit_def)
  from scheduled_habits_apart [OF ex_storage_works [of False "[]"] ex_days(1) hs(1,2) ex_days(2), of "\<lambda>_. None" 7 "ex_habit_state []" "ex_occ 1 11",
    unfolded at, OF rows(1) status(1)] hs(3,4) status(2) rows ex_days(2)
  show ?thesis using at [of 2 3] by metis
qed

text \<open>
  C37. An event of the calendar at the time of a scheduled
  occurrence, such as the opaque event the previous run created for it, drives the habit away:
  after the next run of the day the occurrence no longer meets that event. The code means to keep
  an occurrence that still fits.
\<close>

theorem habit_flees_its_own_event:
  fixes day :: gotime
  defines "dayStart \<equiv> go_date (date_of day) 0 0 0 0 (tloc day)"
  assumes "storage_works env" "date_of day \<noteq> date_of zero_time" "distinct (map hb_id hs)"
    and "h \<in> set hs" "containsInt (hb_days h) (habitWeekday day)"
    and "occ_at (hs_db st) (hb_id h) (date_of day) = Some r" "or_status r = ''scheduled''"
    and "hv_connected env" "hv_list env dayStart (Add dayStart day_ns) = Inr events"
    and "ev \<in> set events" "opaque_times ev = Some own" "lo own = ns (or_start r)" "hi own = ns (or_end r)"
  shows "\<exists>r'. occ_at (hs_db (scheduleDay tzdb env u hs st day)) (hb_id h) (date_of day) = Some r' \<and>
    \<not> (or_status r' = ''scheduled'' \<and> overlaps (ivl (or_start r') (or_end r')) (ivl (or_start r) (or_end r)))"
proof -
  let ?rows = "\<lambda>i. occ_at (hs_db st) i (date_of day)"
  let ?busy = "day_busy tzdb env u day"
  obtain r' where r': "occ_at (hs_db (scheduleDay tzdb env u hs st day)) (hb_id h) (date_of day) = Some r'"
      "or_status r' = ''scheduled'' \<longrightarrow> (\<exists>iv. (h, iv) \<in> set (placed (habit_choice day ?rows) (habit_extra day ?rows) hs ?busy) \<and>
         ns (or_start r') = lo iv \<and> ns (or_end r') = hi iv)"
    using scheduleDay_slot [OF assms(2-6) refl, of tzdb u st] by auto
  have "own \<in> set ?busy"
    using assms(9-12) unfolding dayStart_def by (force simp: day_busy_def calendar_part_def Let_def map_filter_mem)
  then have "\<not> overlaps iv own" if "(h, iv) \<in> set (placed (habit_choice day ?rows) (habit_extra day ?rows) hs ?busy)" for iv
    using habit_placer.placed_avoids_busy [OF that] by blast
  then show ?thesis using r' assms(13,14) by (intro exI [of _ r']) (auto simp: overlaps_iff)
qed

definition ex_own_event :: event where
  "ex_own_event = habit_event (ex_habit 1 5) (ivl (go_date 20458 11 0 0 0 UTC) (go_date 20458 12 0 0 0 UTC))"

lemma ex_own_opaque: "opaque_times ex_own_event = Some (ivl (go_date 20458 11 0 0 0 UTC) (go_date 20458 12 0 0 0 UTC))"
  by code_simp

theorem habit_flees_its_own_event_witness:
  "\<exists>r'. occ_at (hs_db (scheduleDay (\<lambda>_. None) (ex_habit_env True [ex_own_event]) 7 [ex_habit 1 5] (ex_habit_state [ex_occ 1 11]) ex_monday)) 1 20458 = Some r' \<and>
    \<not> (or_status r' = ''scheduled'' \<and> overlaps (ivl (or_start r') (or_end r')) (ivl (or_start (ex_occ 1 11)) (or_end (ex_occ 1 11))))"
proof -
  have id: "hb_id (ex_habit 1 5) = 1" by (simp add: ex_habit_def)
  have hyps: "distinct (map hb_id [ex_habit 1 5])" "ex_habit 1 5 \<in> set [ex_habit 1 5]"
    "occ_at (hs_db (ex_habit_state [ex_occ 1 11])) (hb_id (ex_habit 1 5)) (date_of ex_monday) = Some (ex_occ 1 11)"
    "or_status (ex_occ 1 11) = ''scheduled''" "hv_connected (ex_habit_env True [ex_own_event])"
    "hv_list (ex_habit_env True [ex_own_event]) a b = Inr [ex_own_event]" "ex_own_event \<in> set [ex_own_event]" for a b
    by (simp_all add: occ_at_def same_day_def ex_days ex_habit_def ex_habit_state_def ex_habit_env_def ex_occ_def)
  from habit_flees_its_own_event [OF ex_storage_works ex_days(1) hyps(1,2) ex_days(2) hyps(3-7) ex_own_opaque, of "\<lambda>_. None" 7]
  show ?thesis unfolding id ex_days(3) by (simp add: ex_occ_def)
qed

end
