(* ===== verification/HabitHandlers.thy ===== *)
theory HabitHandlers
  imports Habits BookingRule
begin

section \<open>HabitHandlers: the routes of habits\<close>

text \<open>
  \<^verbatim>\<open>backend/api/handlers_habits.go\<close>: validation, and creating, listing, changing and switching off
  habits, their occurrences, and the route that starts a new run of the scheduler. A handler
  maps the request and the server's state to the new state and the answer; the runs of
  \<^verbatim>\<open>ReoptimizeAll\<close> that a handler starts in the background are recorded by their user.
\<close>

datatype habit_body =
    NoHabitBody
  | HabitError string
  | OneHabit Habit
  | ManyHabits "Habit list"
  | OneOccurrence HabitOccurrence
  | ManyOccurrences "HabitOccurrence list"
  | HabitStatus string

datatype habit_answer = HabitAnswer (ha_status: int) (ha_body: habit_body)

record habit_server =
  hk_db :: habit_db
  hk_jobs :: "uuid list"

record habit_request =
  hq_user :: uuid
  hq_id :: "uuid option"
  hq_occurrence :: "uuid option"
  hq_fails :: "string list"
  hq_new_id :: uuid
  hq_now :: int

record habit_input =
  hi_title :: string
  hi_duration :: int
  hi_days :: "int list option"
  hi_window_start :: string
  hi_window_end :: string
  hi_priority :: int
  hi_color :: string

record habit_patch =
  hp_title :: "string option"
  hp_duration :: "int option"
  hp_days :: "int list option"
  hp_window_start :: "string option"
  hp_window_end :: "string option"
  hp_priority :: "int option"
  hp_color :: "string option"
  hp_active :: "bool option"

definition no_habit :: "string \<Rightarrow> int \<Rightarrow> habit_answer" where
  "no_habit msg code = HabitAnswer code (HabitError msg)"

definition habit_fails :: "habit_request \<Rightarrow> string \<Rightarrow> bool" where
  "habit_fails rq stmt \<longleftrightarrow> stmt \<in> set (hq_fails rq)"

subsection \<open>Validation\<close>

definition validHabitClock :: "string \<Rightarrow> bool" where
  "validHabitClock value \<longleftrightarrow> length value = 5 \<and> value ! 2 = CHR '':'' \<and> parse_hm value \<noteq> None"

fun days_error :: "int list \<Rightarrow> int list \<Rightarrow> string option" where
  "days_error seen [] = None"
| "days_error seen (d # ds) =
     (if d < 1 \<or> d > 7 then Some ''days_of_week must use Monday=1 through Sunday=7''
      else if d \<in> set seen then Some ''days_of_week must not contain duplicates''
      else days_error (d # seen) ds)"

definition habit_clock :: "string \<Rightarrow> int" where
  "habit_clock s = (case parse_hm s of Some (h, m, _) \<Rightarrow> h * 60 + m | None \<Rightarrow> 0)"

definition validateHabitFields :: "string \<Rightarrow> int \<Rightarrow> int list \<Rightarrow> string \<Rightarrow> string \<Rightarrow> int \<Rightarrow> string option" where
  "validateHabitFields nm duration days windowStart windowEnd priority =
     (if TrimSpace nm = '''' then Some ''title is required''
      else if length (TrimSpace nm) > 200 then Some ''title must be 200 characters or fewer''
      else if duration \<le> 0 \<or> duration > 24 * 60 then Some ''duration_minutes must be between 1 and 1440''
      else if days = [] then Some ''days_of_week must contain at least one weekday''
      else case days_error [] days of
          Some e \<Rightarrow> Some e
        | None \<Rightarrow>
            if \<not> validHabitClock windowStart \<or> \<not> validHabitClock windowEnd then Some ''window_start and window_end must be in HH:MM format''
            else if \<not> habit_clock windowEnd > habit_clock windowStart then Some ''window_end must be after window_start''
            else if priority < 0 \<or> priority > 100 then Some ''priority must be between 0 and 100''
            else None)"

definition valid_habit :: "Habit \<Rightarrow> string option" where
  "valid_habit h = validateHabitFields (hb_title h) (hb_duration h) (hb_days h) (hb_window_start h) (hb_window_end h) (hb_priority h)"

subsection \<open>Routes\<close>

definition start_job :: "habit_request \<Rightarrow> habit_server \<Rightarrow> habit_server" where
  "start_job rq sv = sv\<lparr>hk_jobs := hk_jobs sv @ [hq_user rq]\<rparr>"

text \<open>The fields of a new habit: trimmed, and the defaults for what is missing.\<close>

definition input_habit :: "habit_request \<Rightarrow> habit_input \<Rightarrow> Habit" where
  "input_habit rq b = \<lparr>hb_id = 0, hb_user = hq_user rq, hb_title = TrimSpace (hi_title b), hb_duration = hi_duration b,
     hb_days = (case hi_days b of None \<Rightarrow> [1, 2, 3, 4, 5] | Some ds \<Rightarrow> ds),
     hb_window_start = (let w = TrimSpace (hi_window_start b) in if w = '''' then ''09:00'' else w),
     hb_window_end = (let w = TrimSpace (hi_window_end b) in if w = '''' then ''17:00'' else w),
     hb_priority = (if hi_priority b = 0 then 50 else hi_priority b),
     hb_color = (if hi_color b = '''' then ''#5B7FFF'' else hi_color b), hb_active = False, hb_created_at = 0\<rparr>"

definition habit_create :: "habit_request \<Rightarrow> habit_input option \<Rightarrow> habit_server \<Rightarrow> habit_server \<times> habit_answer" where
  "habit_create rq body sv = (case body of
      None \<Rightarrow> (sv, no_habit ''invalid request body'' 400)
    | Some b \<Rightarrow>
        let h = input_habit rq b
        in (case valid_habit h of
            Some msg \<Rightarrow> (sv, no_habit msg 400)
          | None \<Rightarrow>
              if habit_fails rq ''CreateHabit'' then (sv, no_habit (genericServerMessage 500) 500)
              else (case CreateHabit (hq_new_id rq) (hq_now rq) h (hk_db sv) of (db, row) \<Rightarrow>
                  (start_job rq (sv\<lparr>hk_db := db\<rparr>), HabitAnswer 201 (OneHabit row)))))"

definition habit_list :: "habit_request \<Rightarrow> habit_server \<Rightarrow> habit_answer" where
  "habit_list rq sv =
     (if habit_fails rq ''ListHabitsByUser'' then no_habit ''internal error'' 500
      else HabitAnswer 200 (ManyHabits (ListHabitsByUser (hk_db sv) (hq_user rq))))"

text \<open>The start of the routes on one habit: the id, the read, the missing habit, the owner.\<close>

definition own_habit :: "habit_request \<Rightarrow> habit_server \<Rightarrow> habit_answer + uuid \<times> Habit" where
  "own_habit rq sv = (case hq_id rq of
      None \<Rightarrow> Inl (no_habit ''invalid id'' 400)
    | Some i \<Rightarrow>
        if habit_fails rq ''GetHabitByID'' then Inl (no_habit ''internal error'' 500)
        else (case GetHabitByID (hk_db sv) i of
            None \<Rightarrow> Inl (no_habit ''not found'' 404)
          | Some h \<Rightarrow> if hb_user h \<noteq> hq_user rq then Inl (no_habit ''forbidden'' 403) else Inr (i, h)))"

definition or_old :: "'a option \<Rightarrow> 'a \<Rightarrow> 'a" where
  "or_old x old = (case x of None \<Rightarrow> old | Some v \<Rightarrow> v)"

definition patched_habit :: "habit_patch \<Rightarrow> Habit \<Rightarrow> Habit" where
  "patched_habit p h = h\<lparr>hb_title := TrimSpace (or_old (hp_title p) (hb_title h)), hb_duration := or_old (hp_duration p) (hb_duration h),
     hb_days := or_old (hp_days p) (hb_days h), hb_window_start := TrimSpace (or_old (hp_window_start p) (hb_window_start h)),
     hb_window_end := TrimSpace (or_old (hp_window_end p) (hb_window_end h)), hb_priority := or_old (hp_priority p) (hb_priority h),
     hb_color := or_old (hp_color p) (hb_color h), hb_active := or_old (hp_active p) (hb_active h)\<rparr>"

text \<open>A habit deleted between the read and the write is answered with null.\<close>

definition habit_update :: "habit_request \<Rightarrow> habit_patch option \<Rightarrow> habit_server \<Rightarrow> habit_server \<times> habit_answer" where
  "habit_update rq body sv = (case own_habit rq sv of
      Inl a \<Rightarrow> (sv, a)
    | Inr (i, existing) \<Rightarrow> (case body of
        None \<Rightarrow> (sv, no_habit ''invalid request body'' 400)
      | Some p \<Rightarrow>
          let updated = patched_habit p existing
          in (case valid_habit updated of
              Some msg \<Rightarrow> (sv, no_habit msg 400)
            | None \<Rightarrow>
                if habit_fails rq ''UpdateHabit'' then (sv, no_habit (genericServerMessage 500) 500)
                else (case UpdateHabit i updated (hk_db sv) of (db, res) \<Rightarrow>
                    (start_job rq (sv\<lparr>hk_db := db\<rparr>), HabitAnswer 200 (case res of Some h \<Rightarrow> OneHabit h | None \<Rightarrow> NoHabitBody))))))"

definition habit_deactivate :: "habit_request \<Rightarrow> habit_server \<Rightarrow> habit_server \<times> habit_answer" where
  "habit_deactivate rq sv = (case own_habit rq sv of
      Inl a \<Rightarrow> (sv, a)
    | Inr (i, h) \<Rightarrow>
        if habit_fails rq ''DeactivateHabit'' then (sv, no_habit (genericServerMessage 500) 500)
        else (sv\<lparr>hk_db := DeactivateHabit i (hk_db sv)\<rparr>, HabitAnswer 204 NoHabitBody))"

text \<open>\<^verbatim>\<open>AddDate(0, n, 0)\<close> on a day number: months carry into years, and days past the month's end into the next month.\<close>

definition add_months :: "int \<Rightarrow> int \<Rightarrow> int" where
  "add_months dn n = (case civil_of_days dn of (y, m, d) \<Rightarrow>
     let k = m - 1 + n in days_of_civil (y + k div 12) (k mod 12 + 1) 1 + d - 1)"

definition date_param :: "string \<Rightarrow> int \<Rightarrow> int option" where
  "date_param value dflt = (if value = '''' then Some dflt else parse_dateonly value)"

definition habit_occurrences :: "habit_request \<Rightarrow> gotime \<Rightarrow> string \<Rightarrow> string \<Rightarrow> habit_server \<Rightarrow> habit_answer" where
  "habit_occurrences rq now fromText toText sv = (case own_habit rq sv of
      Inl a \<Rightarrow> a
    | Inr (i, h) \<Rightarrow>
        let today = date_of (In now UTC)
        in (case date_param fromText (add_months today (-1)) of
            None \<Rightarrow> no_habit ''from must use YYYY-MM-DD'' 400
          | Some from \<Rightarrow> (case date_param toText (add_months today 1) of
              None \<Rightarrow> no_habit ''to must use YYYY-MM-DD'' 400
            | Some to \<Rightarrow>
                if from > to then no_habit ''from must be on or before to'' 400
                else if habit_fails rq ''ListHabitOccurrences'' then no_habit ''internal error'' 500
                else HabitAnswer 200 (ManyOccurrences (ListHabitOccurrences (hk_db sv) i from to)))))"

definition habit_updateOccurrence :: "habit_request \<Rightarrow> string option \<Rightarrow> habit_server \<Rightarrow> habit_server \<times> habit_answer" where
  "habit_updateOccurrence rq body sv = (case hq_id rq of
      None \<Rightarrow> (sv, no_habit ''invalid habit id'' 400)
    | Some h \<Rightarrow> (case hq_occurrence rq of
        None \<Rightarrow> (sv, no_habit ''invalid occurrence id'' 400)
      | Some occ \<Rightarrow> (case body of
          None \<Rightarrow> (sv, no_habit ''invalid request body'' 400)
        | Some raw \<Rightarrow>
            let status = ToLower (TrimSpace raw)
            in if status \<noteq> ''completed'' \<and> status \<noteq> ''scheduled'' then (sv, no_habit ''status must be completed or scheduled'' 400)
               else if habit_fails rq ''UpdateHabitOccurrenceStatus'' then (sv, no_habit ''internal error'' 500)
               else (case UpdateHabitOccurrenceStatus occ h (hq_user rq) status (hk_db sv) of
                   (db, None) \<Rightarrow> (sv\<lparr>hk_db := db\<rparr>, no_habit ''not found'' 404)
                 | (db, Some o') \<Rightarrow> (sv\<lparr>hk_db := db\<rparr>, HabitAnswer 200 (OneOccurrence o'))))))"

definition habit_reoptimize :: "habit_request \<Rightarrow> habit_server \<Rightarrow> habit_server \<times> habit_answer" where
  "habit_reoptimize rq sv = (start_job rq sv, HabitAnswer 200 (HabitStatus ''reoptimization started''))"

subsection \<open>Properties\<close>

text \<open>Every stored window is what the \<^verbatim>\<open>TIME\<close> column returns: eight characters that trimming keeps.\<close>

definition stored_clock :: "string \<Rightarrow> bool" where
  "stored_clock s \<longleftrightarrow> length s = 8 \<and> TrimSpace s = s"

definition windows_stored :: "habit_db \<Rightarrow> bool" where
  "windows_stored db \<longleftrightarrow> list_all (\<lambda>h. stored_clock (hb_window_start h) \<and> stored_clock (hb_window_end h)) (t_habits db)"

lemma valid_clock_stored:
  assumes "validHabitClock s"
  shows "stored_clock (time_column s)"
proof -
  obtain h m x where p: "parse_hm s = Some (h, m, x)" using assms by (auto simp: validHabitClock_def)
  have "\<not> is_space CHR ''0''" by code_simp
  with parse_hm_range [OF p] show ?thesis
    using p by (simp add: stored_clock_def time_column_def pad2_def TrimSpace_def digit_char_plain)
qed

lemma stored_not_valid: "stored_clock s \<Longrightarrow> \<not> validHabitClock (TrimSpace s)"
  by (simp add: stored_clock_def validHabitClock_def)

lemma valid_habit_windows:
  assumes "valid_habit h = None"
  shows "validHabitClock (hb_window_start h)" "validHabitClock (hb_window_end h)"
  using assms by (auto simp: valid_habit_def validateHabitFields_def split: if_splits option.splits)

lemma windows_stored_create:
  assumes "windows_stored db" "valid_habit h = None"
  shows "windows_stored (fst (CreateHabit n now h db))"
  using assms valid_clock_stored valid_habit_windows [OF assms(2)] by (simp add: windows_stored_def CreateHabit_def Let_def)

lemma windows_stored_update:
  assumes "windows_stored db" "valid_habit h = None"
  shows "windows_stored (fst (UpdateHabit i h db))"
  using assms valid_clock_stored valid_habit_windows [OF assms(2)] by (auto simp: windows_stored_def UpdateHabit_def Let_def list_all_iff)

text \<open>The requests that change the habits keep the invariant.\<close>

inductive habit_request_step :: "habit_server \<Rightarrow> habit_server \<Rightarrow> bool" where
  creates: "habit_create rq body sv = (sv', a) \<Longrightarrow> habit_request_step sv sv'"
| updates: "habit_update rq p sv = (sv', a) \<Longrightarrow> habit_request_step sv sv'"
| deactivates: "habit_deactivate rq sv = (sv', a) \<Longrightarrow> habit_request_step sv sv'"
| answers: "habit_updateOccurrence rq st sv = (sv', a) \<Longrightarrow> habit_request_step sv sv'"
| reoptimizes: "habit_reoptimize rq sv = (sv', a) \<Longrightarrow> habit_request_step sv sv'"

lemma start_job_db [simp]: "hk_db (start_job rq sv) = hk_db sv"
  by (simp add: start_job_def)

lemma habit_request_step_ok:
  assumes "habit_request_step sv sv'" "windows_stored (hk_db sv)"
  shows "windows_stored (hk_db sv')"
  using assms
proof cases
  case (creates rq body a)
  then show ?thesis using assms(2) windows_stored_create [OF assms(2)]
    by (auto simp: habit_create_def Let_def split: option.splits if_splits prod.splits) (metis fst_conv)
next
  case (updates rq p a)
  then show ?thesis using assms(2) windows_stored_update [OF assms(2)]
    by (auto simp: habit_update_def Let_def split: sum.splits option.splits if_splits prod.splits) (metis fst_conv)+
next
  case (deactivates rq a)
  then show ?thesis using assms(2)
    by (auto simp: habit_deactivate_def DeactivateHabit_def windows_stored_def list_all_iff split: sum.splits if_splits)
next
  case (answers rq st a)
  then show ?thesis using assms(2)
    by (auto simp: habit_updateOccurrence_def UpdateHabitOccurrenceStatus_def windows_stored_def Let_def split: option.splits if_splits)
next
  case (reoptimizes rq a)
  then show ?thesis using assms(2) by (auto simp: habit_reoptimize_def)
qed

text \<open>
  On a server that started without habits, whatever requests
  were served, a change of one's own habit that does not send both window fields, be it only its
  title or its active flag, is answered 400 and changes nothing: the windows read back carry
  seconds, and the validation of the merged habit refuses them.
\<close>

theorem habit_patch_needs_both_windows:
  assumes "t_habits (hk_db sv0) = []" "habit_request_step\<^sup>*\<^sup>* sv0 sv"
    and "own_habit rq sv = Inr (i, h)" "hp_window_start p = None \<or> hp_window_end p = None"
  shows "\<exists>msg. habit_update rq (Some p) sv = (sv, no_habit msg 400)"
proof -
  have "windows_stored (hk_db sv0)" using assms(1) by (simp add: windows_stored_def)
  with assms(2) have "windows_stored (hk_db sv)" by (induction rule: rtranclp_induct) (auto intro: habit_request_step_ok)
  moreover have "h \<in> set (t_habits (hk_db sv))"
    using assms(3) by (auto simp: own_habit_def GetHabitByID_def find_Some_iff split: option.splits if_splits)
  ultimately have "stored_clock (hb_window_start h)" "stored_clock (hb_window_end h)" by (auto simp: windows_stored_def list_all_iff)
  then have "\<not> (validHabitClock (hb_window_start (patched_habit p h)) \<and> validHabitClock (hb_window_end (patched_habit p h)))"
    using assms(4) stored_not_valid by (auto simp: patched_habit_def or_old_def)
  then obtain msg where "valid_habit (patched_habit p h) = Some msg" using valid_habit_windows [of "patched_habit p h"] by blast
  then show ?thesis using assms(3) by (intro exI [of _ msg]) (simp add: habit_update_def Let_def)
qed

definition ex_habit_request :: habit_request where
  "ex_habit_request = \<lparr>hq_user = 7, hq_id = Some 3, hq_occurrence = None, hq_fails = [], hq_new_id = 3, hq_now = 0\<rparr>"

definition ex_new_habit :: habit_input where
  "ex_new_habit = \<lparr>hi_title = ''Read'', hi_duration = 30, hi_days = None, hi_window_start = ''08:00'', hi_window_end = ''09:30'', hi_priority = 0, hi_color = ''''\<rparr>"

definition ex_switch_off :: habit_patch where
  "ex_switch_off = \<lparr>hp_title = None, hp_duration = None, hp_days = None, hp_window_start = None, hp_window_end = None, hp_priority = None,
     hp_color = None, hp_active = Some False\<rparr>"

definition ex_no_habits :: habit_server where
  "ex_no_habits = \<lparr>hk_db = \<lparr>t_habits = [], t_occurrences = []\<rparr>, hk_jobs = []\<rparr>"

definition ex_with_habit :: habit_server where
  "ex_with_habit = fst (habit_create ex_habit_request (Some ex_new_habit) ex_no_habits)"

lemma ex_habit_found: "map_sum id fst (own_habit ex_habit_request ex_with_habit) = Inr 3"
  by code_simp

theorem habit_patch_needs_both_windows_witness:
  "\<exists>msg. habit_update ex_habit_request (Some ex_switch_off) ex_with_habit = (ex_with_habit, no_habit msg 400)"
proof -
  have "habit_request_step ex_no_habits ex_with_habit"
    by (rule creates [where rq = ex_habit_request and body = "Some ex_new_habit" and a = "snd (habit_create ex_habit_request (Some ex_new_habit) ex_no_habits)"])
      (simp add: ex_with_habit_def)
  moreover obtain h where "own_habit ex_habit_request ex_with_habit = Inr (3, h)"
    using ex_habit_found by (cases "own_habit ex_habit_request ex_with_habit") auto
  ultimately show ?thesis
    using habit_patch_needs_both_windows [where ?sv0.0 = ex_no_habits and sv = ex_with_habit and rq = ex_habit_request and p = ex_switch_off]
    by (auto simp: ex_no_habits_def ex_switch_off_def)
qed

end
