(* ===== verification/TeamStore.thy ===== *)
theory TeamStore
  imports Users Settings
begin

section \<open>TeamStore: teams, members, invitations and no-meeting zones\<close>

text \<open>
  \<^verbatim>\<open>backend/storage/teams.go\<close>: the four tables of migration 013 with every statement of the file.
  \<open>None\<close> is \<^verbatim>\<open>sql.ErrNoRows\<close> for a read and a refused row (a foreign key or a check of the
  schema) for a write; ids, tokens and the clock of new rows are arguments, instants are
  nanoseconds. The second part splits the transaction of \<^verbatim>\<open>RemoveTeamMemberKeepingOwner\<close> into its
  statements, which other transactions may run between.
\<close>

record Team =
  tm_id :: uuid
  tm_org :: "uuid option"
  tm_name :: string
  tm_created_by :: uuid
  tm_created_at :: int

record member_row =
  mb_team :: uuid
  mb_user :: uuid
  mb_role :: string
  mb_joined_at :: int

record TeamMember = member_row +
  mb_name :: string
  mb_email :: string

record TeamInvite =
  ti_id :: uuid
  ti_team :: uuid
  ti_email :: string
  ti_invited_by :: uuid
  ti_token :: string
  ti_status :: string
  ti_created_at :: int
  ti_expires_at :: int

record NoMeetingZone =
  nz_id :: uuid
  nz_team :: uuid
  nz_day :: int
  nz_start :: string
  nz_end :: string
  nz_label :: string
  nz_created_at :: int

record team_db =
  t_teams :: "Team list"
  t_members :: "member_row list"
  t_invites :: "TeamInvite list"
  t_zones :: "NoMeetingZone list"

subsection \<open>Teams\<close>

definition CreateTeam :: "uuid \<Rightarrow> int \<Rightarrow> User list \<Rightarrow> string \<Rightarrow> uuid \<Rightarrow> team_db \<Rightarrow> (team_db \<times> Team) option" where
  "CreateTeam newid now users nm createdBy db =
     (if GetUserByID users createdBy = None then None
      else let t = \<lparr>tm_id = newid, tm_org = None, tm_name = nm, tm_created_by = createdBy, tm_created_at = now\<rparr>
           in Some (db\<lparr>t_teams := t_teams db @ [t]\<rparr>, t))"

definition GetTeam :: "team_db \<Rightarrow> uuid \<Rightarrow> Team option" where
  "GetTeam db i = find (\<lambda>t. tm_id t = i) (t_teams db)"

definition ListTeamsForUser :: "team_db \<Rightarrow> uuid \<Rightarrow> Team list" where
  "ListTeamsForUser db u =
     sort_key (\<lambda>t. - tm_created_at t)
       (filter (\<lambda>t. list_ex (\<lambda>m. mb_team m = tm_id t \<and> mb_user m = u) (t_members db)) (t_teams db))"

definition RenameTeam :: "uuid \<Rightarrow> string \<Rightarrow> team_db \<Rightarrow> team_db" where
  "RenameTeam i nm db = db\<lparr>t_teams := map (\<lambda>t. if tm_id t = i then t\<lparr>tm_name := nm\<rparr> else t) (t_teams db)\<rparr>"

text \<open>The three other tables reference the team with \<^verbatim>\<open>ON DELETE CASCADE\<close>.\<close>

definition DeleteTeam :: "uuid \<Rightarrow> team_db \<Rightarrow> team_db" where
  "DeleteTeam i db = \<lparr>t_teams = filter (\<lambda>t. tm_id t \<noteq> i) (t_teams db), t_members = filter (\<lambda>m. mb_team m \<noteq> i) (t_members db),
     t_invites = filter (\<lambda>v. ti_team v \<noteq> i) (t_invites db), t_zones = filter (\<lambda>z. nz_team z \<noteq> i) (t_zones db)\<rparr>"

subsection \<open>Members\<close>

definition member_key :: "uuid \<Rightarrow> uuid \<Rightarrow> member_row \<Rightarrow> bool" where
  "member_key t u m \<longleftrightarrow> mb_team m = t \<and> mb_user m = u"

definition AddTeamMember :: "int \<Rightarrow> User list \<Rightarrow> uuid \<Rightarrow> uuid \<Rightarrow> string \<Rightarrow> team_db \<Rightarrow> team_db option" where
  "AddTeamMember now users t u role db =
     (if role \<notin> {''owner'', ''member''} then None
      else if list_ex (member_key t u) (t_members db) then Some db
      else if GetTeam db t = None \<or> GetUserByID users u = None then None
      else Some (db\<lparr>t_members := t_members db @ [\<lparr>mb_team = t, mb_user = u, mb_role = role, mb_joined_at = now\<rparr>]\<rparr>))"

definition RemoveTeamMember :: "uuid \<Rightarrow> uuid \<Rightarrow> team_db \<Rightarrow> team_db" where
  "RemoveTeamMember t u db = db\<lparr>t_members := filter (\<lambda>m. \<not> member_key t u m) (t_members db)\<rparr>"

definition role_of :: "team_db \<Rightarrow> uuid \<Rightarrow> uuid \<Rightarrow> string option" where
  "role_of db t u = map_option mb_role (find (member_key t u) (t_members db))"

definition other_owners :: "team_db \<Rightarrow> uuid \<Rightarrow> uuid \<Rightarrow> nat" where
  "other_owners db t u = length (filter (\<lambda>m. mb_team m = t \<and> mb_role m = ''owner'' \<and> mb_user m \<noteq> u) (t_members db))"

text \<open>\<open>None\<close> is \<^verbatim>\<open>ErrLastOwner\<close>.\<close>

definition RemoveTeamMemberKeepingOwner :: "uuid \<Rightarrow> uuid \<Rightarrow> team_db \<Rightarrow> team_db option" where
  "RemoveTeamMemberKeepingOwner t u db = (case role_of db t u of
      None \<Rightarrow> Some db
    | Some role \<Rightarrow>
        if role = ''owner'' \<and> other_owners db t u = 0 then None
        else Some (RemoveTeamMember t u db))"

definition with_user :: "User list \<Rightarrow> member_row \<Rightarrow> TeamMember option" where
  "with_user users m = (case GetUserByID users (mb_user m) of
      None \<Rightarrow> None
    | Some u \<Rightarrow> Some \<lparr>mb_team = mb_team m, mb_user = mb_user m, mb_role = mb_role m, mb_joined_at = mb_joined_at m,
        mb_name = us_name u, mb_email = us_email u\<rparr>)"

definition GetTeamMember :: "User list \<Rightarrow> team_db \<Rightarrow> uuid \<Rightarrow> uuid \<Rightarrow> TeamMember option" where
  "GetTeamMember users db t u = (case List.map_filter (with_user users) (filter (member_key t u) (t_members db)) of
      [] \<Rightarrow> None | m # _ \<Rightarrow> Some m)"

definition ListTeamMembers :: "User list \<Rightarrow> team_db \<Rightarrow> uuid \<Rightarrow> TeamMember list" where
  "ListTeamMembers users db t =
     List.map_filter (with_user users) (sort_key mb_joined_at (filter (\<lambda>m. mb_team m = t) (t_members db)))"

definition OwnsTeamWithMember :: "team_db \<Rightarrow> uuid \<Rightarrow> uuid \<Rightarrow> bool" where
  "OwnsTeamWithMember db owner member = list_ex (\<lambda>o'. mb_user o' = owner \<and> mb_role o' = ''owner'' \<and>
     list_ex (\<lambda>m. mb_team m = mb_team o' \<and> mb_user m = member \<and> mb_user m \<noteq> mb_user o') (t_members db)) (t_members db)"

subsection \<open>Invitations\<close>

definition CreateTeamInvite ::
  "uuid \<Rightarrow> int \<Rightarrow> string \<Rightarrow> User list \<Rightarrow> uuid \<Rightarrow> string \<Rightarrow> uuid \<Rightarrow> team_db \<Rightarrow> (team_db \<times> TeamInvite) option" where
  "CreateTeamInvite newid now token users t email invitedBy db =
     (if GetTeam db t = None \<or> GetUserByID users invitedBy = None \<or> list_ex (\<lambda>v. ti_token v = token) (t_invites db) then None
      else let v = \<lparr>ti_id = newid, ti_team = t, ti_email = email, ti_invited_by = invitedBy, ti_token = token, ti_status = ''pending'',
                    ti_created_at = now, ti_expires_at = now + 7 * day_ns\<rparr>
           in Some (db\<lparr>t_invites := t_invites db @ [v]\<rparr>, v))"

definition GetTeamInviteByToken :: "team_db \<Rightarrow> string \<Rightarrow> TeamInvite option" where
  "GetTeamInviteByToken db token = find (\<lambda>v. ti_token v = token) (t_invites db)"

definition AcceptTeamInvite :: "uuid \<Rightarrow> team_db \<Rightarrow> team_db" where
  "AcceptTeamInvite i db = db\<lparr>t_invites := map (\<lambda>v. if ti_id v = i then v\<lparr>ti_status := ''accepted''\<rparr> else v) (t_invites db)\<rparr>"

definition ExpireOldInvites :: "int \<Rightarrow> team_db \<Rightarrow> team_db" where
  "ExpireOldInvites now db = db\<lparr>t_invites := map (\<lambda>v. if ti_status v = ''pending'' \<and> ti_expires_at v < now
     then v\<lparr>ti_status := ''expired''\<rparr> else v) (t_invites db)\<rparr>"

subsection \<open>No-meeting zones\<close>

definition zone_fits :: "int \<Rightarrow> string \<Rightarrow> string \<Rightarrow> bool" where
  "zone_fits day st en \<longleftrightarrow> 0 \<le> day \<and> day \<le> 6 \<and> parse_hm st \<noteq> None \<and> parse_hm en \<noteq> None"

definition CreateNoMeetingZone ::
  "uuid \<Rightarrow> int \<Rightarrow> uuid \<Rightarrow> int \<Rightarrow> string \<Rightarrow> string \<Rightarrow> string \<Rightarrow> team_db \<Rightarrow> (team_db \<times> NoMeetingZone) option" where
  "CreateNoMeetingZone newid now t day st en label db =
     (if GetTeam db t = None \<or> \<not> zone_fits day st en then None
      else let z = \<lparr>nz_id = newid, nz_team = t, nz_day = day, nz_start = time_column st, nz_end = time_column en, nz_label = label, nz_created_at = now\<rparr>
           in Some (db\<lparr>t_zones := t_zones db @ [z]\<rparr>, z))"

text \<open>\<^verbatim>\<open>ORDER BY day_of_week, start_time\<close>; rows that agree in both keep the order of the table.\<close>

definition ListNoMeetingZones :: "team_db \<Rightarrow> uuid \<Rightarrow> NoMeetingZone list" where
  "ListNoMeetingZones db t =
     sort_key nz_day (sort_key (\<lambda>z. hhmmToMinutes (nz_start z)) (filter (\<lambda>z. nz_team z = t) (t_zones db)))"

text \<open>The outer \<open>None\<close> is a refused row, the inner one no row of that team.\<close>

definition UpdateNoMeetingZone ::
  "uuid \<Rightarrow> uuid \<Rightarrow> int \<Rightarrow> string \<Rightarrow> string \<Rightarrow> string \<Rightarrow> team_db \<Rightarrow> (team_db \<times> NoMeetingZone option) option" where
  "UpdateNoMeetingZone i t day st en label db =
     (let hit = (\<lambda>z. nz_id z = i \<and> nz_team z = t);
          put = (\<lambda>z. z\<lparr>nz_day := day, nz_start := time_column st, nz_end := time_column en, nz_label := label\<rparr>);
          db' = db\<lparr>t_zones := map (\<lambda>z. if hit z then put z else z) (t_zones db)\<rparr>
      in if \<not> list_ex hit (t_zones db) then Some (db, None)
         else if \<not> zone_fits day st en then None
         else Some (db', find hit (t_zones db')))"

definition DeleteNoMeetingZone :: "uuid \<Rightarrow> uuid \<Rightarrow> team_db \<Rightarrow> team_db" where
  "DeleteNoMeetingZone i t db = db\<lparr>t_zones := filter (\<lambda>z. \<not> (nz_id z = i \<and> nz_team z = t)) (t_zones db)\<rparr>"

subsection \<open>Owners\<close>

definition members_ok :: "team_db \<Rightarrow> bool" where
  "members_ok db \<longleftrightarrow> distinct (map (\<lambda>m. (mb_team m, mb_user m)) (t_members db))"

definition owned :: "team_db \<Rightarrow> uuid \<Rightarrow> bool" where
  "owned db t \<longleftrightarrow> list_ex (\<lambda>m. mb_team m = t \<and> mb_role m = ''owner'') (t_members db)"

lemma role_of_iff:
  assumes "members_ok db"
  shows "role_of db t u = Some r \<longleftrightarrow> (\<exists>m \<in> set (t_members db). member_key t u m \<and> mb_role m = r)"
proof -
  have "find (member_key t u) ms = Some m \<longleftrightarrow> m \<in> set ms \<and> member_key t u m"
    if "distinct (map (\<lambda>m. (mb_team m, mb_user m)) ms)" for ms m
    using that by (induction ms) (auto simp: member_key_def image_iff)
  then show ?thesis using assms by (auto simp: role_of_def members_ok_def)
qed

lemma other_owners_iff: "other_owners db t u \<noteq> 0 \<longleftrightarrow> (\<exists>m \<in> set (t_members db). mb_team m = t \<and> mb_role m = ''owner'' \<and> mb_user m \<noteq> u)"
  by (auto simp: other_owners_def filter_empty_conv)

lemma remove_keeps_owned:
  assumes "members_ok db" "owned db t" "role_of db t u \<noteq> Some ''owner'' \<or> other_owners db t u \<noteq> 0"
  shows "owned (RemoveTeamMember t u db) t"
proof -
  obtain m where m: "m \<in> set (t_members db)" "mb_team m = t" "mb_role m = ''owner''"
    using assms(2) by (auto simp: owned_def list_ex_iff)
  have "\<exists>x \<in> set (t_members db). mb_team x = t \<and> mb_role x = ''owner'' \<and> mb_user x \<noteq> u"
  proof (cases "other_owners db t u = 0")
    case True
    then have "mb_user m \<noteq> u" using assms(1,3) m role_of_iff [OF assms(1), of t u "''owner''"] by (auto simp: member_key_def)
    then show ?thesis using m by blast
  qed (use other_owners_iff in blast)
  then show ?thesis by (auto simp: owned_def RemoveTeamMember_def list_ex_iff member_key_def)
qed

lemma members_ok_remove: "members_ok db \<Longrightarrow> members_ok (RemoveTeamMember t u db)"
  by (simp add: members_ok_def RemoveTeamMember_def distinct_map_filter)

lemma members_ok_add: "members_ok db \<Longrightarrow> AddTeamMember now users t u role db = Some db' \<Longrightarrow> members_ok db'"
  by (auto simp: members_ok_def AddTeamMember_def list_ex_iff member_key_def split: if_splits)

lemma owned_add: "AddTeamMember now users t' u role db = Some db' \<Longrightarrow> owned db t \<Longrightarrow> owned db' t"
  by (auto simp: owned_def AddTeamMember_def split: if_splits)

subsection \<open>Concurrent removals\<close>

text \<open>
  Several removals from one team \<open>t\<close> run at once, removal \<open>i\<close> of user \<open>target i\<close>; each is a transaction
  whose statements see what others have committed. The first statement locks the team's row, and
  a lock is held until commit or rollback. \<open>rm_next\<close> is the next statement of removal \<open>i\<close>; it is
  \<open>None\<close> while the statement waits, or after the end. A removal without a team row locks nothing.
\<close>

datatype rm_pc = Begun | Locked | RoleRead string | MayDelete | Committed | RolledBack

record removals =
  rs_db :: team_db
  rs_lock :: "nat option"
  rs_pc :: "nat \<Rightarrow> rm_pc"

definition running :: "rm_pc \<Rightarrow> bool" where
  "running pc \<longleftrightarrow> pc \<noteq> Begun \<and> pc \<noteq> Committed \<and> pc \<noteq> RolledBack"

definition at_pc :: "nat \<Rightarrow> rm_pc \<Rightarrow> removals \<Rightarrow> removals" where
  "at_pc i pc s = s\<lparr>rs_pc := (rs_pc s)(i := pc)\<rparr>"

definition finish :: "nat \<Rightarrow> rm_pc \<Rightarrow> removals \<Rightarrow> removals" where
  "finish i pc s = (at_pc i pc s)\<lparr>rs_lock := (if rs_lock s = Some i then None else rs_lock s)\<rparr>"

definition rm_next :: "uuid \<Rightarrow> (nat \<Rightarrow> uuid) \<Rightarrow> nat \<Rightarrow> removals \<Rightarrow> removals option" where
  "rm_next t target i s = (case rs_pc s i of
      Begun \<Rightarrow>
        (if GetTeam (rs_db s) t = None then Some (at_pc i Locked s)
         else if rs_lock s = None then Some (at_pc i Locked (s\<lparr>rs_lock := Some i\<rparr>))
         else None)
    | Locked \<Rightarrow> (case role_of (rs_db s) t (target i) of
        None \<Rightarrow> Some (finish i Committed s)
      | Some role \<Rightarrow> Some (at_pc i (if role = ''owner'' then RoleRead role else MayDelete) s))
    | RoleRead role \<Rightarrow>
        (if other_owners (rs_db s) t (target i) = 0 then Some (finish i RolledBack s) else Some (at_pc i MayDelete s))
    | MayDelete \<Rightarrow> Some (finish i Committed (s\<lparr>rs_db := RemoveTeamMember t (target i) (rs_db s)\<rparr>))
    | Committed \<Rightarrow> None
    | RolledBack \<Rightarrow> None)"

text \<open>What may happen: a statement runs, or fails and rolls back, or a user joins a team.\<close>

inductive rm_step :: "uuid \<Rightarrow> (nat \<Rightarrow> uuid) \<Rightarrow> removals \<Rightarrow> removals \<Rightarrow> bool" for t target where
  stmt: "rm_next t target i s = Some s' \<Longrightarrow> rm_step t target s s'"
| stmt_fails: "running (rs_pc s i) \<Longrightarrow> rm_step t target s (finish i RolledBack s)"
| joins: "AddTeamMember now users t' u role (rs_db s) = Some db \<Longrightarrow> rm_step t target s (s\<lparr>rs_db := db\<rparr>)"

text \<open>The invariant: who runs holds the lock, and a removal past its checks is safe to finish.\<close>

definition rm_inv :: "uuid \<Rightarrow> (nat \<Rightarrow> uuid) \<Rightarrow> removals \<Rightarrow> bool" where
  "rm_inv t target s \<longleftrightarrow> members_ok (rs_db s) \<and> owned (rs_db s) t \<and> GetTeam (rs_db s) t \<noteq> None \<and>
     (\<forall>i. running (rs_pc s i) \<longrightarrow> rs_lock s = Some i) \<and>
     (\<forall>i. rs_pc s i = MayDelete \<longrightarrow> (\<exists>role. role_of (rs_db s) t (target i) = Some role \<and> (role = ''owner'' \<longrightarrow> other_owners (rs_db s) t (target i) \<noteq> 0))) \<and>
     (\<forall>i role. rs_pc s i = RoleRead role \<longrightarrow> role_of (rs_db s) t (target i) \<noteq> None)"

lemma GetTeam_same [simp]: "GetTeam (RemoveTeamMember t u db) = GetTeam db"
  by (simp add: GetTeam_def RemoveTeamMember_def fun_eq_iff)

lemma add_keeps:
  assumes "AddTeamMember now users t' u role db = Some db'"
  shows "role_of db t x = Some r \<Longrightarrow> role_of db' t x = Some r" "other_owners db t x \<noteq> 0 \<Longrightarrow> other_owners db' t x \<noteq> 0"
    "GetTeam db' = GetTeam db"
proof -
  have "find P xs = Some y \<Longrightarrow> find P (xs @ ys) = Some y" for P :: "member_row \<Rightarrow> bool" and xs ys y by (induction xs) auto
  then show "role_of db t x = Some r \<Longrightarrow> role_of db' t x = Some r" using assms by (auto simp: AddTeamMember_def role_of_def split: if_splits)
  show "other_owners db t x \<noteq> 0 \<Longrightarrow> other_owners db' t x \<noteq> 0" "GetTeam db' = GetTeam db"
    using assms by (auto simp: AddTeamMember_def other_owners_def GetTeam_def fun_eq_iff split: if_splits)
qed

lemma rm_inv_lock: "rm_inv t target s \<Longrightarrow> running (rs_pc s i) \<Longrightarrow> rs_lock s = Some i"
  by (simp add: rm_inv_def)

lemma finish_inv:
  assumes "rm_inv t target s" "\<not> running pc" "running (rs_pc s i)"
    and "db = rs_db s \<or> (db = RemoveTeamMember t (target i) (rs_db s) \<and> rs_pc s i = MayDelete)"
  shows "rm_inv t target (finish i pc (s\<lparr>rs_db := db\<rparr>))"
proof -
  have lock: "rs_lock s = Some i" using assms(1,3) by (simp add: rm_inv_def)
  have idle: "\<not> running (rs_pc s j)" if "j \<noteq> i" for j using assms(1) lock that by (auto simp: rm_inv_def)
  have "members_ok db \<and> owned db t \<and> GetTeam db t \<noteq> None"
    using assms(1,4) members_ok_remove remove_keeps_owned [of "rs_db s" t "target i"] by (auto simp: rm_inv_def)
  moreover have none: "\<not> running (rs_pc (finish i pc (s\<lparr>rs_db := db\<rparr>)) j)" for j
    using idle [of j] assms(2) by (simp add: finish_def at_pc_def)
  moreover have "rs_pc (finish i pc (s\<lparr>rs_db := db\<rparr>)) j \<noteq> MayDelete" "rs_pc (finish i pc (s\<lparr>rs_db := db\<rparr>)) j \<noteq> RoleRead role" for j role
    using none [of j] by (auto simp: running_def)
  moreover have "rs_db (finish i pc (s\<lparr>rs_db := db\<rparr>)) = db" by (simp add: finish_def at_pc_def)
  ultimately show ?thesis unfolding rm_inv_def by simp
qed

lemma advance_inv:
  assumes "rm_inv t target s" "running (rs_pc s i)"
    and "pc = MayDelete \<Longrightarrow> \<exists>role. role_of (rs_db s) t (target i) = Some role \<and> (role = ''owner'' \<longrightarrow> other_owners (rs_db s) t (target i) \<noteq> 0)"
    and "\<And>role. pc = RoleRead role \<Longrightarrow> role_of (rs_db s) t (target i) \<noteq> None"
  shows "rm_inv t target (at_pc i pc s)"
proof -
  have "rs_lock s = Some j" if "running (rs_pc (at_pc i pc s) j)" for j
    using rm_inv_lock [OF assms(1), of j] assms(2) that by (cases "j = i") (simp_all add: at_pc_def)
  then show ?thesis using assms unfolding rm_inv_def by (simp add: at_pc_def) blast
qed

lemma rm_next_inv:
  assumes "rm_inv t target s" "rm_next t target i s = Some s'"
  shows "rm_inv t target s'"
proof (cases "rs_pc s i")
  case Begun
  then have "rs_lock s = None" "s' = at_pc i Locked (s\<lparr>rs_lock := Some i\<rparr>)"
    using assms by (auto simp: rm_next_def rm_inv_def split: if_splits)
  then show ?thesis using assms(1) by (auto simp: rm_inv_def at_pc_def)
next
  case Locked
  then have run: "running (rs_pc s i)" by (simp add: running_def)
  show ?thesis
  proof (cases "role_of (rs_db s) t (target i)")
    case None
    then have "s' = finish i Committed (s\<lparr>rs_db := rs_db s\<rparr>)" using assms(2) Locked by (simp add: rm_next_def)
    then show ?thesis using finish_inv [OF assms(1) _ run, of Committed "rs_db s"] by (simp add: running_def)
  next
    case (Some role)
    then have "s' = at_pc i (if role = ''owner'' then RoleRead role else MayDelete) s" using assms(2) Locked by (simp add: rm_next_def)
    then show ?thesis using advance_inv [OF assms(1) run] Some by (auto split: if_splits)
  qed
next
  case (RoleRead role)
  then have run: "running (rs_pc s i)" by (simp add: running_def)
  then show ?thesis using assms RoleRead finish_inv [OF assms(1) _ run, of RolledBack "rs_db s"] advance_inv [OF assms(1) run, of MayDelete]
    by (auto simp: rm_next_def running_def rm_inv_def split: if_splits)
next
  case MayDelete
  then have run: "running (rs_pc s i)" by (simp add: running_def)
  then show ?thesis using assms(2) MayDelete finish_inv [OF assms(1) _ run, of Committed] by (auto simp: rm_next_def running_def)
qed (use assms(2) in \<open>simp_all add: rm_next_def\<close>)

lemma rm_step_inv:
  assumes "rm_step t target s s'" "rm_inv t target s"
  shows "rm_inv t target s'"
  using assms
proof cases
  case (stmt i)
  then show ?thesis using rm_next_inv assms(2) by blast
next
  case (stmt_fails i)
  then show ?thesis using finish_inv [OF assms(2), of RolledBack i "rs_db s"] by (simp add: running_def)
next
  case (joins now users t' u role db)
  then show ?thesis using assms(2) add_keeps [OF joins(2)] members_ok_add owned_add
    by (auto simp: rm_inv_def)
qed

text \<open>
  C7. However many removals from one team run at once,
  however their statements interleave, fail or mix with users joining, a team that has an owner
  keeps one. The lock on the team's row is what this rests on.
\<close>

theorem owner_survives_concurrent_removals:
  assumes "members_ok (rs_db s)" "owned (rs_db s) t" "GetTeam (rs_db s) t \<noteq> None" "\<And>i. rs_pc s i = Begun"
    and "(rm_step t target)\<^sup>*\<^sup>* s s'"
  shows "owned (rs_db s') t"
proof -
  have "rm_inv t target s" using assms(1-4) by (auto simp: rm_inv_def running_def)
  with assms(5) have "rm_inv t target s'" by (induction rule: rtranclp_induct) (auto intro: rm_step_inv)
  then show ?thesis by (simp add: rm_inv_def)
qed

text \<open>A team with two owners who remove themselves at the same time: the second one waits and is refused.\<close>

definition ex_team_db :: team_db where
  "ex_team_db = \<lparr>t_teams = [\<lparr>tm_id = 5, tm_org = None, tm_name = ''Core'', tm_created_by = 1, tm_created_at = 0\<rparr>],
     t_members = [\<lparr>mb_team = 5, mb_user = 1, mb_role = ''owner'', mb_joined_at = 0\<rparr>, \<lparr>mb_team = 5, mb_user = 2, mb_role = ''owner'', mb_joined_at = 1\<rparr>],
     t_invites = [], t_zones = []\<rparr>"

definition ex_removals :: removals where
  "ex_removals = \<lparr>rs_db = ex_team_db, rs_lock = None, rs_pc = (\<lambda>_. Begun)\<rparr>"

fun run_turns :: "nat list \<Rightarrow> removals \<Rightarrow> removals" where
  "run_turns [] s = s"
| "run_turns (i # is) s = run_turns is (case rm_next 5 Suc i s of Some s' \<Rightarrow> s' | None \<Rightarrow> s)"

lemma run_turns_steps: "(rm_step 5 Suc)\<^sup>*\<^sup>* s (run_turns is s)"
proof (induction "is" arbitrary: s)
  case (Cons i "is")
  show ?case
  proof (cases "rm_next 5 Suc i s")
    case (Some s')
    then show ?thesis using Cons converse_rtranclp_into_rtranclp [of "rm_step 5 Suc" s s', OF stmt] by simp
  qed (use Cons in simp)
qed simp

theorem owner_survives_concurrent_removals_witness:
  "owned (rs_db (run_turns [0, 1, 0, 0, 1, 0, 1, 1, 1] ex_removals)) 5 \<and>
   rs_pc (run_turns [0, 1, 0, 0, 1, 0, 1, 1, 1] ex_removals) 0 = Committed \<and>
   rs_pc (run_turns [0, 1, 0, 0, 1, 0, 1, 1, 1] ex_removals) 1 = RolledBack"
proof -
  have "members_ok (rs_db ex_removals)" "owned (rs_db ex_removals) 5" "GetTeam (rs_db ex_removals) 5 \<noteq> None" "rs_pc ex_removals i = Begun" for i
    by (simp_all add: ex_removals_def ex_team_db_def members_ok_def owned_def GetTeam_def)
  from owner_survives_concurrent_removals [OF this run_turns_steps] have "owned (rs_db (run_turns [0, 1, 0, 0, 1, 0, 1, 1, 1] ex_removals)) 5" .
  moreover have "rs_pc (run_turns [0, 1, 0, 0, 1, 0, 1, 1, 1] ex_removals) 0 = Committed"
    "rs_pc (run_turns [0, 1, 0, 0, 1, 0, 1, 1, 1] ex_removals) 1 = RolledBack"
    by code_simp+
  ultimately show ?thesis by simp
qed

end
