(* ===== verification/TeamAvail.thy ===== *)
theory TeamAvail
  imports TeamStore FocusTime Stepping Peritem
begin

section \<open>TeamAvail: slots a whole team is free for\<close>

text \<open>
  \<^verbatim>\<open>backend/engine/team_availability.go\<close>: the busy time of every member, read on the per-item
  pool (\<open>Peritem\<close>), and the team's no-meeting zones are taken out of the working day, nine to
  eighteen UTC; what is left is offered every fifteen minutes with a score. The members'
  calendars (\<open>None\<close>: no token, no client or a failed list), the focus blocks, the weekly analytics
  and the failing reads are the environment.
\<close>

record TeamSlot =
  sl_from :: gotime
  sl_to :: gotime
  sl_score :: int

record MemberAnalyticsSummary =
  ma_user :: uuid
  ma_name :: string
  ma_meeting :: int
  ma_focus :: int
  ma_score :: int

record TeamAnalytics =
  ta_avg_meeting :: int
  ta_avg_focus :: int
  ta_breakdown :: "MemberAnalyticsSummary list"

record memberBusyData =
  md_busy :: "interval list"
  md_focus :: "interval list"

record team_env =
  tv_members_fail :: "string option"
  tv_zones_fail :: "string option"
  tv_events :: "uuid \<Rightarrow> gotime \<Rightarrow> gotime \<Rightarrow> event list option"
  tv_focus :: "FocusRow list"
  tv_focus_fails :: "uuid \<Rightarrow> bool"
  tv_week :: "uuid \<Rightarrow> int \<Rightarrow> (int \<times> int \<times> int) option"

definition defaultWorkStart :: string where "defaultWorkStart = ''09:00''"
definition defaultWorkEnd :: string where "defaultWorkEnd = ''18:00''"

definition event_busy :: "event \<Rightarrow> interval option" where
  "event_busy ev =
     (if ev_transparency ev = ''transparent'' then None
      else case parseEventTime ev of (s, e2) \<Rightarrow> if \<not> IsZero s \<and> \<not> IsZero e2 then Some (ivl s e2) else None)"

definition memberBusy :: "team_env \<Rightarrow> uuid \<Rightarrow> gotime \<Rightarrow> gotime \<Rightarrow> gotime \<Rightarrow> memberBusyData" where
  "memberBusy env u day dayStart dayEnd =
     (let busy = (case tv_events env u dayStart dayEnd of None \<Rightarrow> [] | Some events \<Rightarrow> List.map_filter event_busy events);
          fbs = (if tv_focus_fails env u then [] else ListFocusBlocksForUserWeek (tv_focus env) u day);
          focus = map (\<lambda>fb. ivl (fb_start fb) (fb_end fb)) (filter (\<lambda>fb. date_of (fb_start fb) = date_of day) fbs)
      in \<lparr>md_busy = busy @ focus, md_focus = focus\<rparr>)"

definition teamQualityScore :: "interval \<Rightarrow> memberBusyData list \<Rightarrow> int" where
  "teamQualityScore slot members =
     (if members = [] then 100
      else let disrupted = length (filter (\<lambda>m. list_ex (\<lambda>fb. Before (istart slot) (iend fb) \<and> After (iend slot) (istart fb)) (md_focus m)) members)
           in 100 - go_quot (int disrupted * 100) (int (length members)))"

definition zone_ivls :: "NoMeetingZone list \<Rightarrow> gotime \<Rightarrow> interval list" where
  "zone_ivls zones day =
     map (\<lambda>z. ivl (parseHHMM (nz_start z) day UTC) (parseHHMM (nz_end z) day UTC)) (filter (\<lambda>z. nz_day z = Weekday day) zones)"

definition team_work :: "gotime \<Rightarrow> interval" where
  "team_work day = ivl (parseHHMM defaultWorkStart day UTC) (parseHHMM defaultWorkEnd day UTC)"

definition slots_in :: "memberBusyData list \<Rightarrow> int \<Rightarrow> interval \<Rightarrow> TeamSlot list" where
  "slots_in mdata dur f =
     (if Sub (iend f) (istart f) < dur then []
      else map (\<lambda>cursor. let end' = Add cursor dur
             in \<lparr>sl_from = cursor, sl_to = end', sl_score = teamQualityScore (ivl cursor end') mdata\<rparr>)
           (starts_until (15 * minute_ns) (istart f) (iend f) dur))"

definition team_busy :: "memberBusyData list \<Rightarrow> NoMeetingZone list \<Rightarrow> gotime \<Rightarrow> interval list" where
  "team_busy mdata zones day = concat (map md_busy mdata) @ zone_ivls zones day"

definition FindSlots ::
  "bool \<Rightarrow> team_env \<Rightarrow> User list \<Rightarrow> team_db \<Rightarrow> uuid \<Rightarrow> gotime \<Rightarrow> int \<Rightarrow> TeamSlot list result" where
  "FindSlots wascut env users db t day durationMinutes = (case tv_members_fail env of
      Some e \<Rightarrow> Inl (OtherError (''list members: '' @ e))
    | None \<Rightarrow>
        let members = ListTeamMembers users db t
        in if members = [] then Inr []
           else (case tv_zones_fail env of
               Some e \<Rightarrow> Inl (OtherError (''list zones: '' @ e))
             | None \<Rightarrow>
                 let zones = ListNoMeetingZones db t;
                     dayStart = go_date (date_of day) 0 0 0 0 UTC;
                     dayEnd = Add dayStart day_ns
                 in (case run_items wascut (length members) (\<lambda>i. memberBusy env (mb_user (members ! i)) day dayStart dayEnd) of
                     Inl e \<Rightarrow> Inl e
                   | Inr mdata \<Rightarrow>
                       let free = subtractIntervals (team_work day) (mergeIntervals (team_busy mdata zones day))
                       in Inr (concat (map (slots_in mdata (durationMinutes * minute_ns)) free)))))"

text \<open>\<open>tv_week\<close>: meeting minutes, focus minutes and score of a user's stored week, if it is there.\<close>

definition summary :: "team_env \<Rightarrow> gotime \<Rightarrow> TeamMember \<Rightarrow> MemberAnalyticsSummary" where
  "summary env weekStart m = (case tv_week env (mb_user m) (date_of weekStart) of
      None \<Rightarrow> \<lparr>ma_user = mb_user m, ma_name = mb_name m, ma_meeting = 0, ma_focus = 0, ma_score = 0\<rparr>
    | Some (mm, fm, sc) \<Rightarrow> \<lparr>ma_user = mb_user m, ma_name = mb_name m, ma_meeting = mm, ma_focus = fm, ma_score = sc\<rparr>)"

definition GetTeamAnalytics :: "team_env \<Rightarrow> User list \<Rightarrow> team_db \<Rightarrow> uuid \<Rightarrow> gotime \<Rightarrow> TeamAnalytics result" where
  "GetTeamAnalytics env users db t weekStart = (case tv_members_fail env of
      Some e \<Rightarrow> Inl (OtherError (''list members: '' @ e))
    | None \<Rightarrow>
        let members = ListTeamMembers users db t;
            breakdown = map (summary env weekStart) members;
            n = (if members = [] then 1 else int (length members))
        in Inr \<lparr>ta_avg_meeting = go_quot (sum_list (map ma_meeting breakdown)) n,
                ta_avg_focus = go_quot (sum_list (map ma_focus breakdown)) n, ta_breakdown = breakdown\<rparr>)"

subsection \<open>Properties\<close>

lemma FindSlots_Inr:
  assumes "FindSlots wascut env users db t day dm = Inr slots" "s \<in> set slots"
  obtains mdata f where "mdata = map (\<lambda>m. memberBusy env (mb_user m) day (go_date (date_of day) 0 0 0 0 UTC) (Add (go_date (date_of day) 0 0 0 0 UTC) day_ns))
      (ListTeamMembers users db t)"
    "f \<in> set (subtractIntervals (team_work day) (mergeIntervals (team_busy mdata (ListNoMeetingZones db t) day)))"
    "s \<in> set (slots_in mdata (dm * minute_ns) f)"
proof -
  let ?g = "\<lambda>m. memberBusy env (mb_user m) day (go_date (date_of day) 0 0 0 0 UTC) (Add (go_date (date_of day) 0 0 0 0 UTC) day_ns)"
  obtain mdata where run: "run_items wascut (length (ListTeamMembers users db t)) (\<lambda>i. ?g (ListTeamMembers users db t ! i)) = Inr mdata"
    and slots: "slots = concat (map (slots_in mdata (dm * minute_ns))
       (subtractIntervals (team_work day) (mergeIntervals (team_busy mdata (ListNoMeetingZones db t) day))))"
    using assms by (auto simp: FindSlots_def Let_def split: option.splits if_splits sum.splits)
  have "mdata = map ?g (ListTeamMembers users db t)" using pool.run_over_list [OF run] .
  then show ?thesis using that slots assms(2) by auto
qed

lemma slots_in_mem:
  assumes "s \<in> set (slots_in mdata dur f)"
  shows "lo f \<le> ns (sl_from s)" "ns (sl_to s) = ns (sl_from s) + dur" "ns (sl_to s) \<le> hi f"
    "sl_score s = teamQualityScore (ivl (sl_from s) (sl_to s)) mdata"
  using assms starts_until_fits [of "15 * minute_ns" _ "istart f" "iend f" dur]
  by (auto simp: slots_in_def Let_def Add_def split: if_splits)

lemma undisrupted:
  assumes "\<And>m b. m \<in> set mdata \<Longrightarrow> b \<in> set (md_focus m) \<Longrightarrow> \<not> overlaps slot b"
  shows "teamQualityScore slot mdata = 100"
proof -
  have "filter (\<lambda>m. list_ex (\<lambda>fb. Before (istart slot) (iend fb) \<and> After (iend slot) (istart fb)) (md_focus m)) mdata = []"
    using assms by (auto simp: filter_empty_conv list_ex_iff overlaps_def)
  then show ?thesis unfolding teamQualityScore_def by (simp add: go_quot_def)
qed

definition day_data :: "team_env \<Rightarrow> User list \<Rightarrow> team_db \<Rightarrow> uuid \<Rightarrow> gotime \<Rightarrow> memberBusyData list" where
  "day_data env users db t day = map (\<lambda>m. memberBusy env (mb_user m) day (go_date (date_of day) 0 0 0 0 UTC)
     (Add (go_date (date_of day) 0 0 0 0 UTC) day_ns)) (ListTeamMembers users db t)"

lemma team_slot_free:
  assumes "FindSlots wascut env users db t day dm = Inr slots" "s \<in> set slots" "0 \<le> dm"
    and "list_all valid_ivl (team_busy (day_data env users db t day) (ListNoMeetingZones db t) day)" "lo (team_work day) < hi (team_work day)"
  shows "lo (team_work day) \<le> ns (sl_from s)" "ns (sl_to s) \<le> hi (team_work day)" "ns (sl_to s) = ns (sl_from s) + dm * minute_ns"
    "\<And>b. b \<in> set (team_busy (day_data env users db t day) (ListNoMeetingZones db t) day) \<Longrightarrow> \<not> overlaps (ivl (sl_from s) (sl_to s)) b"
    "sl_score s = teamQualityScore (ivl (sl_from s) (sl_to s)) (day_data env users db t day)"
proof -
  let ?busy = "team_busy (day_data env users db t day) (ListNoMeetingZones db t) day"
  obtain f where f: "f \<in> set (subtractIntervals (team_work day) (mergeIntervals ?busy))"
    "s \<in> set (slots_in (day_data env users db t day) (dm * minute_ns) f)"
    using FindSlots_Inr [OF assms(1,2)] unfolding day_data_def by metis
  have v: "list_all valid_ivl (mergeIntervals ?busy)" using mergeIntervals_valid [OF assms(4)] .
  note w = subtractIntervals_within [OF v f(1)]
  show "ns (sl_to s) = ns (sl_from s) + dm * minute_ns" "sl_score s = teamQualityScore (ivl (sl_from s) (sl_to s)) (day_data env users db t day)"
    using slots_in_mem [OF f(2)] by simp_all
  show "lo (team_work day) \<le> ns (sl_from s)" "ns (sl_to s) \<le> hi (team_work day)" using slots_in_mem [OF f(2)] w by linarith+
  show "\<not> overlaps (ivl (sl_from s) (sl_to s)) b" if "b \<in> set ?busy" for b
    using inside_free [OF _ _ free_of_busy [OF assms(4,5) f(1) that], of "ivl (sl_from s) (sl_to s)"] slots_in_mem [OF f(2)] by simp
qed

lemma team_work_hours: "lo (team_work day) = date_of day * day_ns + 9 * 60 * minute_ns" "hi (team_work day) = date_of day * day_ns + 18 * 60 * minute_ns"
proof -
  have "scan_hhmm ''09:00'' = (9, 0)" "scan_hhmm ''18:00'' = (18, 0)" by code_simp+
  then show "lo (team_work day) = date_of day * day_ns + 9 * 60 * minute_ns" "hi (team_work day) = date_of day * day_ns + 18 * 60 * minute_ns"
    by (simp_all add: team_work_def defaultWorkStart_def defaultWorkEnd_def parseHHMM_def go_date_def unix_of_wall_def wall_sec_def)
qed

lemma team_work_open: "lo (team_work day) < hi (team_work day)"
  by (simp add: team_work_hours)

text \<open>
  C10. Every slot offered has the length asked for, lies between nine and
  eighteen UTC of the day, and overlaps no event or focus block of any member and no no-meeting
  zone of that weekday, provided no busy interval ends before it starts.
\<close>

theorem team_slots_are_free:
  assumes "FindSlots wascut env users db t day dm = Inr slots" "s \<in> set slots" "0 \<le> dm"
    and "list_all valid_ivl (team_busy (day_data env users db t day) (ListNoMeetingZones db t) day)"
  shows "ns (sl_to s) = ns (sl_from s) + dm * minute_ns \<and>
    date_of day * day_ns + 9 * 60 * minute_ns \<le> ns (sl_from s) \<and> ns (sl_to s) \<le> date_of day * day_ns + 18 * 60 * minute_ns \<and>
    (\<forall>md \<in> set (day_data env users db t day). \<forall>b \<in> set (md_busy md). \<not> overlaps (ivl (sl_from s) (sl_to s)) b) \<and>
    (\<forall>z \<in> set (ListNoMeetingZones db t). nz_day z = Weekday day \<longrightarrow>
       \<not> overlaps (ivl (sl_from s) (sl_to s)) (ivl (parseHHMM (nz_start z) day UTC) (parseHHMM (nz_end z) day UTC)))"
  using team_slot_free [OF assms team_work_open]
  unfolding team_work_hours team_busy_def by (auto simp: zone_ivls_def)

text \<open>
  The quality score of every slot offered is 100: the focus blocks
  it should count as disrupted are part of the busy time that was taken out before.
\<close>

theorem team_score_is_constant:
  assumes "FindSlots wascut env users db t day dm = Inr slots" "s \<in> set slots" "0 \<le> dm"
    and "list_all valid_ivl (team_busy (day_data env users db t day) (ListNoMeetingZones db t) day)"
  shows "sl_score s = 100"
proof -
  have focus: "b \<in> set (md_busy md)" if "md \<in> set (day_data env users db t day)" "b \<in> set (md_focus md)" for md b
    using that by (auto simp: day_data_def memberBusy_def Let_def)
  have "\<not> overlaps (ivl (sl_from s) (sl_to s)) b" if "md \<in> set (day_data env users db t day)" "b \<in> set (md_focus md)" for md b
  proof -
    have "b \<in> set (team_busy (day_data env users db t day) (ListNoMeetingZones db t) day)"
      using focus [OF that] that(1) by (auto simp: team_busy_def)
    from team_slot_free(4) [OF assms team_work_open this] show ?thesis .
  qed
  then have "teamQualityScore (ivl (sl_from s) (sl_to s)) (day_data env users db t day) = 100" by (rule undisrupted)
  then show ?thesis using team_slot_free(5) [OF assms team_work_open] by simp
qed

text \<open>A team of one whose focus block fills the day but for the last two hours.\<close>

definition ex_member :: User where
  "ex_member = \<lparr>us_id = 1, us_email = ''a@x.org'', us_name = ''A'', us_avatar = '''', us_provider = '''', us_provider_id = '''', us_org = None, us_created_at = 0\<rparr>"

definition ex_team_env :: team_env where
  "ex_team_env = \<lparr>tv_members_fail = None, tv_zones_fail = None, tv_events = (\<lambda>_ _ _. Some []),
     tv_focus = [\<lparr>fb_id = 1, fb_user = Some 1, fb_event = '''', fb_start = go_date 20458 8 0 0 0 UTC, fb_end = go_date 20458 16 0 0 0 UTC, fb_date = 20458\<rparr>],
     tv_focus_fails = (\<lambda>_. False), tv_week = (\<lambda>_ _. None)\<rparr>"

definition ex_team_day :: gotime where "ex_team_day = go_date 20458 0 0 0 0 UTC"

definition ex_zone_db :: team_db where
  "ex_zone_db = ex_team_db\<lparr>t_zones := [\<lparr>nz_id = 1, nz_team = 5, nz_day = 1, nz_start = ''17:30:00'', nz_end = ''18:00:00'', nz_label = '''', nz_created_at = 0\<rparr>]\<rparr>"

lemma ex_find: "map_sum id (map sl_from) (FindSlots False ex_team_env [ex_member] ex_zone_db 5 ex_team_day 60) =
    Inr [go_date 20458 16 0 0 0 UTC, go_date 20458 16 15 0 0 UTC, go_date 20458 16 30 0 0 UTC]"
  by code_simp

lemma ex_team_valid: "list_all valid_ivl (team_busy (day_data ex_team_env [ex_member] ex_zone_db 5 ex_team_day) (ListNoMeetingZones ex_zone_db 5) ex_team_day)"
  by code_simp


lemma ex_first_offer: "\<exists>slots s. FindSlots False ex_team_env [ex_member] ex_zone_db 5 ex_team_day 60 = Inr slots \<and> s \<in> set slots \<and> sl_from s = go_date 20458 16 30 0 0 UTC"
proof -
  obtain slots where s: "FindSlots False ex_team_env [ex_member] ex_zone_db 5 ex_team_day 60 = Inr slots"
    "map sl_from slots = [go_date 20458 16 0 0 0 UTC, go_date 20458 16 15 0 0 UTC, go_date 20458 16 30 0 0 UTC]"
    using ex_find by (cases "FindSlots False ex_team_env [ex_member] ex_zone_db 5 ex_team_day 60") auto
  from s(2) have "go_date 20458 16 30 0 0 UTC \<in> sl_from ` set slots" by (metis list.set_intros(1,2) list.set_map)
  then show ?thesis using s(1) by auto
qed

theorem team_slots_are_free_witness:
  "\<exists>slots s. FindSlots False ex_team_env [ex_member] ex_zone_db 5 ex_team_day 60 = Inr slots \<and> s \<in> set slots \<and>
     sl_from s = go_date 20458 16 30 0 0 UTC \<and> ns (sl_to s) = ns (sl_from s) + 60 * minute_ns"
  using ex_first_offer team_slots_are_free [OF _ _ _ ex_team_valid] by fastforce

theorem team_score_is_constant_witness:
  "\<exists>slots s. FindSlots False ex_team_env [ex_member] ex_zone_db 5 ex_team_day 60 = Inr slots \<and> s \<in> set slots \<and>
     sl_from s = go_date 20458 16 30 0 0 UTC \<and> sl_score s = 100"
  using ex_first_offer team_score_is_constant [OF _ _ _ ex_team_valid] by fastforce

end
