(* ===== verification/TeamHandlers.thy ===== *)
theory TeamHandlers
  imports TeamAvail BookingRule
begin

section \<open>TeamHandlers: the routes of teams\<close>

text \<open>
  \<^verbatim>\<open>backend/api/handlers_teams.go\<close>: every route of a team, its members, invitations, no-meeting
  zones, availability and analytics. A handler maps the request and the server's state to the
  new state and the answer. The request names the statements that fail, and carries the id,
  token and clock of new rows; the email parser of \<^verbatim>\<open>net/mail\<close> is the argument \<open>addr\<close>. Invitation
  emails are the list of what the background unit is given.
\<close>

record teamInvitePreview =
  tp_team_name :: string
  tp_inviter_name :: string
  tp_email :: string
  tp_team :: uuid
  tp_expires_at :: int
  tp_inviter_email :: "string option"

datatype team_body =
    NoTeamBody
  | TeamError string
  | TeamBody Team
  | TeamsBody "Team list"
  | DetailBody Team "TeamMember list"
  | InviteBody TeamInvite
  | PreviewBody teamInvitePreview
  | ZoneBody NoMeetingZone
  | ZonesBody "NoMeetingZone list"
  | SlotsBody "TeamSlot list"
  | AnalyticsBody TeamAnalytics

datatype team_answer = TeamAnswer (tn_status: int) (tn_body: team_body) | TeamExpired

record team_request =
  tq_user :: uuid
  tq_team :: "uuid option"
  tq_other :: "uuid option"
  tq_token :: string
  tq_fails :: "string list"
  tq_new_id :: uuid
  tq_new_token :: string
  tq_now :: int

record invite_mail =
  im_to :: string
  im_inviter :: string
  im_team :: string
  im_token :: string

record team_server =
  tk_db :: team_db
  tk_users :: "User list"
  tk_mails :: "invite_mail list"

definition refuse :: "string \<Rightarrow> int \<Rightarrow> team_answer" where
  "refuse msg code = TeamAnswer code (TeamError msg)"

definition server_error :: "string \<Rightarrow> team_answer" where
  "server_error op = refuse (genericServerMessage 500) 500"

definition broken :: "team_request \<Rightarrow> string \<Rightarrow> bool" where
  "broken rq stmt \<longleftrightarrow> stmt \<in> set (tq_fails rq)"

definition put_team_db :: "team_db \<Rightarrow> team_server \<Rightarrow> team_server" where
  "put_team_db db sv = sv\<lparr>tk_db := db\<rparr>"

subsection \<open>Helpers\<close>

definition requireMember :: "team_request \<Rightarrow> team_server \<Rightarrow> uuid \<Rightarrow> TeamMember option" where
  "requireMember rq sv t = (if broken rq ''GetTeamMember'' then None else GetTeamMember (tk_users sv) (tk_db sv) t (tq_user rq))"

definition requireOwner :: "team_request \<Rightarrow> team_server \<Rightarrow> uuid \<Rightarrow> bool" where
  "requireOwner rq sv t \<longleftrightarrow> (case requireMember rq sv t of None \<Rightarrow> False | Some m \<Rightarrow> mb_role m = ''owner'')"

definition validateNoMeetingZone :: "int \<Rightarrow> string \<Rightarrow> string \<Rightarrow> string option" where
  "validateNoMeetingZone day st en =
     (if day < 1 \<or> day > 7 then Some ''dayOfWeek must be between 1 and 7''
      else if TrimSpace st = '''' \<or> TrimSpace en = '''' then Some ''startTime and endTime are required''
      else case parse_hm (TrimSpace st) of
          None \<Rightarrow> Some ''startTime must be HH:MM''
        | Some (h1, m1, _) \<Rightarrow> (case parse_hm (TrimSpace en) of
            None \<Rightarrow> Some ''endTime must be HH:MM''
          | Some (h2, m2, _) \<Rightarrow> if \<not> h1 * 60 + m1 < h2 * 60 + m2 then Some ''startTime must be before endTime'' else None))"

definition storageWeekday :: "int \<Rightarrow> int" where "storageWeekday d = (if d = 7 then 0 else d)"
definition apiWeekday :: "int \<Rightarrow> int" where "apiWeekday d = (if d = 0 then 7 else d)"

definition api_zone :: "NoMeetingZone \<Rightarrow> NoMeetingZone" where
  "api_zone z = z\<lparr>nz_day := apiWeekday (nz_day z)\<rparr>"

definition normalizeManagerEmail :: "(string \<Rightarrow> string option) \<Rightarrow> string \<Rightarrow> string + string" where
  "normalizeManagerEmail addr raw =
     (let email = ToLower (TrimSpace raw)
      in if email = '''' then Inl ''email is required''
         else if addr email \<noteq> Some email then Inl ''email must be a valid email address''
         else Inr email)"

definition teamDetailBody :: "Team \<Rightarrow> TeamMember list \<Rightarrow> team_body" where
  "teamDetailBody team members = DetailBody team members"

text \<open>The start of a route that only owners, or only members, may use.\<close>

definition as_owner :: "team_request \<Rightarrow> team_server \<Rightarrow> team_answer + uuid" where
  "as_owner rq sv = (case tq_team rq of
      None \<Rightarrow> Inl (refuse ''invalid team id'' 400)
    | Some t \<Rightarrow> if \<not> requireOwner rq sv t then Inl (refuse ''forbidden'' 403) else Inr t)"

definition as_member :: "team_request \<Rightarrow> team_server \<Rightarrow> team_answer + uuid" where
  "as_member rq sv = (case tq_team rq of
      None \<Rightarrow> Inl (refuse ''invalid team id'' 400)
    | Some t \<Rightarrow> if requireMember rq sv t = None then Inl (refuse ''forbidden'' 403) else Inr t)"

subsection \<open>Teams\<close>

text \<open>A body that does not decode is \<open>None\<close>. The error of adding the owner is dropped.\<close>

definition createTeam :: "team_request \<Rightarrow> string option \<Rightarrow> team_server \<Rightarrow> team_server \<times> team_answer" where
  "createTeam rq body sv =
     (if tq_user rq = 0 then (sv, refuse ''unauthorized'' 401)
      else case body of
          None \<Rightarrow> (sv, refuse ''name is required'' 400)
        | Some nm \<Rightarrow>
            if TrimSpace nm = '''' then (sv, refuse ''name is required'' 400)
            else if broken rq ''CreateTeam'' then (sv, server_error ''createTeam'')
            else (case CreateTeam (tq_new_id rq) (tq_now rq) (tk_users sv) (TrimSpace nm) (tq_user rq) (tk_db sv) of
                None \<Rightarrow> (sv, server_error ''createTeam'')
              | Some (db, team) \<Rightarrow>
                  let db' = (if broken rq ''AddTeamMember'' then db
                             else case AddTeamMember (tq_now rq) (tk_users sv) (tm_id team) (tq_user rq) ''owner'' db of
                                 None \<Rightarrow> db | Some db' \<Rightarrow> db')
                  in (put_team_db db' sv, TeamAnswer 201 (TeamBody team))))"

definition listTeams :: "team_request \<Rightarrow> team_server \<Rightarrow> team_answer" where
  "listTeams rq sv =
     (if tq_user rq = 0 then refuse ''unauthorized'' 401
      else if broken rq ''ListTeamsForUser'' then server_error ''listTeams''
      else TeamAnswer 200 (TeamsBody (ListTeamsForUser (tk_db sv) (tq_user rq))))"

definition getTeam :: "team_request \<Rightarrow> team_server \<Rightarrow> team_answer" where
  "getTeam rq sv = (case as_member rq sv of
      Inl a \<Rightarrow> a
    | Inr t \<Rightarrow>
        if broken rq ''GetTeam'' then server_error ''getTeam''
        else (case GetTeam (tk_db sv) t of
            None \<Rightarrow> refuse ''not found'' 404
          | Some team \<Rightarrow> TeamAnswer 200 (teamDetailBody team
              (if broken rq ''ListTeamMembers'' then [] else ListTeamMembers (tk_users sv) (tk_db sv) t))))"

definition patchTeam :: "team_request \<Rightarrow> string option \<Rightarrow> team_server \<Rightarrow> team_server \<times> team_answer" where
  "patchTeam rq body sv = (case as_owner rq sv of
      Inl a \<Rightarrow> (sv, a)
    | Inr t \<Rightarrow> (case body of
        None \<Rightarrow> (sv, refuse ''name is required'' 400)
      | Some nm \<Rightarrow>
          if TrimSpace nm = '''' then (sv, refuse ''name is required'' 400)
          else if broken rq ''RenameTeam'' then (sv, server_error ''patchTeam'')
          else let sv' = put_team_db (RenameTeam t (TrimSpace nm) (tk_db sv)) sv
               in if broken rq ''GetTeam'' then (sv', server_error ''patchTeam'')
                  else (sv', case GetTeam (tk_db sv') t of None \<Rightarrow> server_error ''patchTeam'' | Some team \<Rightarrow> TeamAnswer 200 (TeamBody team))))"

definition deleteTeam :: "team_request \<Rightarrow> team_server \<Rightarrow> team_server \<times> team_answer" where
  "deleteTeam rq sv = (case as_owner rq sv of
      Inl a \<Rightarrow> (sv, a)
    | Inr t \<Rightarrow>
        if broken rq ''DeleteTeam'' then (sv, server_error ''deleteTeam'')
        else (put_team_db (DeleteTeam t (tk_db sv)) sv, TeamAnswer 204 NoTeamBody))"

subsection \<open>Invitations and members\<close>

definition inviteMember ::
  "(string \<Rightarrow> string option) \<Rightarrow> team_request \<Rightarrow> string option \<Rightarrow> team_server \<Rightarrow> team_server \<times> team_answer" where
  "inviteMember addr rq body sv = (case as_owner rq sv of
      Inl a \<Rightarrow> (sv, a)
    | Inr t \<Rightarrow> (case body of
        None \<Rightarrow> (sv, refuse ''email is required'' 400)
      | Some raw \<Rightarrow>
          if TrimSpace raw = '''' then (sv, refuse ''email is required'' 400)
          else (case normalizeManagerEmail addr raw of
              Inl msg \<Rightarrow> (sv, refuse msg 422)
            | Inr email \<Rightarrow>
                if broken rq ''CreateTeamInvite'' then (sv, server_error ''inviteMember'')
                else (case CreateTeamInvite (tq_new_id rq) (tq_now rq) (tq_new_token rq) (tk_users sv) t email (tq_user rq) (tk_db sv) of
                    None \<Rightarrow> (sv, server_error ''inviteMember'')
                  | Some (db, invite) \<Rightarrow>
                      let team = (if broken rq ''GetTeam'' then None else GetTeam db t);
                          inviter = (if broken rq ''GetUserByID'' then None else GetUserByID (tk_users sv) (tq_user rq));
                          inviterName = (case inviter of Some u \<Rightarrow> if us_name u \<noteq> '''' then us_name u else ''Someone'' | None \<Rightarrow> ''Someone'');
                          teamName = (case team of Some x \<Rightarrow> tm_name x | None \<Rightarrow> ''a Paceday team'');
                          mail = \<lparr>im_to = ti_email invite, im_inviter = inviterName, im_team = teamName, im_token = ti_token invite\<rparr>
                      in (sv\<lparr>tk_db := db, tk_mails := tk_mails sv @ [mail]\<rparr>, TeamAnswer 201 (InviteBody invite))))))"

definition expired_first :: "team_request \<Rightarrow> team_server \<Rightarrow> team_server" where
  "expired_first rq sv = (if broken rq ''ExpireOldInvites'' then sv else put_team_db (ExpireOldInvites (tq_now rq) (tk_db sv)) sv)"

definition pending_invite :: "team_request \<Rightarrow> string \<Rightarrow> team_server \<Rightarrow> team_answer + TeamInvite" where
  "pending_invite rq op sv =
     (if broken rq ''GetTeamInviteByToken'' then Inl (server_error op)
      else case GetTeamInviteByToken (tk_db sv) (tq_token rq) of
          None \<Rightarrow> Inl (refuse ''invite not found'' 404)
        | Some invite \<Rightarrow> if ti_status invite \<noteq> ''pending'' then Inl (refuse (''invite is '' @ ti_status invite) 410) else Inr invite)"

definition getInvite :: "team_request \<Rightarrow> team_server \<Rightarrow> team_server \<times> team_answer" where
  "getInvite rq sv =
     (let sv' = expired_first rq sv
      in (sv', case pending_invite rq ''getInvite'' sv' of
          Inl a \<Rightarrow> a
        | Inr invite \<Rightarrow>
            let team = (if broken rq ''GetTeam'' then None else GetTeam (tk_db sv') (ti_team invite));
                inviter = (if broken rq ''GetUserByID'' then None else GetUserByID (tk_users sv') (ti_invited_by invite))
            in TeamAnswer 200 (PreviewBody \<lparr>tp_team_name = (case team of Some t \<Rightarrow> tm_name t | None \<Rightarrow> ''''),
                 tp_inviter_name = (case inviter of Some u \<Rightarrow> us_name u | None \<Rightarrow> ''''), tp_email = ti_email invite, tp_team = ti_team invite,
                 tp_expires_at = ti_expires_at invite,
                 tp_inviter_email = (case inviter of Some u \<Rightarrow> if us_email u \<noteq> '''' then Some (us_email u) else None | None \<Rightarrow> None)\<rparr>)))"

text \<open>\<^verbatim>\<open>strings.EqualFold\<close> on ASCII text compares the lower-case texts.\<close>

definition team_acceptInvite :: "team_request \<Rightarrow> team_server \<Rightarrow> team_server \<times> team_answer" where
  "team_acceptInvite rq sv =
     (if tq_user rq = 0 then (sv, refuse ''unauthorized'' 401)
      else let sv' = expired_first rq sv
           in (case pending_invite rq ''acceptInvite'' sv' of
               Inl a \<Rightarrow> (sv', a)
             | Inr invite \<Rightarrow>
                 (case (if broken rq ''GetUserByID'' then None else GetUserByID (tk_users sv') (tq_user rq)) of
                    None \<Rightarrow> (sv', refuse ''this invite is for a different email address'' 403)
                  | Some user \<Rightarrow>
                      if ToLower (us_email user) \<noteq> ToLower (ti_email invite) then (sv', refuse ''this invite is for a different email address'' 403)
                      else if broken rq ''AddTeamMember'' then (sv', server_error ''acceptInvite'')
                      else (case AddTeamMember (tq_now rq) (tk_users sv') (ti_team invite) (tq_user rq) ''member'' (tk_db sv') of
                          None \<Rightarrow> (sv', server_error ''acceptInvite'')
                        | Some db \<Rightarrow>
                            if broken rq ''AcceptTeamInvite'' then (put_team_db db sv', server_error ''acceptInvite'')
                            else (put_team_db (AcceptTeamInvite (ti_id invite) db) sv', TeamAnswer 204 NoTeamBody)))))"

definition removeMember :: "team_request \<Rightarrow> team_server \<Rightarrow> team_server \<times> team_answer" where
  "removeMember rq sv = (case tq_team rq of
      None \<Rightarrow> (sv, refuse ''invalid team id'' 400)
    | Some t \<Rightarrow> (case tq_other rq of
        None \<Rightarrow> (sv, refuse ''invalid user id'' 400)
      | Some target \<Rightarrow>
          if tq_user rq \<noteq> target \<and> \<not> requireOwner rq sv t then (sv, refuse ''forbidden'' 403)
          else if broken rq ''RemoveTeamMemberKeepingOwner'' then (sv, server_error ''removeMember'')
          else (case RemoveTeamMemberKeepingOwner t target (tk_db sv) of
              None \<Rightarrow> (sv, refuse ''the team owner cannot be removed'' 422)
            | Some db \<Rightarrow> (put_team_db db sv, TeamAnswer 204 NoTeamBody))))"

subsection \<open>No-meeting zones\<close>

record zone_input =
  zi_day :: int
  zi_start :: string
  zi_end :: string
  zi_label :: string

definition createZone :: "team_request \<Rightarrow> zone_input option \<Rightarrow> team_server \<Rightarrow> team_server \<times> team_answer" where
  "createZone rq body sv = (case as_owner rq sv of
      Inl a \<Rightarrow> (sv, a)
    | Inr t \<Rightarrow> (case body of
        None \<Rightarrow> (sv, refuse ''invalid JSON'' 400)
      | Some b \<Rightarrow> (case validateNoMeetingZone (zi_day b) (zi_start b) (zi_end b) of
          Some msg \<Rightarrow> (sv, refuse msg 422)
        | None \<Rightarrow>
            if broken rq ''CreateNoMeetingZone'' then (sv, server_error ''createZone'')
            else (case CreateNoMeetingZone (tq_new_id rq) (tq_now rq) t (storageWeekday (zi_day b)) (TrimSpace (zi_start b)) (TrimSpace (zi_end b))
                      (TrimSpace (zi_label b)) (tk_db sv) of
                None \<Rightarrow> (sv, server_error ''createZone'')
              | Some (db, z) \<Rightarrow> (put_team_db db sv, TeamAnswer 201 (ZoneBody (api_zone z)))))))"

definition updateZone :: "team_request \<Rightarrow> zone_input option \<Rightarrow> team_server \<Rightarrow> team_server \<times> team_answer" where
  "updateZone rq body sv = (case as_owner rq sv of
      Inl a \<Rightarrow> (sv, a)
    | Inr t \<Rightarrow> (case tq_other rq of
        None \<Rightarrow> (sv, refuse ''invalid zone id'' 400)
      | Some i \<Rightarrow> (case body of
          None \<Rightarrow> (sv, refuse ''invalid JSON'' 400)
        | Some b \<Rightarrow> (case validateNoMeetingZone (zi_day b) (zi_start b) (zi_end b) of
            Some msg \<Rightarrow> (sv, refuse msg 422)
          | None \<Rightarrow>
              if broken rq ''UpdateNoMeetingZone'' then (sv, server_error ''updateZone'')
              else (case UpdateNoMeetingZone i t (storageWeekday (zi_day b)) (TrimSpace (zi_start b)) (TrimSpace (zi_end b))
                        (TrimSpace (zi_label b)) (tk_db sv) of
                  None \<Rightarrow> (sv, server_error ''updateZone'')
                | Some (db, None) \<Rightarrow> (sv, refuse ''zone not found'' 404)
                | Some (db, Some z) \<Rightarrow> (put_team_db db sv, TeamAnswer 200 (ZoneBody (api_zone z))))))))"

definition listZones :: "team_request \<Rightarrow> team_server \<Rightarrow> team_answer" where
  "listZones rq sv = (case as_member rq sv of
      Inl a \<Rightarrow> a
    | Inr t \<Rightarrow>
        if broken rq ''ListNoMeetingZones'' then server_error ''listZones''
        else TeamAnswer 200 (ZonesBody (map api_zone (ListNoMeetingZones (tk_db sv) t))))"

definition deleteZone :: "team_request \<Rightarrow> team_server \<Rightarrow> team_server \<times> team_answer" where
  "deleteZone rq sv = (case as_owner rq sv of
      Inl a \<Rightarrow> (sv, a)
    | Inr t \<Rightarrow> (case tq_other rq of
        None \<Rightarrow> (sv, refuse ''invalid zone id'' 400)
      | Some i \<Rightarrow>
          if broken rq ''DeleteNoMeetingZone'' then (sv, server_error ''deleteZone'')
          else (put_team_db (DeleteNoMeetingZone i t (tk_db sv)) sv, TeamAnswer 204 NoTeamBody)))"

subsection \<open>Availability and analytics\<close>

definition duration_param :: "string \<Rightarrow> int option" where
  "duration_param d =
     (if d = '''' then Some 60
      else case Atoi d of None \<Rightarrow> None | Some n \<Rightarrow> if n \<le> 0 \<or> n > 24 * 60 then None else Some n)"

definition availability ::
  "bool \<Rightarrow> team_env \<Rightarrow> team_request \<Rightarrow> string \<Rightarrow> string \<Rightarrow> team_server \<Rightarrow> team_answer" where
  "availability wascut env rq dateStr durStr sv = (case as_member rq sv of
      Inl a \<Rightarrow> a
    | Inr t \<Rightarrow> (case parse_dateonly dateStr of
        None \<Rightarrow> refuse ''date must be YYYY-MM-DD'' 400
      | Some d \<Rightarrow> (case duration_param durStr of
          None \<Rightarrow> refuse ''duration must be a positive integer (minutes)'' 400
        | Some n \<Rightarrow> (case FindSlots wascut env (tk_users sv) (tk_db sv) t (go_date d 0 0 0 0 UTC) n of
            Inl e \<Rightarrow> if budgetCut e then TeamExpired else server_error ''availability''
          | Inr slots \<Rightarrow> TeamAnswer 200 (SlotsBody slots)))))"

definition analyticsHandler :: "team_env \<Rightarrow> team_request \<Rightarrow> gotime \<Rightarrow> string \<Rightarrow> team_server \<Rightarrow> team_answer" where
  "analyticsHandler env rq now dateStr sv = (case as_member rq sv of
      Inl a \<Rightarrow> a
    | Inr t \<Rightarrow>
        let answer = (\<lambda>weekStart. case GetTeamAnalytics env (tk_users sv) (tk_db sv) t weekStart of
              Inl e \<Rightarrow> server_error ''analyticsHandler'' | Inr a \<Rightarrow> TeamAnswer 200 (AnalyticsBody a))
        in if dateStr = '''' then answer (startOfWeek now)
           else case parse_dateonly dateStr of
               None \<Rightarrow> refuse ''date must be YYYY-MM-DD'' 400
             | Some d \<Rightarrow> answer (startOfWeek (go_date d 0 0 0 0 UTC)))"

subsection \<open>The invitation email\<close>

record smtp_config =
  sm_host :: string
  sm_port :: string
  sm_user :: string
  sm_from :: string
  sm_base_url :: string

record outgoing =
  ou_server :: string
  ou_auth :: bool
  ou_from :: string
  ou_to :: string
  ou_text :: string

definition newline :: string where "newline = [CHR 0x0A]"
definition crlf :: string where "crlf = [CHR 0x0D, CHR 0x0A]"

definition sendTeamInviteEmail :: "smtp_config \<Rightarrow> invite_mail \<Rightarrow> outgoing option" where
  "sendTeamInviteEmail cfg m =
     (if sm_host cfg = '''' \<or> sm_from cfg = '''' then None
      else let port = (if sm_port cfg = '''' then ''587'' else sm_port cfg);
               base = (if sm_base_url cfg = '''' then ''https://paceday.app'' else sm_base_url cfg);
               subject = im_inviter m @ '' invited you to join the \"'' @ im_team m @ ''\" team on Paceday'';
               body = ''Hi,'' @ newline @ newline @ im_inviter m @ '' has invited you to join the \"'' @ im_team m @ ''\" team on Paceday.'' @ newline @ newline @
                 ''Accept your invite:'' @ newline @ base @ ''/invites/'' @ im_token m @ newline @ newline @
                 ''This link expires in 7 days.'' @ newline @ newline @ ''The Paceday team''
           in Some \<lparr>ou_server = sm_host cfg @ '':'' @ port, ou_auth = (sm_user cfg \<noteq> ''''), ou_from = sm_from cfg, ou_to = im_to m,
                ou_text = ''From: '' @ sm_from cfg @ crlf @ ''To: '' @ im_to m @ crlf @ ''Subject: '' @ subject @ crlf @ crlf @ body\<rparr>)"

subsection \<open>Every team has an owner\<close>

definition teams_ok :: "team_db \<Rightarrow> bool" where
  "teams_ok db \<longleftrightarrow> members_ok db \<and> (\<forall>m \<in> set (t_members db). mb_team m \<in> tm_id ` set (t_teams db)) \<and>
     (\<forall>t \<in> tm_id ` set (t_teams db). owned db t)"

text \<open>One request that may change the tables; a new team's id is fresh and its owner's row is written.\<close>

inductive team_step :: "team_server \<Rightarrow> team_server \<Rightarrow> bool" where
  create: "\<not> broken rq ''AddTeamMember'' \<Longrightarrow> GetTeam (tk_db sv) (tq_new_id rq) = None \<Longrightarrow> createTeam rq nm sv = (sv', a) \<Longrightarrow> team_step sv sv'"
| patch: "patchTeam rq nm sv = (sv', a) \<Longrightarrow> team_step sv sv'"
| delete: "deleteTeam rq sv = (sv', a) \<Longrightarrow> team_step sv sv'"
| invite: "inviteMember addr rq em sv = (sv', a) \<Longrightarrow> team_step sv sv'"
| preview: "getInvite rq sv = (sv', a) \<Longrightarrow> team_step sv sv'"
| accept: "team_acceptInvite rq sv = (sv', a) \<Longrightarrow> team_step sv sv'"
| remove: "removeMember rq sv = (sv', a) \<Longrightarrow> team_step sv sv'"
| zone_create: "createZone rq z sv = (sv', a) \<Longrightarrow> team_step sv sv'"
| zone_update: "updateZone rq z sv = (sv', a) \<Longrightarrow> team_step sv sv'"
| zone_delete: "deleteZone rq sv = (sv', a) \<Longrightarrow> team_step sv sv'"

text \<open>Most steps leave the two tables the invariant speaks of as they are, or only rename a team.\<close>

definition same_members :: "team_db \<Rightarrow> team_db \<Rightarrow> bool" where
  "same_members db db' \<longleftrightarrow> t_members db' = t_members db \<and> map tm_id (t_teams db') = map tm_id (t_teams db)"

lemma GetTeam_None: "GetTeam db t = None \<longleftrightarrow> t \<notin> tm_id ` set (t_teams db)"
  by (auto simp: GetTeam_def find_None_iff)

lemma same_members_ok:
  assumes "same_members db db'" "teams_ok db"
  shows "teams_ok db'"
proof -
  have "tm_id ` set (t_teams db') = tm_id ` set (t_teams db)" using assms(1) unfolding same_members_def by (metis list.set_map)
  moreover have mem: "t_members db' = t_members db" using assms(1) by (simp add: same_members_def)
  moreover have "owned db' t \<longleftrightarrow> owned db t" for t by (simp add: owned_def mem)
  ultimately show ?thesis using assms(2) unfolding teams_ok_def members_ok_def by simp
qed

lemma same_members_refl [simp]: "same_members db db"
  by (simp add: same_members_def)

lemma same_members_stmts:
  "same_members db (RenameTeam i nm db)" "same_members db (ExpireOldInvites now db)" "same_members db (AcceptTeamInvite i db)"
  "same_members db (DeleteNoMeetingZone i t db)"
  "CreateTeamInvite n now tok users t em u db = Some (db', v) \<Longrightarrow> same_members db db'"
  "CreateNoMeetingZone n now t d st en l db = Some (db', z) \<Longrightarrow> same_members db db'"
  "UpdateNoMeetingZone i t d st en l db = Some (db', z') \<Longrightarrow> same_members db db'"
  by (auto simp: same_members_def RenameTeam_def ExpireOldInvites_def AcceptTeamInvite_def DeleteNoMeetingZone_def CreateTeamInvite_def
      CreateNoMeetingZone_def UpdateNoMeetingZone_def Let_def split: if_splits)

lemma add_member_ok:
  assumes "AddTeamMember now users t u role db = Some db'" "teams_ok db"
  shows "teams_ok db'"
proof -
  have "t_teams db' = t_teams db" "set (t_members db') \<subseteq> insert \<lparr>mb_team = t, mb_user = u, mb_role = role, mb_joined_at = now\<rparr> (set (t_members db))"
    "t_members db' = t_members db \<or> GetTeam db t \<noteq> None"
    using assms(1) by (auto simp: AddTeamMember_def split: if_splits)
  then show ?thesis using assms(2) members_ok_add [OF _ assms(1)] owned_add [OF assms(1)]
    by (auto simp: teams_ok_def GetTeam_None)
qed

lemma remove_member_ok:
  assumes "RemoveTeamMemberKeepingOwner t u db = Some db'" "teams_ok db"
  shows "teams_ok db'"
proof (cases "db' = db")
  case False
  then have db': "db' = RemoveTeamMember t u db" and safe: "role_of db t u \<noteq> Some ''owner'' \<or> other_owners db t u \<noteq> 0"
    using assms(1) by (auto simp: RemoveTeamMemberKeepingOwner_def split: option.splits if_splits)
  have "owned db' x" if "owned db x" for x
    using that remove_keeps_owned [OF _ _ safe] assms(2) db'
    by (cases "x = t") (auto simp: teams_ok_def owned_def RemoveTeamMember_def list_ex_iff member_key_def)
  then show ?thesis using assms(2) members_ok_remove db' by (auto simp: teams_ok_def RemoveTeamMember_def)
qed (use assms in simp)

lemma delete_team_ok:
  assumes "teams_ok db"
  shows "teams_ok (DeleteTeam t db)"
proof -
  have "owned (DeleteTeam t db) x" if "owned db x" "x \<noteq> t" for x
    using that by (auto simp: owned_def DeleteTeam_def list_ex_iff)
  then show ?thesis using assms by (auto simp: teams_ok_def DeleteTeam_def members_ok_def distinct_map_filter)
qed

lemma create_team_ok:
  assumes "CreateTeam n now users nm u db = Some (db1, team)" "GetTeam db n = None" "teams_ok db"
  shows "\<exists>db2. AddTeamMember now' users (tm_id team) u ''owner'' db1 = Some db2 \<and> teams_ok db2"
proof -
  have t: "team = \<lparr>tm_id = n, tm_org = None, tm_name = nm, tm_created_by = u, tm_created_at = now\<rparr>" "db1 = db\<lparr>t_teams := t_teams db @ [team]\<rparr>"
    and u: "GetUserByID users u \<noteq> None"
    using assms(1) by (auto simp: CreateTeam_def Let_def split: if_splits)
  have none: "\<not> list_ex (member_key n x) (t_members db)" for x
    using assms(2,3) by (auto simp: teams_ok_def GetTeam_None list_ex_iff member_key_def)
  have "GetTeam db1 n \<noteq> None" by (simp add: GetTeam_None t)
  then have add: "AddTeamMember now' users n u ''owner'' db1 =
      Some (db1\<lparr>t_members := t_members db @ [\<lparr>mb_team = n, mb_user = u, mb_role = ''owner'', mb_joined_at = now'\<rparr>]\<rparr>)"
    using none u by (simp add: AddTeamMember_def t)
  moreover have "teams_ok (db1\<lparr>t_members := t_members db @ [\<lparr>mb_team = n, mb_user = u, mb_role = ''owner'', mb_joined_at = now'\<rparr>]\<rparr>)"
    using assms(3) none by (auto simp: teams_ok_def members_ok_def t owned_def list_ex_iff member_key_def)
  ultimately show ?thesis by (simp add: t)
qed

lemma put_team_db_db [simp]: "tk_db (put_team_db db sv) = db"
  by (simp add: put_team_db_def)

lemma createTeam_ok:
  assumes "\<not> broken rq ''AddTeamMember''" "GetTeam (tk_db sv) (tq_new_id rq) = None" "createTeam rq nm sv = (sv', a)" "teams_ok (tk_db sv)"
  shows "teams_ok (tk_db sv')"
proof (cases "snd (createTeam rq nm sv) \<noteq> a \<or> sv' = sv")
  case True
  then show ?thesis using assms(3,4) by auto
next
  case False
  then obtain n db team where nm: "nm = Some n" "tq_user rq \<noteq> 0" "TrimSpace n \<noteq> ''''" "\<not> broken rq ''CreateTeam''"
      and c: "CreateTeam (tq_new_id rq) (tq_now rq) (tk_users sv) (TrimSpace n) (tq_user rq) (tk_db sv) = Some (db, team)"
    using assms(3) by (auto simp: createTeam_def split: if_splits option.splits)
  obtain db2 where "AddTeamMember (tq_now rq) (tk_users sv) (tm_id team) (tq_user rq) ''owner'' db = Some db2" "teams_ok db2"
    using create_team_ok [OF c assms(2,4)] by blast
  then show ?thesis using assms(1,3) nm c by (auto simp: createTeam_def Let_def)
qed

lemma expired_first_ok: "teams_ok (tk_db sv) \<Longrightarrow> teams_ok (tk_db (expired_first rq sv))"
  by (simp add: expired_first_def same_members_ok [OF same_members_stmts(2)])

lemma acceptInvite_ok:
  assumes "team_acceptInvite rq sv = (sv', a)" "teams_ok (tk_db sv)"
  shows "teams_ok (tk_db sv')"
  using assms expired_first_ok [OF assms(2), of rq]
  by (auto simp: team_acceptInvite_def Let_def split: if_splits option.splits sum.splits
      intro: add_member_ok intro!: same_members_ok [OF same_members_stmts(3)])

lemma team_step_ok:
  assumes "team_step sv sv'" "teams_ok (tk_db sv)"
  shows "teams_ok (tk_db sv')"
  using assms
proof cases
  case (create rq nm a)
  then show ?thesis using createTeam_ok assms(2) by blast
next
  case (patch rq nm a)
  then show ?thesis using assms(2) same_members_ok [OF same_members_stmts(1)]
    by (auto simp: patchTeam_def Let_def split: sum.splits option.splits if_splits)
next
  case (delete rq a)
  then show ?thesis using assms(2) delete_team_ok by (auto simp: deleteTeam_def split: sum.splits if_splits)
next
  case (invite addr rq em a)
  then show ?thesis using assms(2) same_members_ok [OF same_members_stmts(5)]
    by (auto simp: inviteMember_def Let_def split: sum.splits option.splits if_splits)
next
  case (preview rq a)
  then show ?thesis using assms(2) expired_first_ok by (auto simp: getInvite_def Let_def)
next
  case (accept rq a)
  then show ?thesis using acceptInvite_ok assms(2) by blast
next
  case (remove rq a)
  then show ?thesis using assms(2) remove_member_ok by (auto simp: removeMember_def split: option.splits if_splits)
next
  case (zone_create rq z a)
  then show ?thesis using assms(2) same_members_ok [OF same_members_stmts(6)]
    by (auto simp: createZone_def split: sum.splits option.splits if_splits)
next
  case (zone_update rq z a)
  then show ?thesis using assms(2) same_members_ok [OF same_members_stmts(7)]
    by (auto simp: updateZone_def split: sum.splits option.splits if_splits)
next
  case (zone_delete rq a)
  then show ?thesis using assms(2) same_members_ok [OF same_members_stmts(4)]
    by (auto simp: deleteZone_def split: sum.splits option.splits if_splits)
qed

text \<open>
  C8. Whatever requests are served, with any of their statements
  failing except the one that writes a new team's owner, every team of the table has an owner
  and every membership belongs to a team of the table.
\<close>

theorem every_team_keeps_an_owner:
  assumes "teams_ok (tk_db sv)" "team_step\<^sup>*\<^sup>* sv sv'"
  shows "(\<forall>t \<in> set (t_teams (tk_db sv')). owned (tk_db sv') (tm_id t)) \<and>
    (\<forall>m \<in> set (t_members (tk_db sv')). GetTeam (tk_db sv') (mb_team m) \<noteq> None)"
proof -
  have "teams_ok (tk_db sv')" using assms(2,1) by (induction rule: rtranclp_induct) (auto intro: team_step_ok)
  then show ?thesis by (auto simp: teams_ok_def GetTeam_None)
qed

definition ex_team_request :: "uuid \<Rightarrow> string list \<Rightarrow> team_request" where
  "ex_team_request u failing = \<lparr>tq_user = u, tq_team = Some 9, tq_other = Some u, tq_token = '''', tq_fails = failing, tq_new_id = 9,
     tq_new_token = ''t'', tq_now = 0\<rparr>"

definition ex_team_server :: team_server where
  "ex_team_server = \<lparr>tk_db = \<lparr>t_teams = [], t_members = [], t_invites = [], t_zones = []\<rparr>, tk_users = [ex_member], tk_mails = []\<rparr>"

text \<open>A user makes a team and tries to leave it.\<close>

theorem every_team_keeps_an_owner_witness:
  "map tm_id (t_teams (tk_db (fst (removeMember (ex_team_request 1 []) (fst (createTeam (ex_team_request 1 []) (Some ''Core'') ex_team_server)))))) = [9] \<and>
     owned (tk_db (fst (removeMember (ex_team_request 1 []) (fst (createTeam (ex_team_request 1 []) (Some ''Core'') ex_team_server))))) 9"
proof -
  let ?s1 = "fst (createTeam (ex_team_request 1 []) (Some ''Core'') ex_team_server)"
  have "team_step ex_team_server ?s1"
    by (rule create [where rq = "ex_team_request 1 []" and nm = "Some ''Core''" and a = "snd (createTeam (ex_team_request 1 []) (Some ''Core'') ex_team_server)"])
      (simp_all add: ex_team_request_def broken_def ex_team_server_def GetTeam_def)
  moreover have "team_step ?s1 (fst (removeMember (ex_team_request 1 []) ?s1))"
    by (rule remove [where rq = "ex_team_request 1 []" and a = "snd (removeMember (ex_team_request 1 []) ?s1)"]) simp
  ultimately have "team_step\<^sup>*\<^sup>* ex_team_server (fst (removeMember (ex_team_request 1 []) ?s1))" by (rule converse_rtranclp_into_rtranclp [OF _ r_into_rtranclp])
  moreover have "teams_ok (tk_db ex_team_server)" by (simp add: ex_team_server_def teams_ok_def members_ok_def)
  ultimately have owners: "\<forall>t \<in> set (t_teams (tk_db (fst (removeMember (ex_team_request 1 []) ?s1)))).
      owned (tk_db (fst (removeMember (ex_team_request 1 []) ?s1))) (tm_id t)"
    using every_team_keeps_an_owner by blast
  have ids: "map tm_id (t_teams (tk_db (fst (removeMember (ex_team_request 1 []) ?s1)))) = [9]" by code_simp
  then obtain t where "t \<in> set (t_teams (tk_db (fst (removeMember (ex_team_request 1 []) ?s1))))" "tm_id t = 9"
    by (auto simp: map_eq_Cons_conv)
  with owners have "owned (tk_db (fst (removeMember (ex_team_request 1 []) ?s1))) 9" by auto
  with ids show ?thesis by simp
qed


text \<open>
  When writing the owner's row fails, creating a team still answers
  201: the team is in the table without any member, its creator does not see it, and every
  request to delete it is forbidden.
\<close>

theorem team_without_owner:
  assumes "teams_ok (tk_db sv)" "GetTeam (tk_db sv) (tq_new_id rq) = None" "broken rq ''AddTeamMember''" "\<not> broken rq ''CreateTeam''"
    and "tq_user rq \<noteq> 0" "GetUserByID (tk_users sv) (tq_user rq) \<noteq> None" "TrimSpace nm \<noteq> ''''"
  shows "\<exists>sv' team. createTeam rq (Some nm) sv = (sv', TeamAnswer 201 (TeamBody team)) \<and> team \<in> set (t_teams (tk_db sv')) \<and>
    \<not> owned (tk_db sv') (tm_id team) \<and> team \<notin> set (ListTeamsForUser (tk_db sv') (tq_user rq)) \<and>
    (\<forall>rq'. tq_team rq' = Some (tm_id team) \<longrightarrow> deleteTeam rq' sv' = (sv', refuse ''forbidden'' 403))"
proof -
  let ?team = "\<lparr>tm_id = tq_new_id rq, tm_org = None, tm_name = TrimSpace nm, tm_created_by = tq_user rq, tm_created_at = tq_now rq\<rparr>"
  let ?db = "(tk_db sv)\<lparr>t_teams := t_teams (tk_db sv) @ [?team]\<rparr>"
  have "createTeam rq (Some nm) sv = (put_team_db ?db sv, TeamAnswer 201 (TeamBody ?team))"
    using assms(3-7) by (auto simp: createTeam_def CreateTeam_def Let_def)
  moreover have none: "\<not> list_ex (\<lambda>m. mb_team m = tq_new_id rq) (t_members (tk_db sv))"
    using assms(1,2) unfolding teams_ok_def GetTeam_None list_ex_iff by metis
  moreover have "requireMember rq' (put_team_db ?db sv) (tq_new_id rq) = None" for rq'
  proof -
    have "filter (member_key (tq_new_id rq) (tq_user rq')) (t_members (tk_db sv)) = []"
      using none by (auto simp: filter_empty_conv list_ex_iff member_key_def)
    then show ?thesis by (simp add: requireMember_def GetTeamMember_def map_filter_def)
  qed
  ultimately show ?thesis
    by (intro exI [of _ "put_team_db ?db sv"] exI [of _ ?team])
      (auto simp: owned_def ListTeamsForUser_def deleteTeam_def as_owner_def requireOwner_def list_ex_iff)
qed

theorem team_without_owner_witness:
  "\<exists>sv' team. createTeam (ex_team_request 1 [''AddTeamMember'']) (Some ''Core'') ex_team_server = (sv', TeamAnswer 201 (TeamBody team)) \<and>
     \<not> owned (tk_db sv') (tm_id team)"
proof -
  have "teams_ok (tk_db ex_team_server)" "GetTeam (tk_db ex_team_server) (tq_new_id (ex_team_request 1 [''AddTeamMember''])) = None"
    "broken (ex_team_request 1 [''AddTeamMember'']) ''AddTeamMember''" "\<not> broken (ex_team_request 1 [''AddTeamMember'']) ''CreateTeam''"
    "tq_user (ex_team_request 1 [''AddTeamMember'']) \<noteq> 0" "GetUserByID (tk_users ex_team_server) (tq_user (ex_team_request 1 [''AddTeamMember''])) \<noteq> None"
    by (simp_all add: ex_team_server_def teams_ok_def members_ok_def ex_team_request_def broken_def GetTeam_def GetUserByID_def ex_member_def)
  moreover have "TrimSpace ''Core'' \<noteq> ''''" by code_simp
  ultimately show ?thesis using team_without_owner by blast
qed

subsection \<open>Zones reach the slot search\<close>

lemma scan_time_column:
  assumes "parse_hm s = Some (h, m, x)"
  shows "scan_hhmm (time_column s) = (h, m)"
  using assms parse_hm_range [OF assms] scan_pad2_then [of h "CHR '':'' # pad2 m @ '':00''"] scan_pad2_then [of m "'':00''"]
  by (simp add: time_column_def scan_hhmm_def is_digit_def)

lemma createZone_201:
  assumes "createZone rq (Some b) sv = (sv', TeamAnswer 201 body)" "tq_team rq = Some t"
  shows "\<exists>z \<in> set (t_zones (tk_db sv')). nz_team z = t \<and> nz_day z = storageWeekday (zi_day b) \<and>
    nz_start z = time_column (TrimSpace (zi_start b)) \<and> nz_end z = time_column (TrimSpace (zi_end b))"
  using assms by (auto simp: createZone_def as_owner_def refuse_def server_error_def CreateNoMeetingZone_def Let_def
      split: sum.splits option.splits if_splits prod.splits)

text \<open>
  C9. A no-meeting zone created over the API for a weekday, Monday 1 to
  Sunday 7, keeps its hours free of offers: on any day of that weekday no slot of the team's
  availability overlaps the clock times that were sent.
\<close>

theorem zone_blocks_its_hours:
  assumes "createZone rq (Some b) sv = (sv', TeamAnswer 201 body)" "tq_team rq = Some t"
    and "parse_hm (TrimSpace (zi_start b)) = Some (h1, m1, x1)" "parse_hm (TrimSpace (zi_end b)) = Some (h2, m2, x2)"
    and "apiWeekday (Weekday day) = zi_day b"
    and "FindSlots wascut env (tk_users sv') (tk_db sv') t day dm = Inr slots" "s \<in> set slots" "0 \<le> dm"
    and "list_all valid_ivl (team_busy (day_data env (tk_users sv') (tk_db sv') t day) (ListNoMeetingZones (tk_db sv') t) day)"
  shows "\<not> overlaps (ivl (sl_from s) (sl_to s)) (ivl (go_date (date_of day) h1 m1 0 0 UTC) (go_date (date_of day) h2 m2 0 0 UTC))"
proof -
  obtain z where z: "z \<in> set (t_zones (tk_db sv'))" "nz_team z = t" "nz_day z = storageWeekday (zi_day b)"
    "nz_start z = time_column (TrimSpace (zi_start b))" "nz_end z = time_column (TrimSpace (zi_end b))"
    using createZone_201 [OF assms(1,2)] by blast
  have day: "nz_day z = Weekday day"
    using z(3) assms(5) [symmetric] by (auto simp: storageWeekday_def apiWeekday_def Weekday_def)
  have "parseHHMM (nz_start z) day UTC = go_date (date_of day) h1 m1 0 0 UTC" "parseHHMM (nz_end z) day UTC = go_date (date_of day) h2 m2 0 0 UTC"
    using z(4,5) scan_time_column [OF assms(3)] scan_time_column [OF assms(4)] by (simp_all add: parseHHMM_def)
  then have "ivl (go_date (date_of day) h1 m1 0 0 UTC) (go_date (date_of day) h2 m2 0 0 UTC) \<in> set (zone_ivls (ListNoMeetingZones (tk_db sv') t) day)"
    using z(1,2) day by (auto simp: zone_ivls_def ListNoMeetingZones_def intro!: image_eqI [of _ _ z])
  then show ?thesis using team_slot_free(4) [OF assms(6-9) team_work_open] by (auto simp: team_busy_def)
qed


text \<open>An owner blocks Monday's last half hour; the search of a Monday still finds the two hours before.\<close>

definition ex_zone_server :: team_server where
  "ex_zone_server = \<lparr>tk_db = ex_team_db, tk_users = [ex_member], tk_mails = []\<rparr>"

definition ex_zone_request :: team_request where
  "ex_zone_request = (ex_team_request 1 [])\<lparr>tq_team := Some 5\<rparr>"

definition ex_zone_input :: zone_input where
  "ex_zone_input = \<lparr>zi_day = 1, zi_start = '' 17:30'', zi_end = ''18:00'', zi_label = ''''\<rparr>"

definition ex_zone_after :: team_server where
  "ex_zone_after = fst (createZone ex_zone_request (Some ex_zone_input) ex_zone_server)"

lemma ex_zone_created:
  "tn_status (snd (createZone ex_zone_request (Some ex_zone_input) ex_zone_server)) = 201"
  "snd (createZone ex_zone_request (Some ex_zone_input) ex_zone_server) \<noteq> TeamExpired"
  "parse_hm (TrimSpace (zi_start ex_zone_input)) = Some (17, 30, 0)" "parse_hm (TrimSpace (zi_end ex_zone_input)) = Some (18, 0, 0)"
  "apiWeekday (Weekday ex_team_day) = zi_day ex_zone_input"
  "list_all valid_ivl (team_busy (day_data ex_team_env (tk_users ex_zone_after) (tk_db ex_zone_after) 5 ex_team_day) (ListNoMeetingZones (tk_db ex_zone_after) 5) ex_team_day)"
  "map_sum id (map sl_from) (FindSlots False ex_team_env (tk_users ex_zone_after) (tk_db ex_zone_after) 5 ex_team_day 90) = Inr [go_date 20458 16 0 0 0 UTC]"
  by code_simp+

theorem zone_blocks_its_hours_witness:
  "\<exists>slots s. FindSlots False ex_team_env (tk_users ex_zone_after) (tk_db ex_zone_after) 5 ex_team_day 90 = Inr slots \<and> s \<in> set slots \<and>
     sl_from s = go_date 20458 16 0 0 0 UTC \<and>
     \<not> overlaps (ivl (sl_from s) (sl_to s)) (ivl (go_date (date_of ex_team_day) 17 30 0 0 UTC) (go_date (date_of ex_team_day) 18 0 0 0 UTC))"
proof -
  obtain slots where s: "FindSlots False ex_team_env (tk_users ex_zone_after) (tk_db ex_zone_after) 5 ex_team_day 90 = Inr slots"
    "map sl_from slots = [go_date 20458 16 0 0 0 UTC]"
    using ex_zone_created(7) by (cases "FindSlots False ex_team_env (tk_users ex_zone_after) (tk_db ex_zone_after) 5 ex_team_day 90") auto
  then obtain x where x: "x \<in> set slots" "sl_from x = go_date 20458 16 0 0 0 UTC" by (cases slots) auto
  obtain body where "createZone ex_zone_request (Some ex_zone_input) ex_zone_server = (ex_zone_after, TeamAnswer 201 body)"
    using ex_zone_created(1,2) unfolding ex_zone_after_def
    by (cases "createZone ex_zone_request (Some ex_zone_input) ex_zone_server"; cases "snd (createZone ex_zone_request (Some ex_zone_input) ex_zone_server)") auto
  from zone_blocks_its_hours [OF this _ ex_zone_created(3,4,5) s(1) x(1) _ ex_zone_created(6)] show ?thesis
    using s(1) x by (auto simp: ex_zone_request_def)
qed

end
