(* ===== verification/FreeBusy.thy ===== *)
theory FreeBusy
  imports Settings
begin

section \<open>FreeBusy: other people's busy time\<close>

text \<open>
  \<^verbatim>\<open>backend/engine/freebusy_service.go\<close> and its route in \<^verbatim>\<open>backend/api/handlers_freebusy.go\<close>. The
  service keeps a cache of answers, a map from text keys; it is the state passed from query to
  query. The settings read, the two providers' lookups (\<open>None\<close> is the nil map of a missing token
  or a failed client), the record of lost credentials, the text of a UUID and the clock, read
  once per cached email and once for the expiry, are the environment.
\<close>

record TimeSlot =
  ts_start :: gotime
  ts_end :: gotime

record ParticipantBusy =
  pb_email :: string
  pb_coverage :: string
  pb_busy :: "TimeSlot list"

record cachedResult =
  cr_slots :: "TimeSlot list"
  cr_coverage :: string
  cr_expires :: gotime

type_synonym cache = "string \<rightharpoonup> cachedResult"

type_synonym lookup = "string list \<Rightarrow> gotime \<Rightarrow> gotime \<Rightarrow> (string \<rightharpoonup> TimeSlot list) option"

record busy_env =
  bv_settings :: "string + Settings"
  bv_google :: lookup
  bv_outlook :: lookup
  bv_lost :: "string \<Rightarrow> string + bool"
  bv_uuid_text :: "uuid \<Rightarrow> string"
  bv_clock :: "nat \<Rightarrow> gotime"

definition personalDomains :: "string list" where
  "personalDomains = [''gmail.com'', ''googlemail.com'', ''outlook.com'', ''hotmail.com'', ''yahoo.com'', ''icloud.com'',
     ''live.com'', ''msn.com'', ''proton.me'', ''protonmail.com'']"

text \<open>\<^verbatim>\<open>email[strings.LastIndex(email, "@")+1:]\<close>, empty without the sign.\<close>

definition emailDomain :: "string \<Rightarrow> string" where
  "emailDomain email =
     (case after_last CHR ''@'' email of None \<Rightarrow> '''' | Some domain \<Rightarrow> domain)"

definition getCached :: "gotime \<Rightarrow> string \<Rightarrow> cache \<Rightarrow> cache \<times> cachedResult option" where
  "getCached now key cache = (case cache key of
      None \<Rightarrow> (cache(key := None), None)
    | Some c \<Rightarrow> if After now (cr_expires c) then (cache(key := None), None) else (cache, Some c))"

definition setCached :: "string \<Rightarrow> cachedResult \<Rightarrow> cache \<Rightarrow> cache" where
  "setCached key r cache = cache(key \<mapsto> r)"

definition norm_email :: "string \<Rightarrow> string" where
  "norm_email e = ToLower (TrimSpace e)"

definition cache_key :: "busy_env \<Rightarrow> uuid \<Rightarrow> gotime \<Rightarrow> string \<Rightarrow> string" where
  "cache_key env u start email = bv_uuid_text env u @ '':'' @ email @ '':'' @ format_date (date_of (In start UTC))"

text \<open>The first loop: what is known at once, what is still to be asked.\<close>

fun sort_emails ::
  "busy_env \<Rightarrow> uuid \<Rightarrow> gotime \<Rightarrow> string list \<Rightarrow> nat \<Rightarrow> cache \<Rightarrow> cache \<times> ParticipantBusy list \<times> (string \<times> string) list" where
  "sort_emails env u start [] i cache = (cache, [], [])"
| "sort_emails env u start (raw # emails) i cache =
     (let email = norm_email raw
      in if emailDomain email \<in> set personalDomains
         then (case sort_emails env u start emails (Suc i) cache of (c, rs, q) \<Rightarrow>
                 (c, \<lparr>pb_email = email, pb_coverage = ''unknown'', pb_busy = []\<rparr> # rs, q))
         else (case getCached (bv_clock env i) (cache_key env u start email) cache of
              (c0, Some hit) \<Rightarrow> (case sort_emails env u start emails (Suc i) c0 of (c, rs, q) \<Rightarrow>
                 (c, \<lparr>pb_email = email, pb_coverage = cr_coverage hit, pb_busy = cr_slots hit\<rparr> # rs, q))
            | (c0, None) \<Rightarrow> (case sort_emails env u start emails (Suc i) c0 of (c, rs, q) \<Rightarrow>
                 (c, rs, (email, cache_key env u start email) # q))))"

definition answer_of :: "(string \<rightharpoonup> TimeSlot list) option \<Rightarrow> gotime \<Rightarrow> string \<Rightarrow> cachedResult" where
  "answer_of fetched ttl email = (case (case fetched of None \<Rightarrow> None | Some m \<Rightarrow> m email) of
      None \<Rightarrow> \<lparr>cr_slots = [], cr_coverage = ''unknown'', cr_expires = ttl\<rparr>
    | Some slots \<Rightarrow> \<lparr>cr_slots = slots, cr_coverage = ''known'', cr_expires = ttl\<rparr>)"

definition Query ::
  "busy_env \<Rightarrow> uuid \<Rightarrow> string list \<Rightarrow> gotime \<Rightarrow> gotime \<Rightarrow> cache \<Rightarrow> cache \<times> (string + ParticipantBusy list)" where
  "Query env u emails start end' cache = (case bv_settings env of
      Inl e \<Rightarrow> (cache, Inl e)
    | Inr s \<Rightarrow> (case sort_emails env u start emails 0 cache of (c, results, toQuery) \<Rightarrow>
        if toQuery = [] then (c, Inr results)
        else
          let outlook = (ToLower (se_provider s) = ''outlook'');
              fetched = (if outlook then bv_outlook env (map fst toQuery) start end' else bv_google env (map fst toQuery) start end');
              cacheable = (fetched \<noteq> None \<or> bv_lost env (if outlook then ''outlook'' else ''google'') = Inr False);
              ttl = Add (bv_clock env (length emails)) (15 * minute_ns);
              c' = (if cacheable then foldl (\<lambda>m (email, key). setCached key (answer_of fetched ttl email) m) c toQuery else c)
          in (c', Inr (results @ map (\<lambda>(email, key). let a = answer_of fetched ttl email
                in \<lparr>pb_email = email, pb_coverage = cr_coverage a, pb_busy = cr_slots a\<rparr>) toQuery))))"

subsection \<open>The route\<close>

datatype busy_answer = BusyError int string
  | BusyOk (ba_start: gotime) (ba_end: gotime) (ba_results: "ParticipantBusy list") (ba_busy: "string \<rightharpoonup> TimeSlot list")

text \<open>The body is \<open>None\<close> when the JSON does not decode; the map of the answer keeps the last entry of an email.\<close>

definition busy_query ::
  "busy_env \<Rightarrow> uuid \<Rightarrow> (string list \<times> string \<times> string) option \<Rightarrow> cache \<Rightarrow> cache \<times> busy_answer" where
  "busy_query env u body cache =
     (if u = 0 then (cache, BusyError 401 ''unauthorized'')
      else case body of
          None \<Rightarrow> (cache, BusyError 400 ''invalid JSON'')
        | Some (emails, startText, endText) \<Rightarrow>
            if emails = [] then (cache, BusyError 400 ''emails is required'')
            else if length emails > 20 then (cache, BusyError 400 ''max 20 emails per request'')
            else case parse_rfc3339 startText of
                None \<Rightarrow> (cache, BusyError 400 ''start_time must be RFC3339'')
              | Some start \<Rightarrow> (case parse_rfc3339 endText of
                  None \<Rightarrow> (cache, BusyError 400 ''end_time must be RFC3339'')
                | Some end' \<Rightarrow> (case Query env u emails start end' cache of
                    (c, Inl e) \<Rightarrow> (c, BusyError 500 ''query'')
                  | (c, Inr results) \<Rightarrow>
                      (c, BusyOk start end' results (foldl (\<lambda>m r. m(pb_email r \<mapsto> pb_busy r)) Map.empty results)))))"

subsection \<open>Properties\<close>

lemma sort_emails_all:
  "sort_emails env u start emails i cache = (c, rs, q) \<Longrightarrow>
     mset (map pb_email rs) + mset (map fst q) = mset (map norm_email emails) \<and>
     (\<forall>e \<in> set (map fst q). emailDomain e \<notin> set personalDomains)"
proof (induction emails arbitrary: i cache c rs q)
  case (Cons raw emails)
  let ?e = "norm_email raw"
  obtain c0 hit where g: "getCached (bv_clock env i) (cache_key env u start ?e) cache = (c0, hit)" by fastforce
  obtain c1 rs1 q1 where p: "sort_emails env u start emails (Suc i) cache = (c1, rs1, q1)" by (metis prod_cases3)
  obtain c2 rs2 q2 where m: "sort_emails env u start emails (Suc i) c0 = (c2, rs2, q2)" by (metis prod_cases3)
  show ?case using Cons.prems g p m Cons.IH [OF p] Cons.IH [OF m]
    by (auto simp: Let_def split: if_splits option.splits)
qed simp

lemma personal_unknown:
  "sort_emails env u start emails i cache = (c, rs, q) \<Longrightarrow> r \<in> set rs \<Longrightarrow> emailDomain (pb_email r) \<in> set personalDomains \<Longrightarrow>
     pb_coverage r = ''unknown'' \<and> pb_busy r = []"
proof (induction emails arbitrary: i cache c rs q)
  case (Cons raw emails)
  let ?e = "norm_email raw"
  obtain c0 hit where g: "getCached (bv_clock env i) (cache_key env u start ?e) cache = (c0, hit)" by fastforce
  obtain c1 rs1 q1 where p: "sort_emails env u start emails (Suc i) cache = (c1, rs1, q1)" by (metis prod_cases3)
  obtain c2 rs2 q2 where m: "sort_emails env u start emails (Suc i) c0 = (c2, rs2, q2)" by (metis prod_cases3)
  show ?case using Cons.prems g p m Cons.IH [OF p] Cons.IH [OF m]
    by (auto simp: Let_def split: if_splits option.splits)
qed simp

text \<open>
  A query that does not fail returns one entry per email
  asked for, under the trimmed lower-case email; the provider is asked only about emails that are
  not of a personal domain, and an entry of a personal domain is unknown and empty.
\<close>

theorem every_participant_answered:
  assumes "snd (Query env u emails start end' cache) = Inr rs"
  shows "mset (map pb_email rs) = mset (map norm_email emails) \<and>
    (\<forall>r \<in> set rs. emailDomain (pb_email r) \<in> set personalDomains \<longrightarrow> pb_coverage r = ''unknown'' \<and> pb_busy r = [])"
proof -
  obtain c rs0 q where s: "sort_emails env u start emails 0 cache = (c, rs0, q)" by (metis prod_cases3)
  obtain s' where st: "bv_settings env = Inr s'" using assms by (cases "bv_settings env") (auto simp: Query_def)
  define f where "f = answer_of (if ToLower (se_provider s') = ''outlook'' then bv_outlook env (map fst q) start end'
      else bv_google env (map fst q) start end') (Add (bv_clock env (length emails)) (15 * minute_ns))"
  have rs: "rs = rs0 @ map (\<lambda>(email, key). \<lparr>pb_email = email, pb_coverage = cr_coverage (f email), pb_busy = cr_slots (f email)\<rparr>) q"
    using assms s st by (auto simp: Query_def Let_def f_def split: if_splits)
  have "map pb_email rs = map pb_email rs0 @ map fst q" using rs by (simp add: split_beta comp_def)
  then have "mset (map pb_email rs) = mset (map norm_email emails)" using sort_emails_all [OF s] by simp
  moreover have "pb_coverage r = ''unknown'' \<and> pb_busy r = []"
    if r: "r \<in> set rs" "emailDomain (pb_email r) \<in> set personalDomains" for r
  proof -
    have "r \<in> set rs0" using r sort_emails_all [OF s] unfolding rs by (auto simp: split_beta)
    then show ?thesis using personal_unknown [OF s] r(2) by blast
  qed
  ultimately show ?thesis by blast
qed

text \<open>
  C38. The cache is keyed by user, email and the date of the start
  alone: within a quarter of an hour of a query that the provider answered, a query of the same
  user for the same email that starts on the same UTC date returns the first answer, whatever
  its range and whatever the provider would say now.
\<close>

theorem cached_answer_ignores_range:
  assumes "bv_settings env = Inr s" "emailDomain (norm_email e) \<notin> set personalDomains" "cache (cache_key env u start (norm_email e)) = None"
    and "(if ToLower (se_provider s) = ''outlook'' then bv_outlook env else bv_google env) [norm_email e] start end' = Some m"
      "m (norm_email e) = Some slots"
    and "bv_settings env' = Inr s'" "bv_uuid_text env' u = bv_uuid_text env u" "date_of (In start' UTC) = date_of (In start UTC)"
      "ns (bv_clock env' 0) \<le> ns (bv_clock env 1) + 15 * minute_ns"
  shows "snd (Query env' u [e] start' end'' (fst (Query env u [e] start end' cache))) =
    Inr [\<lparr>pb_email = norm_email e, pb_coverage = ''known'', pb_busy = slots\<rparr>]"
proof -
  let ?key = "cache_key env u start (norm_email e)"
  have "sort_emails env u start [e] 0 cache = (cache(?key := None), [], [(norm_email e, ?key)])"
    using assms(2,3) by (simp add: getCached_def Let_def)
  then have "fst (Query env u [e] start end' cache) ?key =
      Some \<lparr>cr_slots = slots, cr_coverage = ''known'', cr_expires = Add (bv_clock env 1) (15 * minute_ns)\<rparr>"
    using assms(1,4,5) by (auto simp: Query_def Let_def setCached_def answer_of_def split: if_splits)
  moreover have "cache_key env' u start' (norm_email e) = ?key" using assms(7,8) by (simp add: cache_key_def)
  ultimately show ?thesis using assms(2,6,9) by (simp add: Query_def getCached_def time_cmp_defs Add_def Let_def)
qed

lemma Query_answers: "bv_settings env = Inr s \<Longrightarrow> \<exists>rs. snd (Query env u emails start end' cache) = Inr rs"
  by (cases "sort_emails env u start emails 0 cache") (simp add: Query_def Let_def)

text \<open>A colleague asked about for the morning and then for the whole day.\<close>

definition ex_busy_env :: "TimeSlot list \<Rightarrow> busy_env" where
  "ex_busy_env slots = \<lparr>bv_settings = Inr default_settings, bv_google = (\<lambda>_ _ _. Some [''a@acme.org'' \<mapsto> slots]),
     bv_outlook = (\<lambda>_ _ _. None), bv_lost = (\<lambda>_. Inr False), bv_uuid_text = (\<lambda>_. ''7''), bv_clock = (\<lambda>_. go_date 20458 8 0 0 0 UTC)\<rparr>"

lemma ex_busy_settings: "bv_settings (ex_busy_env slots) = Inr default_settings"
  by (simp add: ex_busy_env_def)

definition ex_busy_slot :: "int \<Rightarrow> TimeSlot" where
  "ex_busy_slot h = \<lparr>ts_start = go_date 20458 h 0 0 0 UTC, ts_end = go_date 20458 (h + 1) 0 0 0 UTC\<rparr>"

lemma ex_emails:
  "norm_email '' A@acme.org'' = ''a@acme.org''" "emailDomain ''a@acme.org'' \<notin> set personalDomains"
  "ToLower (se_provider default_settings) \<noteq> ''outlook''"
  by code_simp+

theorem every_participant_answered_witness:
  "mset (map pb_email (case snd (Query (ex_busy_env [ex_busy_slot 9]) 7 ['' A@acme.org'', ''b@gmail.com''] (go_date 20458 0 0 0 0 UTC) (go_date 20459 0 0 0 0 UTC) Map.empty) of
     Inr rs \<Rightarrow> rs | Inl e \<Rightarrow> [])) = mset [''a@acme.org'', ''b@gmail.com'']"
proof -
  obtain rs where rs: "snd (Query (ex_busy_env [ex_busy_slot 9]) 7 ['' A@acme.org'', ''b@gmail.com''] (go_date 20458 0 0 0 0 UTC) (go_date 20459 0 0 0 0 UTC) Map.empty) = Inr rs"
    using Query_answers [OF ex_busy_settings] by blast
  have "map norm_email ['' A@acme.org'', ''b@gmail.com''] = [''a@acme.org'', ''b@gmail.com'']" by code_simp
  then show ?thesis using every_participant_answered [OF rs] rs by simp
qed

theorem cached_answer_ignores_range_witness:
  "snd (Query (ex_busy_env [ex_busy_slot 9, ex_busy_slot 15]) 7 ['' A@acme.org''] (go_date 20458 0 0 0 0 UTC) (go_date 20459 0 0 0 0 UTC)
      (fst (Query (ex_busy_env [ex_busy_slot 9]) 7 ['' A@acme.org''] (go_date 20458 0 0 0 0 UTC) (go_date 20458 12 0 0 0 UTC) Map.empty))) =
    Inr [\<lparr>pb_email = ''a@acme.org'', pb_coverage = ''known'', pb_busy = [ex_busy_slot 9]\<rparr>]"
  using cached_answer_ignores_range [where e = "'' A@acme.org''" and u = 7 and env = "ex_busy_env [ex_busy_slot 9]" and s = default_settings
      and cache = Map.empty and start = "go_date 20458 0 0 0 0 UTC" and end' = "go_date 20458 12 0 0 0 UTC" and m = "[''a@acme.org'' \<mapsto> [ex_busy_slot 9]]"
      and slots = "[ex_busy_slot 9]" and env' = "ex_busy_env [ex_busy_slot 9, ex_busy_slot 15]" and s' = default_settings and start' = "go_date 20458 0 0 0 0 UTC"
      and end'' = "go_date 20459 0 0 0 0 UTC"]
  unfolding ex_emails(1) using ex_emails(2,3) by (simp add: ex_busy_env_def)

end
