(* ===== verification/PersonalCalendars.thy ===== *)
theory PersonalCalendars
  imports Booking
begin

section \<open>PersonalCalendars: personal calendars mirrored as blockers\<close>

text \<open>
  \<^verbatim>\<open>backend/storage/personal_calendars.go\<close> with \<^verbatim>\<open>personal_calendars_secrets.go\<close>: the tables
  \<^verbatim>\<open>personal_calendars\<close> and \<^verbatim>\<open>personal_blockers\<close>; \<^verbatim>\<open>backend/calendar/personal_reader.go\<close> and
  the feed reader of \<^verbatim>\<open>webcal_client.go\<close>; \<^verbatim>\<open>backend/engine/personal_blocker.go\<close>: each personal event in
  working hours gets a blocker in the work calendar, and a blocker whose event is gone is
  removed. The sealing of secrets, the fetched feed, the providers' listings and the work
  calendar's answers are the environment. A wrapped error is kept as the error it wraps, which is
  what \<^verbatim>\<open>errors.Is\<close> sees.
\<close>

record GenericEvent =
  ge_id :: string
  ge_title :: string
  ge_start :: gotime
  ge_end :: gotime

record PersonalCalendar =
  kc_id :: nat
  kc_user :: uuid
  kc_provider :: string
  kc_name :: string
  kc_url :: string
  kc_creds :: string
  kc_enabled :: bool
  kc_synced :: "int option"
  kc_created :: int
  kc_secret_err :: "gerr option"

text \<open>A stored calendar: its texts are sealed, its user may be missing.\<close>

record calendar_row =
  kr_id :: nat
  kr_user :: "uuid option"
  kr_provider :: string
  kr_name :: string
  kr_url :: string
  kr_creds :: string
  kr_enabled :: bool
  kr_synced :: "int option"
  kr_created :: int

record PersonalBlocker =
  wb_id :: nat
  wb_cal :: nat
  wb_personal :: string
  wb_work :: string
  wb_created :: int

record personal_db =
  t_calendars :: "calendar_row list"
  t_blockers :: "PersonalBlocker list"
  seq_calendars :: nat
  seq_blockers :: nat

text \<open>The secret box: sealing and opening of a text bound to a column and a row.\<close>

record secret_box =
  bx_seal :: "string \<Rightarrow> nat \<Rightarrow> string \<Rightarrow> string result"
  bx_open :: "string \<Rightarrow> nat \<Rightarrow> string \<Rightarrow> string result"

subsection \<open>Statements\<close>

definition opened :: "string result \<Rightarrow> string" where
  "opened r = (case r of Inl e \<Rightarrow> '''' | Inr s \<Rightarrow> s)"

definition scanPersonalCalendar :: "secret_box \<Rightarrow> calendar_row \<Rightarrow> PersonalCalendar" where
  "scanPersonalCalendar box r =
     (let url = bx_open box ''url'' (kr_id r) (kr_url r); creds = bx_open box ''credentials_json'' (kr_id r) (kr_creds r)
      in \<lparr>kc_id = kr_id r, kc_user = (case kr_user r of None \<Rightarrow> 0 | Some u \<Rightarrow> u), kc_provider = kr_provider r,
          kc_name = kr_name r, kc_url = opened url, kc_creds = opened creds, kc_enabled = kr_enabled r,
          kc_synced = kr_synced r, kc_created = kr_created r,
          kc_secret_err = (case url of Inl e \<Rightarrow> Some e | Inr _ \<Rightarrow> (case creds of Inl e \<Rightarrow> Some e | Inr _ \<Rightarrow> None))\<rparr>)"

definition sealPersonal :: "secret_box \<Rightarrow> nat \<Rightarrow> string \<Rightarrow> string \<Rightarrow> (string \<times> string) result" where
  "sealPersonal box i url creds = (case bx_seal box ''url'' i url of
      Inl e \<Rightarrow> Inl e
    | Inr u \<Rightarrow> (case bx_seal box ''credentials_json'' i creds of Inl e \<Rightarrow> Inl e | Inr c \<Rightarrow> Inr (u, c)))"

definition ListPersonalCalendars :: "secret_box \<Rightarrow> personal_db \<Rightarrow> PersonalCalendar list" where
  "ListPersonalCalendars box db = map (scanPersonalCalendar box) (sort_key kr_id (t_calendars db))"

definition ListPersonalCalendarsByUser :: "secret_box \<Rightarrow> personal_db \<Rightarrow> uuid \<Rightarrow> PersonalCalendar list result" where
  "ListPersonalCalendarsByUser box db u =
     (if u = 0 then Inl (OtherError ''ListPersonalCalendarsByUser: userID is required'')
      else Inr (map (scanPersonalCalendar box) (sort_key kr_id (filter (\<lambda>r. kr_user r = Some u) (t_calendars db)))))"

definition GetPersonalCalendar :: "secret_box \<Rightarrow> personal_db \<Rightarrow> nat \<Rightarrow> PersonalCalendar result" where
  "GetPersonalCalendar box db i = (case find (\<lambda>r. kr_id r = i) (t_calendars db) of
      None \<Rightarrow> Inl (OtherError ''sql: no rows in result set'')
    | Some r \<Rightarrow> Inr (scanPersonalCalendar box r))"

text \<open>The id is taken from the sequence before the texts are sealed.\<close>

definition InsertPersonalCalendar :: "secret_box \<Rightarrow> int \<Rightarrow> PersonalCalendar \<Rightarrow> personal_db \<Rightarrow> personal_db \<times> nat result" where
  "InsertPersonalCalendar box now c db =
     (let i = Suc (seq_calendars db); db = db\<lparr>seq_calendars := i\<rparr>
      in case sealPersonal box i (kc_url c) (kc_creds c) of
          Inl e \<Rightarrow> (db, Inl e)
        | Inr (url, creds) \<Rightarrow>
            (db\<lparr>t_calendars := t_calendars db @ [\<lparr>kr_id = i, kr_user = Some (kc_user c), kr_provider = kc_provider c,
                kr_name = kc_name c, kr_url = url, kr_creds = creds, kr_enabled = kc_enabled c, kr_synced = None,
                kr_created = now\<rparr>]\<rparr>, Inr i))"

definition coalesce :: "'a option \<Rightarrow> 'a \<Rightarrow> 'a" where
  "coalesce x old = (case x of None \<Rightarrow> old | Some v \<Rightarrow> v)"

definition owned_row :: "nat \<Rightarrow> uuid \<Rightarrow> calendar_row \<Rightarrow> bool" where
  "owned_row i u r \<longleftrightarrow> kr_id r = i \<and> kr_user r = Some u"

definition sealed_url :: "secret_box \<Rightarrow> nat \<Rightarrow> string option \<Rightarrow> string option result" where
  "sealed_url box i url = (case url of
      None \<Rightarrow> Inr None
    | Some t \<Rightarrow> (case bx_seal box ''url'' i t of Inl e \<Rightarrow> Inl e | Inr sealed \<Rightarrow> Inr (Some sealed)))"

definition UpdatePersonalCalendar ::
  "secret_box \<Rightarrow> nat \<Rightarrow> uuid \<Rightarrow> string option \<Rightarrow> string option \<Rightarrow> bool option \<Rightarrow> personal_db \<Rightarrow> personal_db \<times> PersonalCalendar option result" where
  "UpdatePersonalCalendar box i u nm url enabled db = (case sealed_url box i url of
      Inl e \<Rightarrow> (db, Inl e)
    | Inr sealed \<Rightarrow>
        let put = (\<lambda>r. r\<lparr>kr_name := coalesce nm (kr_name r), kr_url := coalesce sealed (kr_url r), kr_enabled := coalesce enabled (kr_enabled r)\<rparr>);
            rows = map (\<lambda>r. if owned_row i u r then put r else r) (t_calendars db)
        in (db\<lparr>t_calendars := rows\<rparr>, Inr (map_option (scanPersonalCalendar box) (find (owned_row i u) rows))))"

text \<open>A deleted calendar takes its blockers' rows with it (\<^verbatim>\<open>ON DELETE CASCADE\<close>).\<close>

definition delete_rows :: "(calendar_row \<Rightarrow> bool) \<Rightarrow> personal_db \<Rightarrow> personal_db" where
  "delete_rows hit db = db\<lparr>t_calendars := filter (\<lambda>r. \<not> hit r) (t_calendars db),
     t_blockers := filter (\<lambda>b. \<not> list_ex (\<lambda>r. hit r \<and> kr_id r = wb_cal b) (t_calendars db)) (t_blockers db)\<rparr>"

definition DeletePersonalCalendarForUser :: "nat \<Rightarrow> uuid \<Rightarrow> personal_db \<Rightarrow> personal_db \<times> bool" where
  "DeletePersonalCalendarForUser i u db = (delete_rows (owned_row i u) db, list_ex (owned_row i u) (t_calendars db))"

definition DeletePersonalCalendar :: "nat \<Rightarrow> personal_db \<Rightarrow> personal_db" where
  "DeletePersonalCalendar i db = delete_rows (\<lambda>r. kr_id r = i) db"

definition MarkPersonalCalendarSynced :: "nat \<Rightarrow> uuid \<Rightarrow> int \<Rightarrow> personal_db \<Rightarrow> personal_db" where
  "MarkPersonalCalendarSynced i u now db =
     db\<lparr>t_calendars := map (\<lambda>r. if owned_row i u r then r\<lparr>kr_synced := Some now\<rparr> else r) (t_calendars db)\<rparr>"

definition ListUsersWithPersonalCalendars :: "personal_db \<Rightarrow> uuid list" where
  "ListUsersWithPersonalCalendars db =
     map (\<lambda>u. case u of None \<Rightarrow> 0 | Some v \<Rightarrow> v) (remdups (map kr_user (filter kr_enabled (t_calendars db))))"

definition blocker_of :: "nat \<Rightarrow> string \<Rightarrow> PersonalBlocker \<Rightarrow> bool" where
  "blocker_of cal p b \<longleftrightarrow> wb_cal b = cal \<and> wb_personal b = p"

definition GetPersonalBlocker :: "personal_db \<Rightarrow> nat \<Rightarrow> string \<Rightarrow> PersonalBlocker option" where
  "GetPersonalBlocker db cal p = find (blocker_of cal p) (t_blockers db)"

definition UpsertPersonalBlocker :: "int \<Rightarrow> nat \<Rightarrow> string \<Rightarrow> string \<Rightarrow> personal_db \<Rightarrow> personal_db" where
  "UpsertPersonalBlocker now cal p work db =
     (let i = Suc (seq_blockers db)
      in db\<lparr>seq_blockers := i,
            t_blockers := (if list_ex (blocker_of cal p) (t_blockers db)
              then map (\<lambda>b. if blocker_of cal p b then b\<lparr>wb_work := work\<rparr> else b) (t_blockers db)
              else t_blockers db @ [\<lparr>wb_id = i, wb_cal = cal, wb_personal = p, wb_work = work, wb_created = now\<rparr>])\<rparr>)"

definition ListPersonalBlockers :: "personal_db \<Rightarrow> nat \<Rightarrow> PersonalBlocker list" where
  "ListPersonalBlockers db cal = filter (\<lambda>b. wb_cal b = cal) (t_blockers db)"

definition DeletePersonalBlocker :: "nat \<Rightarrow> string \<Rightarrow> personal_db \<Rightarrow> personal_db" where
  "DeletePersonalBlocker cal p db = db\<lparr>t_blockers := filter (\<lambda>b. \<not> blocker_of cal p b) (t_blockers db)\<rparr>"

text \<open>The unique key of the blockers' table.\<close>

definition blockers_ok :: "personal_db \<Rightarrow> bool" where
  "blockers_ok db \<longleftrightarrow> distinct (map (\<lambda>b. (wb_cal b, wb_personal b)) (t_blockers db))"

lemma same_keys:
  "map (\<lambda>b. (wb_cal b, wb_personal b)) (map (\<lambda>b. if blocker_of cal p b then b\<lparr>wb_work := work\<rparr> else b) bs) =
   map (\<lambda>b. (wb_cal b, wb_personal b)) bs"
  by simp

lemma blockers_ok_Upsert: "blockers_ok db \<Longrightarrow> blockers_ok (UpsertPersonalBlocker now cal p work db)"
proof (cases "list_ex (blocker_of cal p) (t_blockers db)")
  case True
  then show "blockers_ok db \<Longrightarrow> ?thesis"
    by (simp add: blockers_ok_def UpsertPersonalBlocker_def Let_def same_keys del: map_map)
next
  case False
  then show "blockers_ok db \<Longrightarrow> ?thesis"
    by (auto simp: blockers_ok_def UpsertPersonalBlocker_def Let_def list_ex_iff blocker_of_def)
qed

lemma blockers_ok_Delete: "blockers_ok db \<Longrightarrow> blockers_ok (DeletePersonalBlocker cal p db)"
  by (simp add: blockers_ok_def DeletePersonalBlocker_def distinct_map_filter)

subsection \<open>Reading a personal calendar\<close>

text \<open>
  A component of a decoded feed: \<^verbatim>\<open>None\<close> is a missing property, and a date property holds what
  \<^verbatim>\<open>DateTime(time.UTC)\<close> answers.
\<close>

record ics_component =
  ic_name :: string
  ic_uid :: "string option"
  ic_summary :: "string option"
  ic_start :: "gotime result option"
  ic_end :: "gotime result option"

definition text_or_empty :: "string option \<Rightarrow> string" where
  "text_or_empty x = (case x of None \<Rightarrow> '''' | Some s \<Rightarrow> s)"

definition ics_event :: "ics_component \<Rightarrow> GenericEvent option" where
  "ics_event c =
     (if ic_name c \<noteq> ''VEVENT'' then None
      else case (ic_start c, ic_end c) of
          (Some (Inr s), Some (Inr e)) \<Rightarrow>
            Some \<lparr>ge_id = text_or_empty (ic_uid c), ge_title = text_or_empty (ic_summary c), ge_start = s, ge_end = e\<rparr>
        | _ \<Rightarrow> None)"

definition parseICS :: "ics_component list \<Rightarrow> GenericEvent list" where
  "parseICS comps = List.map_filter ics_event comps"

text \<open>An item of Google's listing; the client gives both of its times.\<close>

record google_item =
  gi_id :: string
  gi_summary :: string
  gi_start :: event_dt
  gi_end :: event_dt

definition firstNonEmpty :: "string \<Rightarrow> string \<Rightarrow> string" where
  "firstNonEmpty a b = (if a \<noteq> '''' then a else b)"

definition google_event :: "google_item \<Rightarrow> GenericEvent" where
  "google_event it = \<lparr>ge_id = gi_id it, ge_title = gi_summary it,
     ge_start = parse_or_zero (firstNonEmpty (edt_datetime (gi_start it)) (edt_date (gi_start it))),
     ge_end = parse_or_zero (firstNonEmpty (edt_datetime (gi_end it)) (edt_date (gi_end it)))\<rparr>"

record readers =
  rd_feed :: "string \<Rightarrow> ics_component list result"
  rd_outlook :: "string \<Rightarrow> gotime \<Rightarrow> gotime \<Rightarrow> GenericEvent list result"
  rd_google :: "string \<Rightarrow> gotime \<Rightarrow> gotime \<Rightarrow> google_item list result"

definition ListEvents_webcal :: "ics_component list result \<Rightarrow> gotime \<Rightarrow> gotime \<Rightarrow> GenericEvent list result" where
  "ListEvents_webcal feed st en = (case feed of
      Inl e \<Rightarrow> Inl e
    | Inr comps \<Rightarrow> Inr (filter (\<lambda>e. After (ge_end e) st \<and> Before (ge_start e) en) (parseICS comps)))"

definition ReadPersonalEvents :: "readers \<Rightarrow> PersonalCalendar \<Rightarrow> gotime \<Rightarrow> gotime \<Rightarrow> GenericEvent list result" where
  "ReadPersonalEvents rd pc st en = (case kc_secret_err pc of
      Some e \<Rightarrow> Inl e
    | None \<Rightarrow>
        if kc_provider pc = ''webcal'' then ListEvents_webcal (rd_feed rd (kc_url pc)) st en
        else if kc_provider pc = ''outlook'' then rd_outlook rd (kc_creds pc) st en
        else (case rd_google rd (kc_creds pc) st en of Inl e \<Rightarrow> Inl e | Inr items \<Rightarrow> Inr (map google_event items)))"

subsection \<open>The sync\<close>

text \<open>
  The environment of a sync, and its world: the tables, and the blocker events in the work
  calendar by id. \<open>pe_create n\<close> is the provider's answer to the \<open>n\<close>th event that is created.
  A call in flight that fails or is cut is one that \<open>pe_create\<close> answers with an error, or for whose
  event \<open>pe_deletes\<close> is false; an event that the provider made although its answer was lost is not
  in the model's work calendar.
\<close>

record blocker_env =
  pe_readers :: readers
  pe_zones :: "string \<Rightarrow> location option"
  pe_client :: "unit result"
  pe_create :: "nat \<Rightarrow> event \<Rightarrow> string result"
  pe_deletes :: "string \<Rightarrow> bool"
  pe_fails :: "string list"
  pe_row_fails :: "string \<Rightarrow> string \<Rightarrow> bool"
  pe_settings_id :: nat
  pe_now :: gotime

record blocker_world =
  wo_db :: personal_db
  wo_settings :: settings_db
  wo_events :: "(string \<times> event) list"
  wo_creates :: nat

definition personalBlockerTitle :: string where "personalBlockerTitle = ''[Personal] Busy''"
definition personalLookAheadDays :: int where "personalLookAheadDays = 14"

definition personalEventDuringWorkHours :: "(string \<Rightarrow> location option) \<Rightarrow> GenericEvent \<Rightarrow> Settings option \<Rightarrow> bool" where
  "personalEventDuringWorkHours tzdb e so = (case so of
      None \<Rightarrow> True
    | Some s \<Rightarrow>
        let loc = location_or_utc tzdb (se_timezone s);
            (startRaw, endRaw, enabled) = WorkWindow s (In (ge_start e) loc)
        in enabled \<and> Before (ge_start e) (parseHHMM endRaw (ge_start e) loc) \<and> After (ge_end e) (parseHHMM startRaw (ge_start e) loc))"

definition blocker_event :: "GenericEvent \<Rightarrow> event" where
  "blocker_event e = empty_event\<lparr>ev_summary := personalBlockerTitle, ev_description := ''Auto-created personal time blocker'',
     ev_start := at_time (In (ge_start e) UTC), ev_end := at_time (In (ge_end e) UTC)\<rparr>"

definition drop_blocker :: "blocker_env \<Rightarrow> nat \<Rightarrow> PersonalBlocker \<Rightarrow> blocker_world \<Rightarrow> blocker_world" where
  "drop_blocker env cal b w =
     (let w = (if pe_deletes env (wb_work b) then w\<lparr>wo_events := filter (\<lambda>(i, _). i \<noteq> wb_work b) (wo_events w)\<rparr> else w)
      in if pe_row_fails env ''delete'' (wb_personal b) then w
         else w\<lparr>wo_db := DeletePersonalBlocker cal (wb_personal b) (wo_db w)\<rparr>)"

definition make_blocker :: "blocker_env \<Rightarrow> nat \<Rightarrow> GenericEvent \<Rightarrow> blocker_world \<Rightarrow> blocker_world" where
  "make_blocker env cal e w =
     (let n = wo_creates w; ev = blocker_event e; w = w\<lparr>wo_creates := Suc n\<rparr>
      in case pe_create env n ev of
          Inl _ \<Rightarrow> w
        | Inr i \<Rightarrow>
            let w = w\<lparr>wo_events := wo_events w @ [(i, ev)]\<rparr>
            in if pe_row_fails env ''upsert'' (ge_id e) then w
               else w\<lparr>wo_db := UpsertPersonalBlocker (ns (pe_now env)) cal (ge_id e) i (wo_db w)\<rparr>)"

text \<open>
  A run of the pool as the sync sees it: the items whose calls were started, in the order they
  finished, and whether the run was cut; for each number of items there is one. What a started
  call that is cut does is the environment's answer to it.
\<close>

type_synonym pool_order = "nat list \<times> bool"
type_synonym schedule = "nat \<Rightarrow> pool_order"

definition legit_order :: "nat \<Rightarrow> pool_order \<Rightarrow> bool" where
  "legit_order n r \<longleftrightarrow> distinct (fst r) \<and> set (fst r) \<subseteq> {0..<n} \<and> (\<not> snd r \<longrightarrow> set (fst r) = {0..<n})"

definition legit :: "schedule \<Rightarrow> bool" where
  "legit r \<longleftrightarrow> (\<forall>n. legit_order n (r n))"

definition run_calls :: "('a \<Rightarrow> 'w \<Rightarrow> 'w) \<Rightarrow> 'a list \<Rightarrow> schedule \<Rightarrow> 'w \<Rightarrow> 'w \<times> bool" where
  "run_calls f xs r w = (case r (length xs) of (calls, wascut) \<Rightarrow> (fold (\<lambda>i. f (xs ! i)) calls w, wascut))"

definition stale_blockers :: "personal_db \<Rightarrow> nat \<Rightarrow> GenericEvent list \<Rightarrow> PersonalBlocker list" where
  "stale_blockers db cal events =
     filter (\<lambda>b. \<not> list_ex (\<lambda>e. ge_id e = wb_personal b) events) (ListPersonalBlockers db cal)"

definition missing_events :: "blocker_env \<Rightarrow> Settings option \<Rightarrow> personal_db \<Rightarrow> nat \<Rightarrow> GenericEvent list \<Rightarrow> GenericEvent list" where
  "missing_events env so db cal events =
     filter (\<lambda>e. personalEventDuringWorkHours (pe_zones env) e so \<and>
        (pe_row_fails env ''lookup'' (ge_id e) \<or> GetPersonalBlocker db cal (ge_id e) = None)) events"

definition read_settings :: "blocker_env \<Rightarrow> uuid \<Rightarrow> settings_db \<Rightarrow> settings_db \<times> Settings option" where
  "read_settings env u sdb =
     (if ''settings'' \<in> set (pe_fails env) then (sdb, None)
      else case GetOrCreateSettingsByUser (pe_settings_id env) u sdb of
          (sdb, Inl _) \<Rightarrow> (sdb, None) | (sdb, Inr s) \<Rightarrow> (sdb, Some s))"

definition sync_window :: "blocker_env \<Rightarrow> gotime \<times> gotime" where
  "sync_window env = (let st = Truncate (pe_now env) day_ns in (st, AddDays st personalLookAheadDays))"

definition syncOne ::
  "blocker_env \<Rightarrow> PersonalCalendar \<Rightarrow> schedule \<Rightarrow> schedule \<Rightarrow> blocker_world \<Rightarrow> blocker_world \<times> unit result" where
  "syncOne env pc deletes creates w =
     (case ReadPersonalEvents (pe_readers env) pc (fst (sync_window env)) (snd (sync_window env)) of
        Inl e \<Rightarrow> (w, Inl e)
      | Inr events \<Rightarrow> (case pe_client env of
            Inl e \<Rightarrow> (w, Inl e)
          | Inr _ \<Rightarrow>
              let (sdb, so) = read_settings env (kc_user pc) (wo_settings w); w = w\<lparr>wo_settings := sdb\<rparr>
              in if ''ListPersonalBlockers'' \<in> set (pe_fails env) then (w, Inl (OtherError ''list blockers''))
                 else case run_calls (drop_blocker env (kc_id pc)) (stale_blockers (wo_db w) (kc_id pc) events) deletes w of
                     (w, True) \<Rightarrow> (w, Inl ErrExpired)
                   | (w, False) \<Rightarrow>
                       (case run_calls (make_blocker env (kc_id pc)) (missing_events env so (wo_db w) (kc_id pc) events) creates w of
                          (w, True) \<Rightarrow> (w, Inl ErrExpired) | (w, False) \<Rightarrow> (w, Inr ()))))"

text \<open>
  The sync of a user's calendars: one that fails is logged and the others go on. \<open>runs\<close> gives
  the pool's two runs of each calendar.
\<close>

definition sync_next ::
  "blocker_env \<Rightarrow> (nat \<Rightarrow> schedule \<times> schedule) \<Rightarrow> PersonalCalendar \<Rightarrow> blocker_world \<times> (nat \<times> gerr) list \<Rightarrow> blocker_world \<times> (nat \<times> gerr) list" where
  "sync_next env runs pc st = (case st of (w, log) \<Rightarrow>
     if \<not> kc_enabled pc then (w, log)
     else (case syncOne env pc (fst (runs (kc_id pc))) (snd (runs (kc_id pc))) w of
         (w, Inl e) \<Rightarrow> (w, log @ [(kc_id pc, e)]) | (w, Inr _) \<Rightarrow> (w, log)))"

definition SyncAllForUser ::
  "secret_box \<Rightarrow> blocker_env \<Rightarrow> (nat \<Rightarrow> schedule \<times> schedule) \<Rightarrow> uuid \<Rightarrow> blocker_world \<Rightarrow> (blocker_world \<times> (nat \<times> gerr) list) \<times> unit result" where
  "SyncAllForUser box env runs u w =
     (if u = 0 then ((w, []), Inl (OtherError ''PersonalBlocker.SyncAllForUser: userID is required''))
      else if ''ListPersonalCalendarsByUser'' \<in> set (pe_fails env) then ((w, []), Inl (OtherError ''list personal calendars''))
      else case ListPersonalCalendarsByUser box (wo_db w) u of
          Inl e \<Rightarrow> ((w, []), Inl e)
        | Inr cals \<Rightarrow> (fold (sync_next env runs) cals (w, []), Inr ()))"

definition SyncAll ::
  "secret_box \<Rightarrow> blocker_env \<Rightarrow> (nat \<Rightarrow> schedule \<times> schedule) \<Rightarrow> uuid \<Rightarrow> blocker_world \<Rightarrow> (blocker_world \<times> (nat \<times> gerr) list) \<times> unit result" where
  "SyncAll box env runs u w =
     (if u = 0 then ((w, []), Inl (OtherError ''PersonalBlocker.SyncAll: userID is required (use SyncAllForUser from cron paths)''))
      else SyncAllForUser box env runs u w)"

definition get_calendar :: "secret_box \<Rightarrow> blocker_env \<Rightarrow> personal_db \<Rightarrow> nat \<Rightarrow> PersonalCalendar result" where
  "get_calendar box env db i =
     (if ''GetPersonalCalendar'' \<in> set (pe_fails env) then Inl (OtherError ''get calendar'') else GetPersonalCalendar box db i)"

definition Preview :: "secret_box \<Rightarrow> blocker_env \<Rightarrow> personal_db \<Rightarrow> nat \<Rightarrow> gotime \<Rightarrow> gotime \<Rightarrow> GenericEvent list result" where
  "Preview box env db i st en = (case get_calendar box env db i of
      Inl e \<Rightarrow> Inl e | Inr pc \<Rightarrow> ReadPersonalEvents (pe_readers env) pc st en)"

definition Sync ::
  "secret_box \<Rightarrow> blocker_env \<Rightarrow> nat \<Rightarrow> schedule \<Rightarrow> schedule \<Rightarrow> blocker_world \<Rightarrow> blocker_world \<times> unit result" where
  "Sync box env i deletes creates w = (case get_calendar box env (wo_db w) i of
      Inl e \<Rightarrow> (w, Inl e) | Inr pc \<Rightarrow> syncOne env pc deletes creates w)"

subsection \<open>Runs of the pool\<close>

text \<open>A legitimate order runs each item at most once, and every item if it was not cut.\<close>

lemma legit_calls:
  assumes "legit r" "run_calls f xs r w = (w', wascut)"
  shows "\<exists>ys. mset ys \<subseteq># mset xs \<and> (\<not> wascut \<longrightarrow> mset ys = mset xs) \<and> w' = fold f ys w"
proof (intro exI conjI impI)
  obtain calls where ran_r: "r (length xs) = (calls, wascut)" "w' = fold (\<lambda>i. f (xs ! i)) calls w"
    using assms(2) by (auto simp: run_calls_def split: prod.splits)
  with assms(1) have lg: "legit_order (length xs) (calls, wascut)" by (metis legit_def)
  let ?ys = "map ((!) xs) (fst (r (length xs)))"
  have all: "mset xs = image_mset ((!) xs) (mset_set {0..<length xs})"
    by (metis map_nth mset_map mset_upt)
  have calls_mset: "mset calls = mset_set (set calls)" using lg by (simp add: legit_order_def mset_set_set)
  show "mset ?ys \<subseteq># mset xs"
    unfolding mset_map all ran_r fst_conv calls_mset using lg
    by (intro image_mset_subseteq_mono subset_imp_msubset_mset_set) (auto simp: legit_order_def)
  show "mset ?ys = mset xs" if "\<not> wascut"
    unfolding mset_map all ran_r fst_conv calls_mset using lg that by (simp add: legit_order_def)
  show "w' = fold f ?ys w" by (simp add: ran_r fold_map o_def)
qed

text \<open>The orders of \<open>Peritem\<close>'s pool are legitimate.\<close>

lemma pool_gives_legit_order:
  assumes "pool_reach workers n body p" "pool_finished p"
  shows "legit_order n (rev (po_done p), po_cut p)"
  using pool_reach_inv [OF assms(1)] assms(2)
  by (auto simp: pool_inv_def pool_finished_def legit_order_def)

subsection \<open>Blockers and their events\<close>

text \<open>Every recorded blocker has its event in the work calendar, and every blocker event is recorded.\<close>

definition linked :: "blocker_world \<Rightarrow> bool" where
  "linked w \<longleftrightarrow> mset (map wb_work (t_blockers (wo_db w))) = mset (map fst (wo_events w)) \<and> distinct (map fst (wo_events w))"

text \<open>A work calendar and a database that do what they are asked: \<open>nm n\<close> is the id of the \<open>n\<close>th event.\<close>

definition works :: "blocker_env \<Rightarrow> (nat \<Rightarrow> string) \<Rightarrow> bool" where
  "works env nm \<longleftrightarrow> inj nm \<and> (\<forall>n ev. pe_create env n ev = Inr (nm n)) \<and> (\<forall>i. pe_deletes env i) \<and> (\<forall>k p. \<not> pe_row_fails env k p)"

definition fresh_ids :: "(nat \<Rightarrow> string) \<Rightarrow> blocker_world \<Rightarrow> bool" where
  "fresh_ids nm w \<longleftrightarrow> (\<forall>n \<ge> wo_creates w. nm n \<notin> fst ` set (wo_events w))"

definition sound_world :: "(nat \<Rightarrow> string) \<Rightarrow> blocker_world \<Rightarrow> bool" where
  "sound_world nm w \<longleftrightarrow> blockers_ok (wo_db w) \<and> linked w \<and> fresh_ids nm w"

lemma blocker_of_eq:
  assumes "blockers_ok db" "b \<in> set (t_blockers db)" "x \<in> set (t_blockers db)"
  shows "blocker_of (wb_cal b) (wb_personal b) x \<longleftrightarrow> x = b"
  using assms by (auto simp: blockers_ok_def blocker_of_def distinct_map inj_on_def)

lemma filter_remove1: "distinct xs \<Longrightarrow> filter (\<lambda>x. x \<noteq> a) xs = remove1 a xs"
  by (simp add: distinct_remove1_removeAll removeAll_filter_not_eq eq_commute [of a] cong: filter_cong)

lemma drop_blocker_step:
  assumes "works env nm" "sound_world nm w" "b \<in> set (t_blockers (wo_db w))" "wb_cal b = cal"
  shows "sound_world nm (drop_blocker env cal b w) \<and>
    t_blockers (wo_db (drop_blocker env cal b w)) = filter (\<lambda>x. x \<noteq> b) (t_blockers (wo_db w))"
proof -
  let ?bs = "t_blockers (wo_db w)"
  let ?w = "drop_blocker env cal b w"
  have w: "?w = w\<lparr>wo_events := filter (\<lambda>(i, _). i \<noteq> wb_work b) (wo_events w), wo_db := DeletePersonalBlocker cal (wb_personal b) (wo_db w)\<rparr>"
    using assms(1) by (simp add: drop_blocker_def works_def Let_def)
  have ok: "blockers_ok (wo_db w)" "linked w" "fresh_ids nm w" using assms(2) by (simp_all add: sound_world_def)
  have bs: "t_blockers (wo_db ?w) = filter (\<lambda>x. x \<noteq> b) ?bs"
    unfolding w using blocker_of_eq [OF ok(1) assms(3)] assms(4)
    by (auto simp: DeletePersonalBlocker_def intro: filter_cong)
  have works_distinct: "distinct (map wb_work ?bs)"
    using ok(2) unfolding linked_def by (metis mset_eq_imp_distinct_iff)
  then have same: "map wb_work (filter (\<lambda>x. x \<noteq> b) ?bs) = filter (\<lambda>i. i \<noteq> wb_work b) (map wb_work ?bs)"
    using assms(3) by (auto simp: filter_map distinct_map inj_on_def intro!: arg_cong [where f = "map wb_work"] filter_cong)
  have evs: "map fst (wo_events ?w) = filter (\<lambda>i. i \<noteq> wb_work b) (map fst (wo_events w))"
    by (simp add: w filter_map o_def case_prod_unfold)
  have "mset (filter (\<lambda>i. i \<noteq> wb_work b) (map wb_work ?bs)) = mset (filter (\<lambda>i. i \<noteq> wb_work b) (map fst (wo_events w)))"
    using ok(2) unfolding linked_def mset_filter by simp
  then have "linked ?w"
    using ok(2) unfolding linked_def bs same by (simp only: evs distinct_filter)
  moreover have "fresh_ids nm ?w" using ok(3) by (auto simp: fresh_ids_def w)
  moreover have "blockers_ok (wo_db ?w)" unfolding w using ok(1) by (simp add: blockers_ok_Delete)
  ultimately show ?thesis using bs by (simp add: sound_world_def)
qed

lemma drop_blockers_fold:
  assumes "works env nm" "sound_world nm w" "distinct ys" "set ys \<subseteq> set (ListPersonalBlockers (wo_db w) cal)"
  shows "sound_world nm (fold (drop_blocker env cal) ys w) \<and>
    t_blockers (wo_db (fold (drop_blocker env cal) ys w)) = filter (\<lambda>b. b \<notin> set ys) (t_blockers (wo_db w))"
  using assms(2-4)
proof (induction ys arbitrary: w)
  case (Cons b ys)
  let ?w = "drop_blocker env cal b w"
  have step: "sound_world nm ?w" "t_blockers (wo_db ?w) = filter (\<lambda>x. x \<noteq> b) (t_blockers (wo_db w))"
    using drop_blocker_step [OF assms(1) Cons.prems(1), of b cal] Cons.prems(3) by (auto simp: ListPersonalBlockers_def)
  have "set ys \<subseteq> set (ListPersonalBlockers (wo_db ?w) cal)"
    using Cons.prems(2,3) by (auto simp: ListPersonalBlockers_def step(2))
  from Cons.IH [OF step(1) _ this] Cons.prems(2) show ?case by (auto simp: step(2) intro: filter_cong)
qed simp

definition new_row :: "int \<Rightarrow> nat \<Rightarrow> nat \<Rightarrow> string \<Rightarrow> string \<Rightarrow> PersonalBlocker" where
  "new_row now i cal p work = \<lparr>wb_id = i, wb_cal = cal, wb_personal = p, wb_work = work, wb_created = now\<rparr>"

lemma make_blocker_step:
  assumes "works env nm" "sound_world nm w" "GetPersonalBlocker (wo_db w) cal (ge_id e) = None"
  shows "sound_world nm (make_blocker env cal e w) \<and>
    (\<exists>row. t_blockers (wo_db (make_blocker env cal e w)) = t_blockers (wo_db w) @ [row] \<and> wb_cal row = cal \<and> wb_personal row = ge_id e)"
proof -
  let ?i = "nm (wo_creates w)"
  let ?row = "new_row (ns (pe_now env)) (Suc (seq_blockers (wo_db w))) cal (ge_id e) ?i"
  let ?w = "make_blocker env cal e w"
  have none: "\<not> list_ex (blocker_of cal (ge_id e)) (t_blockers (wo_db w))"
    using assms(3) by (auto simp: GetPersonalBlocker_def find_None_iff list_ex_iff)
  have w: "?w = w\<lparr>wo_creates := Suc (wo_creates w), wo_events := wo_events w @ [(?i, blocker_event e)],
      wo_db := UpsertPersonalBlocker (ns (pe_now env)) cal (ge_id e) ?i (wo_db w)\<rparr>"
    using assms(1) by (simp add: make_blocker_def works_def Let_def)
  have row: "t_blockers (wo_db ?w) = t_blockers (wo_db w) @ [?row]"
    using none by (simp add: w UpsertPersonalBlocker_def Let_def new_row_def)
  have ok: "blockers_ok (wo_db w)" "linked w" "fresh_ids nm w" using assms(2) by (simp_all add: sound_world_def)
  have new: "?i \<notin> fst ` set (wo_events w)" using ok(3) by (simp add: fresh_ids_def)
  have "blockers_ok (wo_db ?w)" unfolding w using ok(1) by (simp add: blockers_ok_Upsert)
  moreover have "linked ?w" using ok(2) new unfolding linked_def row by (simp add: w new_row_def)
  moreover have "fresh_ids nm ?w" using ok(3) assms(1) by (auto simp: fresh_ids_def w works_def inj_eq)
  ultimately show ?thesis using row by (auto simp: sound_world_def new_row_def)
qed

lemma make_blockers_fold:
  assumes "works env nm" "sound_world nm w" "distinct (map ge_id ys)"
    and "\<And>e. e \<in> set ys \<Longrightarrow> GetPersonalBlocker (wo_db w) cal (ge_id e) = None"
  shows "sound_world nm (fold (make_blocker env cal) ys w) \<and>
    (\<exists>rows. t_blockers (wo_db (fold (make_blocker env cal) ys w)) = t_blockers (wo_db w) @ rows \<and>
      map wb_personal rows = map ge_id ys \<and> (\<forall>r \<in> set rows. wb_cal r = cal))"
  using assms(2-4)
proof (induction ys arbitrary: w)
  case (Cons e ys)
  let ?w = "make_blocker env cal e w"
  obtain row where step: "sound_world nm ?w" "t_blockers (wo_db ?w) = t_blockers (wo_db w) @ [row]" "wb_cal row = cal" "wb_personal row = ge_id e"
    using make_blocker_step [OF assms(1) Cons.prems(1), of cal e] Cons.prems(3) [of e] by auto
  have "GetPersonalBlocker (wo_db ?w) cal (ge_id d) = None" if "d \<in> set ys" for d
  proof -
    have "ge_id d \<noteq> ge_id e" using Cons.prems(2) that by (force simp: image_iff)
    then show ?thesis using Cons.prems(3) [of d] that step(3,4)
      by (auto simp: GetPersonalBlocker_def find_None_iff step(2) blocker_of_def)
  qed
  with Cons.IH [OF step(1)] Cons.prems(2) obtain rows where
    "sound_world nm (fold (make_blocker env cal) ys ?w)"
    "t_blockers (wo_db (fold (make_blocker env cal) ys ?w)) = t_blockers (wo_db ?w) @ rows"
    "map wb_personal rows = map ge_id ys" "\<forall>r \<in> set rows. wb_cal r = cal" by auto
  then show ?case using step by (auto intro!: exI [of _ "row # rows"])
qed simp

lemma sound_settings [simp]: "sound_world nm (w\<lparr>wo_settings := x\<rparr>) \<longleftrightarrow> sound_world nm w"
  by (simp add: sound_world_def linked_def fresh_ids_def)

text \<open>The personal events that have a blocker.\<close>

definition mirrored :: "nat \<Rightarrow> blocker_world \<Rightarrow> string set" where
  "mirrored cal w = wb_personal ` set (ListPersonalBlockers (wo_db w) cal)"

lemma mset_sub_distinct: "mset ys \<subseteq># mset xs \<Longrightarrow> distinct xs \<Longrightarrow> distinct ys \<and> set ys \<subseteq> set xs"
  by (metis distinct_append mset_append mset_eq_imp_distinct_iff mset_subset_eq_exists_conv ex_mset set_mset_mono set_mset_mset)

lemma mset_sub_map: "mset ys \<subseteq># mset xs \<Longrightarrow> mset (map f ys) \<subseteq># mset (map f xs)"
  by (simp add: image_mset_subseteq_mono)

lemma drop_run:
  assumes "works env nm" "sound_world nm w" "legit r"
    and "run_calls (drop_blocker env cal) (stale_blockers (wo_db w) cal events) r w = (w1, wascut)"
  shows "sound_world nm w1" "\<not> wascut \<Longrightarrow>
    t_blockers (wo_db w1) = filter (\<lambda>b. \<not> (wb_cal b = cal \<and> wb_personal b \<notin> ge_id ` set events)) (t_blockers (wo_db w))"
proof -
  let ?xs = "stale_blockers (wo_db w) cal events"
  obtain ys where ys: "mset ys \<subseteq># mset ?xs" "\<not> wascut \<Longrightarrow> mset ys = mset ?xs" "w1 = fold (drop_blocker env cal) ys w"
    using legit_calls [OF assms(3,4)] by metis
  have "distinct (t_blockers (wo_db w))" using assms(2) by (auto simp: sound_world_def blockers_ok_def distinct_map)
  then have "distinct ?xs" by (simp add: stale_blockers_def ListPersonalBlockers_def)
  with mset_sub_distinct [OF ys(1)] have d: "distinct ys" "set ys \<subseteq> set ?xs" by auto
  have "set ys \<subseteq> set (ListPersonalBlockers (wo_db w) cal)" using d(2) by (auto simp: stale_blockers_def)
  from drop_blockers_fold [OF assms(1,2) d(1) this] have f: "sound_world nm w1"
    "t_blockers (wo_db w1) = filter (\<lambda>b. b \<notin> set ys) (t_blockers (wo_db w))" unfolding ys(3) by auto
  show "sound_world nm w1" by (fact f(1))
  assume "\<not> wascut"
  then have "set ys = set ?xs" using ys(2) by (metis set_mset_mset)
  then show "t_blockers (wo_db w1) = filter (\<lambda>b. \<not> (wb_cal b = cal \<and> wb_personal b \<notin> ge_id ` set events)) (t_blockers (wo_db w))"
    unfolding f(2) by (auto simp: stale_blockers_def ListPersonalBlockers_def list_ex_iff image_iff intro!: filter_cong) metis
qed

lemma make_run:
  assumes "works env nm" "sound_world nm w" "distinct (map ge_id events)"
    and "legit r" "run_calls (make_blocker env cal) (missing_events env so (wo_db w) cal events) r w = (w1, wascut)"
  shows "sound_world nm w1" "\<not> wascut \<Longrightarrow>
    mirrored cal w1 = mirrored cal w \<union> ge_id ` {e \<in> set events. personalEventDuringWorkHours (pe_zones env) e so}"
    "filter (\<lambda>b. wb_cal b \<noteq> cal) (t_blockers (wo_db w1)) = filter (\<lambda>b. wb_cal b \<noteq> cal) (t_blockers (wo_db w))"
proof -
  let ?xs = "missing_events env so (wo_db w) cal events"
  obtain ys where ys: "mset ys \<subseteq># mset ?xs" "\<not> wascut \<Longrightarrow> mset ys = mset ?xs" "w1 = fold (make_blocker env cal) ys w"
    using legit_calls [OF assms(4,5)] by metis
  have "distinct (map ge_id ?xs)" using assms(3) by (simp add: missing_events_def distinct_map_filter)
  with mset_sub_distinct [OF mset_sub_map [OF ys(1)]] have d: "distinct (map ge_id ys)" by blast
  have sub: "set ys \<subseteq> set ?xs" using ys(1) by (metis set_mset_mono set_mset_mset)
  then have "\<And>e. e \<in> set ys \<Longrightarrow> GetPersonalBlocker (wo_db w) cal (ge_id e) = None"
    using assms(1) by (auto simp: missing_events_def works_def)
  from make_blockers_fold [OF assms(1,2) d this] obtain rows where f: "sound_world nm w1"
    "t_blockers (wo_db w1) = t_blockers (wo_db w) @ rows" "map wb_personal rows = map ge_id ys" "\<forall>r \<in> set rows. wb_cal r = cal"
    unfolding ys(3) by auto
  show "sound_world nm w1" by (fact f(1))
  show "filter (\<lambda>b. wb_cal b \<noteq> cal) (t_blockers (wo_db w1)) = filter (\<lambda>b. wb_cal b \<noteq> cal) (t_blockers (wo_db w))"
    using f(4) by (simp add: f(2) filter_empty_conv)
  have rows: "wb_personal ` set rows = ge_id ` set ys" using f(3) by (metis set_map)
  have all: "mirrored cal w1 = mirrored cal w \<union> ge_id ` set ys"
    using f(4) unfolding mirrored_def ListPersonalBlockers_def f(2) rows [symmetric] by auto
  assume "\<not> wascut"
  then have "set ys = set ?xs" using ys(2) by (metis set_mset_mset)
  then have set_ys: "set ys = {e \<in> set events. personalEventDuringWorkHours (pe_zones env) e so \<and> GetPersonalBlocker (wo_db w) cal (ge_id e) = None}"
    using assms(1) by (auto simp: missing_events_def works_def)
  have "ge_id e \<in> mirrored cal w" if "GetPersonalBlocker (wo_db w) cal (ge_id e) \<noteq> None" for e
    using that by (auto simp: GetPersonalBlocker_def find_None_iff mirrored_def ListPersonalBlockers_def blocker_of_def image_iff)
  then show "mirrored cal w1 = mirrored cal w \<union> ge_id ` {e \<in> set events. personalEventDuringWorkHours (pe_zones env) e so}"
    unfolding all set_ys by blast
qed

subsection \<open>What a sync leaves\<close>

text \<open>A sync that read its events: its two runs, and the settings it saw.\<close>

lemma syncOne_runs:
  assumes "ReadPersonalEvents (pe_readers env) pc (fst (sync_window env)) (snd (sync_window env)) = Inr events"
    and "read_settings env (kc_user pc) (wo_settings w) = (sdb, so)" "syncOne env pc d c w = (w', res)"
  obtains "w' = w" "\<not> isOk res" | "w' = w\<lparr>wo_settings := sdb\<rparr>" "\<not> isOk res"
  | w1 cut1 where "run_calls (drop_blocker env (kc_id pc)) (stale_blockers (wo_db w) (kc_id pc) events) d (w\<lparr>wo_settings := sdb\<rparr>) = (w1, cut1)"
      "cut1" "w' = w1" "\<not> isOk res"
  | w1 w2 cut2 where "run_calls (drop_blocker env (kc_id pc)) (stale_blockers (wo_db w) (kc_id pc) events) d (w\<lparr>wo_settings := sdb\<rparr>) = (w1, False)"
      "run_calls (make_blocker env (kc_id pc)) (missing_events env so (wo_db w1) (kc_id pc) events) c w1 = (w2, cut2)"
      "w' = w2" "isOk res \<longleftrightarrow> \<not> cut2"
proof (cases "isOk (pe_client env)")
  case False
  then obtain e where "pe_client env = Inl e" by (cases "pe_client env") auto
  then have "w' = w" "res = Inl e" using assms by (simp_all add: syncOne_def)
  then show ?thesis using that(1) by simp
next
  case client: True
  let ?w = "w\<lparr>wo_settings := sdb\<rparr>" and ?cal = "kc_id pc"
  obtain w1 cut1 where r1: "run_calls (drop_blocker env ?cal) (stale_blockers (wo_db w) ?cal events) d ?w = (w1, cut1)" by fastforce
  obtain w2 cut2 where r2: "run_calls (make_blocker env ?cal) (missing_events env so (wo_db w1) ?cal events) c w1 = (w2, cut2)" by fastforce
  have s: "syncOne env pc d c w = (if ''ListPersonalBlockers'' \<in> set (pe_fails env) then (?w, Inl (OtherError ''list blockers''))
      else if cut1 then (w1, Inl ErrExpired) else if cut2 then (w2, Inl ErrExpired) else (w2, Inr ()))"
    using client by (cases cut1; cases cut2; cases "pe_client env") (simp_all add: syncOne_def assms(1,2) r1 r2)
  show ?thesis
  proof (cases "''ListPersonalBlockers'' \<in> set (pe_fails env)")
    case True
    then show ?thesis using s assms(3) that(2) by auto
  next
    case False
    then show ?thesis using s assms(3) that(3) [OF r1] that(4) [OF _ r2] r1 by (cases cut1; cases cut2) auto
  qed
qed

lemma drop_settings [simp]: "wo_settings (drop_blocker env cal b w) = wo_settings w"
  by (simp add: drop_blocker_def Let_def)

lemma make_settings [simp]: "wo_settings (make_blocker env cal e w) = wo_settings w"
  by (simp add: make_blocker_def Let_def split: sum.splits)

lemma fold_keeps: "(\<And>x w. g (f x w) = g w) \<Longrightarrow> g (fold f xs w) = g w"
  by (induction xs arbitrary: w) simp_all

lemma run_settings:
  assumes "\<And>x v. wo_settings (f x v) = wo_settings v" "run_calls f xs r w = (w', b)"
  shows "wo_settings w' = wo_settings w"
  using assms(2) fold_keeps [of wo_settings "\<lambda>i. f (xs ! i)"] assms(1) by (auto simp: run_calls_def split: prod.splits)

lemma find_append_None: "find P xs = None \<Longrightarrow> find P (xs @ ys) = find P ys"
  by (induction xs) (auto split: if_splits)

lemma read_settings_again:
  "read_settings env u sdb = (sdb', so) \<Longrightarrow> read_settings env u sdb' = (sdb', so)"
  by (auto simp: read_settings_def GetOrCreateSettingsByUser_def find_row_def find_append_None split: if_splits option.splits sum.splits)

lemma run_nothing: "legit r \<Longrightarrow> run_calls f [] r w = (w', b) \<Longrightarrow> w' = w"
  using legit_calls [of r f "[]" w w' b] by auto

text \<open>A sync of a calendar whose events are all settled changes neither the tables nor the work calendar.\<close>

lemma settled_sync:
  assumes read: "ReadPersonalEvents (pe_readers env) pc (fst (sync_window env)) (snd (sync_window env)) = Inr events"
    and settings: "read_settings env (kc_user pc) (wo_settings w) = (wo_settings w, so)"
    and "stale_blockers (wo_db w) (kc_id pc) events = []" "missing_events env so (wo_db w) (kc_id pc) events = []"
    and "legit d" "legit c"
  shows "fst (syncOne env pc d c w) = w"
proof -
  obtain w' res where s: "syncOne env pc d c w = (w', res)" by fastforce
  from syncOne_runs [OF read settings s] have "w' = w"
    using assms(3-6) by cases (auto dest!: run_nothing)
  then show ?thesis by (simp add: s)
qed

lemma missing_none:
  assumes "works env nm" "ge_id ` {e \<in> set events. personalEventDuringWorkHours (pe_zones env) e so} \<subseteq> mirrored cal w"
  shows "missing_events env so (wo_db w) cal events = []"
proof -
  have "GetPersonalBlocker (wo_db w) cal p \<noteq> None" if "p \<in> mirrored cal w" for p
    using that by (auto simp: mirrored_def ListPersonalBlockers_def GetPersonalBlocker_def find_None_iff blocker_of_def)
  then show ?thesis using assms by (auto simp: missing_events_def filter_empty_conv works_def)
qed

lemma stale_none: "mirrored cal w \<subseteq> ge_id ` set events \<Longrightarrow> stale_blockers (wo_db w) cal events = []"
  by (auto simp: stale_blockers_def mirrored_def filter_empty_conv list_ex_iff image_subset_iff) (metis imageE)

text \<open>
  What holds of a sync whatever the work calendar answers: \<open>create_ids\<close> only says that an event
  that is created gets an id of its own. An invariant of the two runs is one of the sync.
\<close>

definition create_ids :: "blocker_env \<Rightarrow> (nat \<Rightarrow> string) \<Rightarrow> bool" where
  "create_ids env nm \<longleftrightarrow> inj nm \<and> (\<forall>n ev i. pe_create env n ev = Inr i \<longrightarrow> i = nm n)"

lemma works_create_ids: "works env nm \<Longrightarrow> create_ids env nm"
  by (simp add: works_def create_ids_def)

lemma syncOne_invariant:
  assumes "P w" "legit d" "legit c" "\<And>v x. P v \<Longrightarrow> P (v\<lparr>wo_settings := x\<rparr>)"
    and drops: "\<And>v ys events. P v \<Longrightarrow> mset ys \<subseteq># mset (stale_blockers (wo_db v) (kc_id pc) events) \<Longrightarrow>
      P (fold (drop_blocker env (kc_id pc)) ys v)"
    and makes: "\<And>v ys. P v \<Longrightarrow> P (fold (make_blocker env (kc_id pc)) ys v)"
  shows "P (fst (syncOne env pc d c w))"
proof (cases "ReadPersonalEvents (pe_readers env) pc (fst (sync_window env)) (snd (sync_window env))")
  case (Inl e)
  then show ?thesis using assms(1) by (simp add: syncOne_def)
next
  case (Inr events)
  obtain sdb so where st: "read_settings env (kc_user pc) (wo_settings w) = (sdb, so)" by fastforce
  obtain w' res where s: "syncOne env pc d c w = (w', res)" by fastforce
  let ?w = "w\<lparr>wo_settings := sdb\<rparr>"
  have w: "P ?w" using assms(4) [OF assms(1)] .
  have dropped: "P w1" if "run_calls (drop_blocker env (kc_id pc)) (stale_blockers (wo_db w) (kc_id pc) events) d ?w = (w1, k)" for w1 k
    using legit_calls [OF assms(2) that] drops [OF w, of _ events] by auto
  from syncOne_runs [OF Inr st s] have "P w'"
  proof cases
    case (4 w1 w2 cut2)
    then show ?thesis using legit_calls [OF assms(3) 4(2)] makes [OF dropped [OF 4(1)]] by auto
  qed (use assms(1) w dropped in auto)
  then show ?thesis by (simp add: s)
qed

lemma fresh_drop: "fresh_ids nm w \<Longrightarrow> fresh_ids nm (drop_blocker env cal b w)"
  by (auto simp: fresh_ids_def drop_blocker_def Let_def)

lemma fresh_make: "create_ids env nm \<Longrightarrow> fresh_ids nm w \<Longrightarrow> fresh_ids nm (make_blocker env cal e w)"
proof (cases "pe_create env (wo_creates w) (blocker_event e)")
  case (Inr i)
  assume a: "create_ids env nm" "fresh_ids nm w"
  have i: "i = nm (wo_creates w)" using a(1) Inr by (simp add: create_ids_def)
  have "nm n \<noteq> i \<and> nm n \<notin> fst ` set (wo_events w)" if "Suc (wo_creates w) \<le> n" for n
    using that a by (auto simp: i create_ids_def fresh_ids_def inj_eq)
  then show ?thesis using Inr by (auto simp: fresh_ids_def make_blocker_def Let_def)
qed (auto simp: fresh_ids_def make_blocker_def Let_def)

lemma events_without: "fst ` set (filter (\<lambda>(i, _). i \<noteq> k) evs) = fst ` set evs - {k}"
  by force

lemma fresh_settings [simp]: "fresh_ids nm (w\<lparr>wo_settings := x\<rparr>) \<longleftrightarrow> fresh_ids nm w"
  by (simp add: fresh_ids_def)

text \<open>Every record has an event of its own.\<close>

definition backed :: "(nat \<Rightarrow> string) \<Rightarrow> blocker_world \<Rightarrow> bool" where
  "backed nm w \<longleftrightarrow> blockers_ok (wo_db w) \<and> distinct (map wb_work (t_blockers (wo_db w))) \<and>
     wb_work ` set (t_blockers (wo_db w)) \<subseteq> fst ` set (wo_events w) \<and> distinct (map fst (wo_events w)) \<and> fresh_ids nm w"

lemma backed_linked: "backed nm w \<Longrightarrow> linked w \<Longrightarrow> sound_world nm w"
  by (simp add: backed_def sound_world_def)

lemma backed_drops:
  assumes "\<And>p. \<not> pe_row_fails env ''delete'' p" "backed nm w"
    and "\<And>b x. b \<in> set ys \<Longrightarrow> x \<in> set (t_blockers (wo_db w)) \<Longrightarrow> wb_work x = wb_work b \<Longrightarrow> blocker_of cal (wb_personal b) x"
  shows "backed nm (fold (drop_blocker env cal) ys w)"
  using assms(2,3)
proof (induction ys arbitrary: w)
  case (Cons b ys)
  let ?w = "drop_blocker env cal b w"
  have rows: "t_blockers (wo_db ?w) = filter (\<lambda>x. \<not> blocker_of cal (wb_personal b) x) (t_blockers (wo_db w))"
    using assms(1) by (simp add: drop_blocker_def Let_def DeletePersonalBlocker_def)
  have evs: "wo_events ?w = (if pe_deletes env (wb_work b) then filter (\<lambda>(i, _). i \<noteq> wb_work b) (wo_events w) else wo_events w)"
    by (simp add: drop_blocker_def Let_def)
  have keep: "wb_work x \<noteq> wb_work b" if "x \<in> set (t_blockers (wo_db ?w))" for x
    using that Cons.prems(2) [of b x] by (auto simp: rows)
  have "wb_work ` set (t_blockers (wo_db ?w)) \<subseteq> fst ` set (wo_events ?w)"
  proof -
    have "wb_work ` set (t_blockers (wo_db ?w)) \<subseteq> fst ` set (wo_events w) - {wb_work b}"
      using Cons.prems(1) keep by (auto simp: backed_def rows)
    then show ?thesis unfolding evs by (cases "pe_deletes env (wb_work b)") (simp_all only: events_without if_True if_False, blast)
  qed
  moreover have "distinct (map fst (wo_events ?w))" "distinct (map wb_work (t_blockers (wo_db ?w)))"
    using Cons.prems(1) by (simp_all add: backed_def evs rows distinct_map_filter)
  moreover have "blockers_ok (wo_db ?w)" using Cons.prems(1) by (simp add: backed_def blockers_ok_def rows distinct_map_filter)
  ultimately have "backed nm ?w" using fresh_drop [of nm w] Cons.prems(1) by (simp add: backed_def)
  then show ?case using Cons.IH [of ?w] Cons.prems(2) by (simp add: rows)
qed simp

lemma backed_make:
  assumes "create_ids env nm" "backed nm w"
  shows "backed nm (make_blocker env cal e w)"
proof -
  let ?w = "make_blocker env cal e w" and ?rows = "t_blockers (wo_db w)"
  have b: "blockers_ok (wo_db w)" "distinct (map wb_work ?rows)" "wb_work ` set ?rows \<subseteq> fst ` set (wo_events w)"
      "distinct (map fst (wo_events w))" "fresh_ids nm w"
    using assms(2) by (simp_all add: backed_def)
  have fresh: "fresh_ids nm ?w" by (rule fresh_make [OF assms(1) b(5)])
  show ?thesis
  proof (cases "pe_create env (wo_creates w) (blocker_event e)")
    case (Inl x)
    then have "wo_db ?w = wo_db w" "wo_events ?w = wo_events w" by (simp_all add: make_blocker_def Let_def)
    then show ?thesis using b fresh by (simp add: backed_def)
  next
    case (Inr i)
    have "i = nm (wo_creates w)" using Inr assms(1) by (simp add: create_ids_def)
    then have new: "i \<notin> fst ` set (wo_events w)" using b(5) by (simp add: fresh_ids_def)
    have evs: "wo_events ?w = wo_events w @ [(i, blocker_event e)]"
      using Inr by (simp add: make_blocker_def Let_def)
    have db: "wo_db ?w = wo_db w \<or> wo_db ?w = UpsertPersonalBlocker (ns (pe_now env)) cal (ge_id e) i (wo_db w)"
      using Inr by (simp add: make_blocker_def Let_def)
    have upsert: "distinct (map wb_work (t_blockers (UpsertPersonalBlocker now cal p i (wo_db w)))) \<and>
        wb_work ` set (t_blockers (UpsertPersonalBlocker now cal p i (wo_db w))) \<subseteq> insert i (fst ` set (wo_events w))" for now p
    proof (cases "list_ex (blocker_of cal p) ?rows")
      case True
      let ?f = "\<lambda>b. if blocker_of cal p b then b\<lparr>wb_work := i\<rparr> else b"
      have "inj_on (wb_work \<circ> ?f) (set ?rows)"
      proof (rule inj_onI)
        fix x y assume x: "x \<in> set ?rows" and y: "y \<in> set ?rows" and eq: "(wb_work \<circ> ?f) x = (wb_work \<circ> ?f) y"
        have old: "wb_work x \<noteq> i" "wb_work y \<noteq> i" using x y b(3) new by auto
        have key: "x = y" if "blocker_of cal p x" "blocker_of cal p y"
          using that b(1) x y by (auto simp: blockers_ok_def distinct_map inj_on_def blocker_of_def)
        have "x = y" if "wb_work x = wb_work y" using that b(2) x y by (auto simp: distinct_map inj_on_def)
        then show "x = y" using eq old key by (auto split: if_splits)
      qed
      moreover have "distinct ?rows" using b(2) by (simp add: distinct_map)
      ultimately have "distinct (map (wb_work \<circ> ?f) ?rows)" by (simp add: distinct_map)
      then show ?thesis using True b(3) by (auto simp: UpsertPersonalBlocker_def Let_def comp_def)
    next
      case False
      then show ?thesis using b(2,3) new by (auto simp: UpsertPersonalBlocker_def Let_def)
    qed
    have "distinct (map wb_work (t_blockers (wo_db ?w))) \<and> wb_work ` set (t_blockers (wo_db ?w)) \<subseteq> fst ` set (wo_events ?w)"
      using db
    proof
      assume "wo_db ?w = wo_db w"
      then show ?thesis using b(2,3) by (auto simp: evs)
    next
      assume up: "wo_db ?w = UpsertPersonalBlocker (ns (pe_now env)) cal (ge_id e) i (wo_db w)"
      have "insert i (fst ` set (wo_events w)) = fst ` set (wo_events ?w)" by (simp add: evs)
      then show ?thesis using upsert [of "ns (pe_now env)" "ge_id e"] unfolding up by metis
    qed
    moreover have "blockers_ok (wo_db ?w)" using db b(1) blockers_ok_Upsert by metis
    ultimately show ?thesis using b(4) new fresh by (simp add: backed_def evs)
  qed
qed

lemma backed_sync:
  assumes "create_ids env nm" "\<And>p. \<not> pe_row_fails env ''delete'' p" "backed nm w" "legit d" "legit c"
  shows "backed nm (fst (syncOne env pc d c w))"
proof (rule syncOne_invariant [where P = "backed nm", OF assms(3-5)])
  show "backed nm (v\<lparr>wo_settings := x\<rparr>)" if "backed nm v" for v x using that by (simp add: backed_def)
next
  fix v ys events assume v: "backed nm v" and ys: "mset ys \<subseteq># mset (stale_blockers (wo_db v) (kc_id pc) events)"
  have sub: "set ys \<subseteq> set (stale_blockers (wo_db v) (kc_id pc) events)" using ys by (metis set_mset_mono set_mset_mset)
  have "blocker_of (kc_id pc) (wb_personal b) x" if b: "b \<in> set ys" "x \<in> set (t_blockers (wo_db v))" "wb_work x = wb_work b" for b x
  proof -
    have "b \<in> set (t_blockers (wo_db v))" "wb_cal b = kc_id pc" using sub b(1) by (auto simp: stale_blockers_def ListPersonalBlockers_def)
    moreover from this(1) have "x = b" using v b(2,3) by (auto simp: backed_def distinct_map inj_on_def)
    ultimately show ?thesis by (simp add: blocker_of_def)
  qed
  then show "backed nm (fold (drop_blocker env (kc_id pc)) ys v)" by (rule backed_drops [OF assms(2) v])
next
  show "backed nm (fold (make_blocker env (kc_id pc)) ys v)" if "backed nm v" for v ys
    using that by (induction ys arbitrary: v) (simp_all add: backed_make [OF assms(1)])
qed

lemma sync_exact:
  assumes "works env nm" "sound_world nm w" "legit d" "legit c"
    and "ReadPersonalEvents (pe_readers env) pc (fst (sync_window env)) (snd (sync_window env)) = Inr events" "distinct (map ge_id events)"
    and "syncOne env pc d c w = (w', res)" "snd (read_settings env (kc_user pc) (wo_settings w)) = so"
  shows "sound_world nm w' \<and> (res = Inr () \<longrightarrow>
    mirrored (kc_id pc) w' = (mirrored (kc_id pc) w \<inter> ge_id ` set events) \<union>
      ge_id ` {e \<in> set events. personalEventDuringWorkHours (pe_zones env) e so} \<and>
    (\<forall>d' c'. legit d' \<longrightarrow> legit c' \<longrightarrow> fst (syncOne env pc d' c' w') = w'))"
proof -
  obtain sdb where st: "read_settings env (kc_user pc) (wo_settings w) = (sdb, so)" using assms(8) by (metis prod.collapse)
  let ?w = "w\<lparr>wo_settings := sdb\<rparr>" and ?cal = "kc_id pc"
  have w: "sound_world nm ?w" using assms(2) by simp
  have stale: "stale_blockers (wo_db w) ?cal events = stale_blockers (wo_db ?w) ?cal events" by simp
  from syncOne_runs [OF assms(5) st assms(7)] show ?thesis
  proof cases
    case 1
    then show ?thesis using assms(2) by auto
  next
    case 2
    then show ?thesis using w by auto
  next
    case (3 w1 cut1)
    then show ?thesis using drop_run(1) [OF assms(1) w assms(3) 3(1) [unfolded stale]] by auto
  next
    case (4 w1 w2 cut2)
    note dr = drop_run [OF assms(1) w assms(3) 4(1) [unfolded stale]]
    note mk = make_run [OF assms(1) dr(1) assms(6,4) 4(2)]
    have m1: "mirrored ?cal w1 = mirrored ?cal w \<inter> ge_id ` set events"
      using dr(2) by (auto simp: mirrored_def ListPersonalBlockers_def)
    have sets: "wo_settings w' = sdb"
      using run_settings [OF drop_settings 4(1)] run_settings [OF make_settings 4(2)] 4(3) by simp
    show ?thesis
    proof (intro conjI impI allI)
      show "sound_world nm w'" using mk(1) 4(3) by simp
      assume ok: "res = Inr ()"
      then have m2: "mirrored ?cal w' = mirrored ?cal w1 \<union> ge_id ` {e \<in> set events. personalEventDuringWorkHours (pe_zones env) e so}"
        using mk(2) 4(3,4) by simp
      then show "mirrored ?cal w' = (mirrored ?cal w \<inter> ge_id ` set events) \<union> ge_id ` {e \<in> set events. personalEventDuringWorkHours (pe_zones env) e so}"
        by (simp add: m1)
      fix d' c' assume lg: "legit d'" "legit c'"
      show "fst (syncOne env pc d' c' w') = w'"
      proof (rule settled_sync [OF assms(5) _ stale_none missing_none [OF assms(1)] lg])
        show "read_settings env (kc_user pc) (wo_settings w') = (wo_settings w', so)"
          using read_settings_again [OF st] by (simp add: sets)
      qed (auto simp: m2 m1)
    qed
  qed
qed

text \<open>
  C17. Whatever creations and deletions in the work calendar fail, and however the budget cuts a
  sync, it never leaves a record without an event of its own, as long as rows of records can be
  deleted. When every call that is made succeeds and the calendar's events have different ids, a
  sync, cut between calls or not, also leaves no blocker event without its record; one that ends
  leaves exactly the blockers it should, those it had whose events are still there and one for
  each event in working hours; and then syncing again, under any schedule, changes nothing.
\<close>

theorem sync_mirrors_the_calendar:
  assumes "create_ids env nm" "\<And>p. \<not> pe_row_fails env ''delete'' p" "backed nm w" "legit d" "legit c"
    and "ReadPersonalEvents (pe_readers env) pc (fst (sync_window env)) (snd (sync_window env)) = Inr events"
    and "syncOne env pc d c w = (w', res)" "snd (read_settings env (kc_user pc) (wo_settings w)) = so"
  shows "backed nm w' \<and> (works env nm \<and> linked w \<and> distinct (map ge_id events) \<longrightarrow> linked w' \<and> (res = Inr () \<longrightarrow>
    mirrored (kc_id pc) w' = (mirrored (kc_id pc) w \<inter> ge_id ` set events) \<union>
      ge_id ` {e \<in> set events. personalEventDuringWorkHours (pe_zones env) e so} \<and>
    (\<forall>d' c'. legit d' \<longrightarrow> legit c' \<longrightarrow> fst (syncOne env pc d' c' w') = w')))"
proof
  show "backed nm w'" using backed_sync [OF assms(1-5), of pc] assms(7) by simp
qed (use sync_exact [OF _ backed_linked [OF assms(3)] assms(4-6) _ assms(7,8)] in \<open>auto simp: sound_world_def\<close>)

subsection \<open>A run of the sync\<close>

definition in_order :: schedule where
  "in_order n = ([0..<n], False)"

lemma legit_in_order: "legit in_order"
  by (auto simp: legit_def legit_order_def in_order_def)

definition ex_number :: "nat \<Rightarrow> string" where
  "ex_number n = replicate n (CHR ''x'')"

definition ex_component :: "string \<Rightarrow> int \<Rightarrow> ics_component" where
  "ex_component uid h = \<lparr>ic_name = ''VEVENT'', ic_uid = Some uid, ic_summary = None,
     ic_start = Some (Inr (go_date 20458 h 0 0 0 UTC)), ic_end = Some (Inr (go_date 20458 (h + 1) 0 0 0 UTC))\<rparr>"

definition ex_blocker_env :: "ics_component list \<Rightarrow> blocker_env" where
  "ex_blocker_env feed = \<lparr>pe_readers = \<lparr>rd_feed = (\<lambda>_. Inr feed), rd_outlook = (\<lambda>_ _ _. Inr []), rd_google = (\<lambda>_ _ _. Inr [])\<rparr>,
     pe_zones = (\<lambda>_. None), pe_client = Inr (), pe_create = (\<lambda>n _. Inr (ex_number n)), pe_deletes = (\<lambda>_. True), pe_fails = [],
     pe_row_fails = (\<lambda>_ _. False), pe_settings_id = 1, pe_now = go_date 20458 6 0 0 0 UTC\<rparr>"

definition ex_personal :: PersonalCalendar where
  "ex_personal = \<lparr>kc_id = 1, kc_user = 7, kc_provider = ''webcal'', kc_name = ''Home'', kc_url = ''u'', kc_creds = '''',
     kc_enabled = True, kc_synced = None, kc_created = 0, kc_secret_err = None\<rparr>"

definition ex_blocker_world :: blocker_world where
  "ex_blocker_world = \<lparr>wo_db = \<lparr>t_calendars = [], t_blockers = [], seq_calendars = 1, seq_blockers = 0\<rparr>, wo_settings = [],
     wo_events = [], wo_creates = 0\<rparr>"

definition ex_feed_events :: "ics_component list \<Rightarrow> GenericEvent list" where
  "ex_feed_events feed = filter (\<lambda>e. After (ge_end e) (fst (sync_window (ex_blocker_env feed))) \<and>
     Before (ge_start e) (snd (sync_window (ex_blocker_env feed)))) (parseICS feed)"

lemma ex_reads:
  "ReadPersonalEvents (pe_readers (ex_blocker_env feed)) ex_personal (fst (sync_window (ex_blocker_env feed)))
     (snd (sync_window (ex_blocker_env feed))) = Inr (ex_feed_events feed)"
  by (simp add: ReadPersonalEvents_def ex_personal_def ListEvents_webcal_def ex_feed_events_def ex_blocker_env_def)

lemma ex_works: "works (ex_blocker_env feed) ex_number"
  by (auto simp: works_def ex_blocker_env_def ex_number_def inj_def)

lemma ex_sound: "sound_world ex_number ex_blocker_world"
  by (simp add: sound_world_def blockers_ok_def linked_def fresh_ids_def ex_blocker_world_def)

lemma ex_backed: "backed ex_number ex_blocker_world"
  by (simp add: backed_def blockers_ok_def fresh_ids_def ex_blocker_world_def)

lemma ex_rows: "\<not> pe_row_fails (ex_blocker_env feed) ''delete'' p"
  by (simp add: ex_blocker_env_def)

lemma uncut_run: "(\<And>n. \<not> snd (r n)) \<Longrightarrow> \<exists>w'. run_calls f xs r v = (w', False)"
  by (auto simp: run_calls_def split: prod.splits) (metis snd_conv)

lemma uncut_sync_ends:
  assumes "ReadPersonalEvents (pe_readers env) pc (fst (sync_window env)) (snd (sync_window env)) = Inr events"
    and "pe_client env = Inr ()" "''ListPersonalBlockers'' \<notin> set (pe_fails env)" "\<And>n. \<not> snd (d n)" "\<And>n. \<not> snd (c n)"
  shows "snd (syncOne env pc d c w) = Inr ()"
proof -
  obtain sdb so where st: "read_settings env (kc_user pc) (wo_settings w) = (sdb, so)" by fastforce
  obtain w1 where r1: "run_calls (drop_blocker env (kc_id pc)) (stale_blockers (wo_db w) (kc_id pc) events) d (w\<lparr>wo_settings := sdb\<rparr>) = (w1, False)"
    by (rule exE [OF uncut_run [OF assms(4)]])
  obtain w2 where r2: "run_calls (make_blocker env (kc_id pc)) (missing_events env so (wo_db w1) (kc_id pc) events) c w1 = (w2, False)"
    by (rule exE [OF uncut_run [OF assms(5)]])
  show ?thesis using assms(2,3) by (simp add: syncOne_def assms(1) st r1 r2)
qed

lemma ex_sync_ends: "snd (syncOne (ex_blocker_env feed) ex_personal in_order in_order ex_blocker_world) = Inr ()"
  by (rule uncut_sync_ends [OF ex_reads]) (simp_all add: ex_blocker_env_def in_order_def)

text \<open>An event at noon and one at eight in the evening: the first gets a blocker.\<close>

theorem sync_mirrors_the_calendar_witness:
  "mirrored 1 (fst (syncOne (ex_blocker_env [ex_component ''noon'' 12, ex_component ''evening'' 20]) ex_personal in_order in_order
     ex_blocker_world)) = {''noon''}"
proof -
  let ?feed = "[ex_component ''noon'' 12, ex_component ''evening'' 20]"
  let ?run = "syncOne (ex_blocker_env ?feed) ex_personal in_order in_order ex_blocker_world"
  let ?so = "snd (read_settings (ex_blocker_env ?feed) (kc_user ex_personal) (wo_settings ex_blocker_world))"
  have d: "distinct (map ge_id (ex_feed_events ?feed))" by code_simp
  have hours: "map ge_id (filter (\<lambda>e. personalEventDuringWorkHours (\<lambda>_. None) e ?so) (ex_feed_events ?feed)) = [''noon'']" by code_simp
  have run: "?run = (fst ?run, Inr ())" using ex_sync_ends [of ?feed] by (metis prod.collapse)
  have none: "mirrored 1 ex_blocker_world = {}" by (simp add: mirrored_def ListPersonalBlockers_def ex_blocker_world_def)
  have "mirrored (kc_id ex_personal) (fst ?run) = (mirrored (kc_id ex_personal) ex_blocker_world \<inter> ge_id ` set (ex_feed_events ?feed)) \<union>
      ge_id ` {e \<in> set (ex_feed_events ?feed). personalEventDuringWorkHours (pe_zones (ex_blocker_env ?feed)) e ?so}"
    using sync_mirrors_the_calendar [OF works_create_ids [OF ex_works] ex_rows ex_backed legit_in_order legit_in_order ex_reads run refl] ex_works ex_sound d
    by (auto simp: sound_world_def)
  moreover have "ge_id ` {e \<in> set (ex_feed_events ?feed). personalEventDuringWorkHours (pe_zones (ex_blocker_env ?feed)) e ?so} = {''noon''}"
    using arg_cong [OF hours, of set] by (simp add: ex_blocker_env_def)
  moreover have "kc_id ex_personal = 1" by (simp add: ex_personal_def)
  ultimately show ?thesis by (simp only: none Int_empty_left Un_empty_left)
qed

subsection \<open>Where the mirror fails\<close>

definition blocker_keys :: "personal_db \<Rightarrow> (nat \<times> string) set" where
  "blocker_keys db = (\<lambda>b. (wb_cal b, wb_personal b)) ` set (t_blockers db)"

lemma blocker_keys_set: "blocker_keys db = set (map (\<lambda>b. (wb_cal b, wb_personal b)) (t_blockers db))"
  by (simp add: blocker_keys_def)

lemma blocker_keys_Upsert: "blocker_keys (UpsertPersonalBlocker now cal p work db) = insert (cal, p) (blocker_keys db)"
proof (cases "list_ex (blocker_of cal p) (t_blockers db)")
  case True
  then have "(cal, p) \<in> blocker_keys db" by (auto simp: list_ex_iff blocker_of_def blocker_keys_def)
  moreover have "blocker_keys (UpsertPersonalBlocker now cal p work db) = blocker_keys db"
    using True by (simp add: blocker_keys_set UpsertPersonalBlocker_def Let_def same_keys del: map_map set_map)
  ultimately show ?thesis by auto
qed (simp add: blocker_keys_def UpsertPersonalBlocker_def Let_def)

lemma blocker_count: "blockers_ok db \<Longrightarrow> length (t_blockers db) = card (blocker_keys db)"
  unfolding blocker_keys_set blockers_ok_def by (simp only: distinct_card length_map)

lemma make_fold_counts:
  assumes "works env nm" "blockers_ok (wo_db w)" "distinct (map fst (wo_events w))" "fresh_ids nm w"
  shows "blockers_ok (wo_db (fold (make_blocker env cal) ys w)) \<and>
    blocker_keys (wo_db (fold (make_blocker env cal) ys w)) = blocker_keys (wo_db w) \<union> Pair cal ` ge_id ` set ys \<and>
    distinct (map fst (wo_events (fold (make_blocker env cal) ys w))) \<and>
    length (wo_events (fold (make_blocker env cal) ys w)) = length (wo_events w) + length ys"
  using assms(2-4)
proof (induction ys arbitrary: w)
  case (Cons e ys)
  let ?i = "nm (wo_creates w)" and ?w = "make_blocker env cal e w"
  have w: "?w = w\<lparr>wo_creates := Suc (wo_creates w), wo_events := wo_events w @ [(?i, blocker_event e)],
      wo_db := UpsertPersonalBlocker (ns (pe_now env)) cal (ge_id e) ?i (wo_db w)\<rparr>"
    using assms(1) by (simp add: make_blocker_def works_def Let_def)
  have "blockers_ok (wo_db ?w)" using Cons.prems(1) by (simp add: w blockers_ok_Upsert)
  moreover have "distinct (map fst (wo_events ?w))" using Cons.prems(2,3) by (simp add: w fresh_ids_def)
  moreover have "fresh_ids nm ?w" using Cons.prems(3) assms(1) by (auto simp: fresh_ids_def w works_def inj_eq)
  moreover have "blocker_keys (wo_db ?w) = insert (cal, ge_id e) (blocker_keys (wo_db w))" by (simp add: w blocker_keys_Upsert)
  ultimately show ?case using Cons.IH [of ?w] by (simp add: w)
qed simp

lemma unmirrored: "mirrored cal w = {} \<Longrightarrow> ListPersonalBlockers (wo_db w) cal = []"
  by (simp add: mirrored_def)

lemma missing_all:
  assumes "works env nm" "mirrored cal w = {}"
  shows "missing_events env so (wo_db w) cal events = filter (\<lambda>e. personalEventDuringWorkHours (pe_zones env) e so) events"
proof -
  have "GetPersonalBlocker (wo_db w) cal p = None" for p
    using unmirrored [OF assms(2)] by (auto simp: GetPersonalBlocker_def find_None_iff blocker_of_def ListPersonalBlockers_def filter_empty_conv)
  then show ?thesis by (simp add: missing_events_def)
qed

lemma card_repeated: "\<not> distinct xs \<Longrightarrow> card (set xs) < length xs"
  by (metis card_distinct card_length le_neq_implies_less)

text \<open>
  An orphan is a blocker event in the work calendar that no record names. A sync that may follow,
  of any calendar and under any schedule, is one whose new events get new ids; no such sync
  removes an orphan, whatever else succeeds or fails.
\<close>

definition orphan :: "string \<Rightarrow> blocker_world \<Rightarrow> bool" where
  "orphan i w \<longleftrightarrow> i \<in> fst ` set (wo_events w) \<and> i \<notin> wb_work ` set (t_blockers (wo_db w))"

definition later_sync :: "(nat \<Rightarrow> string) \<Rightarrow> blocker_world \<Rightarrow> blocker_world \<Rightarrow> bool" where
  "later_sync nm w w' \<longleftrightarrow> (\<exists>env pc d c. create_ids env nm \<and> legit d \<and> legit c \<and> w' = fst (syncOne env pc d c w))"

lemma orphan_drops:
  assumes "orphan i w" "\<And>b. b \<in> set ys \<Longrightarrow> wb_work b \<noteq> i"
  shows "orphan i (fold (drop_blocker env cal) ys w)"
  using assms
proof (induction ys arbitrary: w)
  case (Cons b ys)
  have "orphan i (drop_blocker env cal b w)"
    using Cons.prems(1) Cons.prems(2) [of b] by (force simp: orphan_def drop_blocker_def Let_def DeletePersonalBlocker_def)
  then show ?case using Cons.IH Cons.prems(2) by simp
qed simp

lemma orphan_make:
  assumes "create_ids env nm" "fresh_ids nm w" "orphan i w"
  shows "orphan i (make_blocker env cal e w)"
proof -
  have "nm (wo_creates w) \<noteq> i" using assms(2,3) by (auto simp: fresh_ids_def orphan_def)
  then show ?thesis
    using assms(1,3) by (auto simp: orphan_def make_blocker_def Let_def UpsertPersonalBlocker_def create_ids_def split: sum.splits if_splits)
qed

lemma orphan_sync:
  assumes "create_ids env nm" "legit d" "legit c" "orphan i w \<and> fresh_ids nm w"
  shows "orphan i (fst (syncOne env pc d c w)) \<and> fresh_ids nm (fst (syncOne env pc d c w))"
proof (rule syncOne_invariant [where P = "\<lambda>v. orphan i v \<and> fresh_ids nm v", OF assms(4,2,3)])
  show "orphan i (v\<lparr>wo_settings := x\<rparr>) \<and> fresh_ids nm (v\<lparr>wo_settings := x\<rparr>)" if "orphan i v \<and> fresh_ids nm v" for v x
    using that by (simp add: orphan_def)
next
  fix v ys events assume v: "orphan i v \<and> fresh_ids nm v" and ys: "mset ys \<subseteq># mset (stale_blockers (wo_db v) (kc_id pc) events)"
  have "set ys \<subseteq> set (t_blockers (wo_db v))"
    using ys by (metis (no_types, lifting) ListPersonalBlockers_def filter_is_subset order_trans set_mset_mono set_mset_mset stale_blockers_def)
  then have "wb_work b \<noteq> i" if "b \<in> set ys" for b using v that by (auto simp: orphan_def)
  moreover have "fresh_ids nm (fold (drop_blocker env (kc_id pc)) zs x)" if "fresh_ids nm x" for zs x
    using that by (induction zs arbitrary: x) (simp_all add: fresh_drop)
  ultimately show "orphan i (fold (drop_blocker env (kc_id pc)) ys v) \<and> fresh_ids nm (fold (drop_blocker env (kc_id pc)) ys v)"
    using orphan_drops v by simp
next
  show "orphan i (fold (make_blocker env (kc_id pc)) ys v) \<and> fresh_ids nm (fold (make_blocker env (kc_id pc)) ys v)"
    if "orphan i v \<and> fresh_ids nm v" for v ys
    using that by (induction ys arbitrary: v) (simp_all add: orphan_make [OF assms(1)] fresh_make [OF assms(1)])
qed

lemma orphan_stays:
  assumes "(later_sync nm)\<^sup>*\<^sup>* w w'" "orphan i w" "fresh_ids nm w"
  shows "orphan i w' \<and> fresh_ids nm w'"
  using assms(1)
proof (induction rule: rtranclp_induct)
  case (step v v')
  then show ?case using orphan_sync [of _ nm _ _ i v] by (auto simp: later_sync_def)
qed (use assms(2,3) in simp)

lemma repeated_id_orphan:
  assumes "works env nm" "sound_world nm w" "legit d" "legit c" "mirrored (kc_id pc) w = {}"
    and "ReadPersonalEvents (pe_readers env) pc (fst (sync_window env)) (snd (sync_window env)) = Inr events"
    and "snd (read_settings env (kc_user pc) (wo_settings w)) = so" "syncOne env pc d c w = (w', Inr ())"
    and "\<not> distinct (map ge_id (filter (\<lambda>e. personalEventDuringWorkHours (pe_zones env) e so) events))"
  shows "\<exists>i. orphan i w' \<and> fresh_ids nm w'"
proof -
  obtain sdb where st: "read_settings env (kc_user pc) (wo_settings w) = (sdb, so)" using assms(7) by (metis prod.collapse)
  let ?w = "w\<lparr>wo_settings := sdb\<rparr>" and ?cal = "kc_id pc"
  let ?ms = "filter (\<lambda>e. personalEventDuringWorkHours (pe_zones env) e so) events"
  have none: "stale_blockers (wo_db w) ?cal events = []" by (simp add: stale_blockers_def unmirrored [OF assms(5)])
  have m: "mirrored ?cal ?w = {}" using assms(5) by (simp add: mirrored_def)
  from syncOne_runs [OF assms(6) st assms(8)] obtain w1 where
    r1: "run_calls (drop_blocker env ?cal) [] d ?w = (w1, False)"
    and r2: "run_calls (make_blocker env ?cal) (missing_events env so (wo_db w1) ?cal events) c w1 = (w', False)"
    by cases (auto simp: none)
  from r1 have "w1 = ?w" by (rule run_nothing [OF assms(3)])
  with r2 have "run_calls (make_blocker env ?cal) ?ms c ?w = (w', False)" using missing_all [OF assms(1) m] by simp
  then obtain ys where ys: "mset ys = mset ?ms" "w' = fold (make_blocker env ?cal) ys ?w" using legit_calls [OF assms(4)] by metis
  have ok: "blockers_ok (wo_db ?w)" "linked ?w" "fresh_ids nm ?w"
    using assms(2) by (simp_all add: sound_world_def linked_def fresh_ids_def)
  have dist: "distinct (map fst (wo_events ?w))" using ok(2) by (simp add: linked_def)
  note counts = make_fold_counts [OF assms(1) ok(1) dist ok(3), of ?cal ys, folded ys(2)]
  have "mset (map ge_id ys) = mset (map ge_id ?ms)" by (simp only: mset_map ys(1))
  then have "set (map ge_id ys) = set (map ge_id ?ms)" "length (map ge_id ys) = length (map ge_id ?ms)"
    by (rule mset_eq_setD, rule mset_eq_length)
  then have "card (ge_id ` set ys) < length ys" using card_repeated [OF assms(9)] by simp
  moreover have "card (blocker_keys (wo_db w')) \<le> card (blocker_keys (wo_db ?w)) + card (ge_id ` set ys)"
    using counts card_Un_le [of "blocker_keys (wo_db ?w)" "Pair ?cal ` ge_id ` set ys"]
    by (simp add: card_image inj_on_def)
  moreover have "length (t_blockers (wo_db ?w)) = length (wo_events ?w)"
    using ok(2) unfolding linked_def by (metis length_map size_mset)
  ultimately have less: "length (t_blockers (wo_db w')) < length (wo_events w')"
    using counts blocker_count [OF ok(1)] blocker_count [of "wo_db w'"] by linarith
  have "\<exists>i. orphan i w'"
  proof (rule ccontr)
    assume "\<not> ?thesis"
    then have "fst ` set (wo_events w') \<subseteq> wb_work ` set (t_blockers (wo_db w'))" by (auto simp: orphan_def)
    then have "card (fst ` set (wo_events w')) \<le> card (wb_work ` set (t_blockers (wo_db w')))" by (simp add: card_mono)
    also have "\<dots> \<le> length (t_blockers (wo_db w'))" by (metis card_length length_map set_map)
    finally show False using less counts distinct_card [of "map fst (wo_events w')"] by simp
  qed
  moreover have "fresh_ids nm w'"
    unfolding ys(2) using ok(3)
    by (rule fold_invariant [where Q = "\<lambda>_. True" and P = "fresh_ids nm", rotated]) (simp_all add: fresh_make [OF works_create_ids [OF assms(1)]])
  ultimately show ?thesis by blast
qed

text \<open>
  C39. The first sync of a calendar in which two events in working hours carry the same id, as
  the changed occurrence of a repeating event does in a feed, creates an event for each and
  records one: a blocker is left in the work calendar that no record names, and no sequence of
  later syncs, of this or other calendars, ever removes or records it.
\<close>

theorem repeated_id_orphans_a_blocker:
  assumes "works env nm" "sound_world nm w" "legit d" "legit c" "mirrored (kc_id pc) w = {}"
    and "ReadPersonalEvents (pe_readers env) pc (fst (sync_window env)) (snd (sync_window env)) = Inr events"
    and "snd (read_settings env (kc_user pc) (wo_settings w)) = so" "syncOne env pc d c w = (w', Inr ())"
    and "\<not> distinct (map ge_id (filter (\<lambda>e. personalEventDuringWorkHours (pe_zones env) e so) events))"
  shows "\<exists>i. \<forall>w''. (later_sync nm)\<^sup>*\<^sup>* w' w'' \<longrightarrow> orphan i w''"
  using repeated_id_orphan [OF assms] orphan_stays by blast

text \<open>
  A stale blocker whose event the work calendar does not delete, because the call fails or the
  budget cuts it, loses its record all the same: a delete that is cut leaves an orphan.
\<close>

theorem failed_delete_orphans_a_blocker:
  assumes "backed nm w" "b \<in> set (t_blockers (wo_db w))" "wb_cal b = cal"
    and "\<not> pe_deletes env (wb_work b)" "\<not> pe_row_fails env ''delete'' (wb_personal b)"
    and "(later_sync nm)\<^sup>*\<^sup>* (drop_blocker env cal b w) w''"
  shows "orphan (wb_work b) w''"
proof -
  have row: "x = b" if "x \<in> set (t_blockers (wo_db w))" "wb_work x = wb_work b" for x
    using that assms(1,2) by (auto simp: backed_def distinct_map inj_on_def)
  have "orphan (wb_work b) (drop_blocker env cal b w)"
  proof -
    have "wb_work b \<in> fst ` set (wo_events w)" using assms(1,2) by (auto simp: backed_def)
    moreover have "wo_events (drop_blocker env cal b w) = wo_events w"
      and "t_blockers (wo_db (drop_blocker env cal b w)) = filter (\<lambda>x. \<not> blocker_of cal (wb_personal b) x) (t_blockers (wo_db w))"
      using assms(4,5) by (simp_all add: drop_blocker_def Let_def DeletePersonalBlocker_def)
    moreover have "blocker_of cal (wb_personal b) b" using assms(3) by (simp add: blocker_of_def)
    ultimately show ?thesis using row unfolding orphan_def by fastforce
  qed
  moreover have "fresh_ids nm (drop_blocker env cal b w)" using assms(1) by (intro fresh_drop) (simp add: backed_def)
  ultimately show ?thesis using orphan_stays [OF assms(6)] by blast
qed

text \<open>A feed with a changed occurrence: the same id at ten and at eleven.\<close>

theorem repeated_id_orphans_a_blocker_witness:
  "\<exists>i. \<forall>w''. (later_sync ex_number)\<^sup>*\<^sup>* (fst (syncOne (ex_blocker_env [ex_component ''weekly'' 10, ex_component ''weekly'' 11])
     ex_personal in_order in_order ex_blocker_world)) w'' \<longrightarrow> orphan i w''"
proof -
  let ?feed = "[ex_component ''weekly'' 10, ex_component ''weekly'' 11]"
  let ?run = "syncOne (ex_blocker_env ?feed) ex_personal in_order in_order ex_blocker_world"
  have run: "?run = (fst ?run, Inr ())" using ex_sync_ends [of ?feed] by (metis prod.collapse)
  have none: "mirrored (kc_id ex_personal) ex_blocker_world = {}"
    by (simp add: mirrored_def ListPersonalBlockers_def ex_blocker_world_def)
  have "\<not> distinct (map ge_id (filter (\<lambda>e. personalEventDuringWorkHours (pe_zones (ex_blocker_env ?feed)) e
      (snd (read_settings (ex_blocker_env ?feed) (kc_user ex_personal) (wo_settings ex_blocker_world)))) (ex_feed_events ?feed)))"
    by code_simp
  from repeated_id_orphans_a_blocker [OF ex_works ex_sound legit_in_order legit_in_order none ex_reads refl run this]
  show ?thesis .
qed

definition clock_minutes :: "string \<Rightarrow> int" where
  "clock_minutes hhmm = (case scan_hhmm hhmm of (h, m) \<Rightarrow> h * 60 + m)"

lemma parseHHMM_Fixed:
  "ns (parseHHMM hhmm day (FixedZone nm off)) = (date_of day * day_sec + clock_minutes hhmm * 60 - off) * sec_ns"
  by (auto simp: parseHHMM_def go_date_def wall_sec_def clock_minutes_def algebra_simps split: prod.splits)

text \<open>
  The hours an event is compared with are those of the date it is
  written with. In a zone with a fixed offset, an event that lies in the working hours of its day there,
  but is written in a zone where that day has another date, as Outlook's times in UTC are, gets no blocker.
\<close>

theorem other_date_hides_working_hours:
  assumes "location_or_utc tzdb (se_timezone s) = FixedZone nm off"
    and "WorkWindow s (In (ge_start e) (FixedZone nm off)) = (a, b, True)" "clock_minutes b \<le> clock_minutes a + 1440"
    and "\<not> Before (ge_start e) (parseHHMM a (In (ge_start e) (FixedZone nm off)) (FixedZone nm off))"
    and "\<not> After (ge_end e) (parseHHMM b (In (ge_start e) (FixedZone nm off)) (FixedZone nm off))"
    and "date_of (ge_start e) \<noteq> date_of (In (ge_start e) (FixedZone nm off))"
  shows "\<not> personalEventDuringWorkHours tzdb e (Some s)"
proof -
  let ?d = "date_of (In (ge_start e) (FixedZone nm off))" and ?d' = "date_of (ge_start e)"
  let ?A = "clock_minutes a * 60 - off" and ?B = "clock_minutes b * 60 - off"
  have inside: "(?d * day_sec + ?A) * sec_ns \<le> ns (ge_start e)" "ns (ge_end e) \<le> (?d * day_sec + ?B) * sec_ns"
    using assms(4,5) by (auto simp: Before_def After_def parseHHMM_Fixed algebra_simps)
  have span: "?B \<le> ?A + day_sec" using assms(3) by simp
  have "\<not> (ns (ge_start e) < (?d' * day_sec + ?B) * sec_ns \<and> (?d' * day_sec + ?A) * sec_ns < ns (ge_end e))"
  proof (cases "?d' < ?d")
    case True
    then have "(?d' * day_sec + ?B) * sec_ns \<le> (?d * day_sec + ?A) * sec_ns" using span by (intro mult_right_mono) linarith+
    then show ?thesis using inside(1) by linarith
  next
    case False
    then have "(?d * day_sec + ?B) * sec_ns \<le> (?d' * day_sec + ?A) * sec_ns" using span assms(6) by (intro mult_right_mono) linarith+
    then show ?thesis using inside(2) by linarith
  qed
  then show ?thesis
    using assms(1,2) by (auto simp: personalEventDuringWorkHours_def Before_def After_def parseHHMM_Fixed algebra_simps)
qed

text \<open>
  Eight hours behind UTC, from half past four in the afternoon: half past midnight of the next day in UTC.
\<close>

definition ex_afternoon :: GenericEvent where
  "ex_afternoon = \<lparr>ge_id = ''dentist'', ge_title = '''', ge_start = go_date 20459 0 30 0 0 UTC, ge_end = go_date 20459 1 0 0 0 UTC\<rparr>"

theorem other_date_hides_working_hours_witness:
  "\<not> personalEventDuringWorkHours (\<lambda>_. Some (FixedZone ''P'' (-28800))) ex_afternoon (Some (default_settings\<lparr>se_timezone := ''P''\<rparr>)) \<and>
     Hour (In (ge_start ex_afternoon) (FixedZone ''P'' (-28800))) = 16"
proof
  let ?s = "default_settings\<lparr>se_timezone := ''P''\<rparr>" and ?z = "FixedZone ''P'' (-28800)"
  have "location_or_utc (\<lambda>_. Some ?z) (se_timezone ?s) = ?z" by (simp add: location_or_utc_def LoadLocation_def)
  moreover have "WorkWindow ?s (In (ge_start ex_afternoon) ?z) = (''09:00'', ''18:00'', True)" by code_simp
  moreover have "clock_minutes ''18:00'' \<le> clock_minutes ''09:00'' + 1440" by code_simp
  moreover have "\<not> Before (ge_start ex_afternoon) (parseHHMM ''09:00'' (In (ge_start ex_afternoon) ?z) ?z)" by code_simp
  moreover have "\<not> After (ge_end ex_afternoon) (parseHHMM ''18:00'' (In (ge_start ex_afternoon) ?z) ?z)" by code_simp
  moreover have "date_of (ge_start ex_afternoon) \<noteq> date_of (In (ge_start ex_afternoon) ?z)" by code_simp
  ultimately show "\<not> personalEventDuringWorkHours (\<lambda>_. Some ?z) ex_afternoon (Some ?s)" by (rule other_date_hides_working_hours)
  show "Hour (In (ge_start ex_afternoon) ?z) = 16" by code_simp
qed

end
