(* ===== verification/PersonalHandlers.thy ===== *)
theory PersonalHandlers
  imports PersonalCalendars BookingRule
begin

section \<open>PersonalHandlers: the routes of personal calendars\<close>

text \<open>
  \<^verbatim>\<open>backend/api/handlers_personal.go\<close>: listing, adding, changing and deleting a personal calendar,
  the preview of its events and its sync, with the engine's \<open>Preview\<close> and \<open>Sync\<close>; also
  \<^verbatim>\<open>writeCalendarFailure\<close>. The state is the engine's world; \<open>pq_id\<close> is the id of the path (\<open>None\<close>: not a
  number), and a body that does not decode is \<open>None\<close>.
\<close>

record personalCalendarDTO =
  dt_id :: nat
  dt_label :: string
  dt_type :: string
  dt_url :: string
  dt_enabled :: bool
  dt_last_synced :: "string option"

datatype personal_body =
    NoPersonalBody
  | PersonalError string
  | OneCalendar personalCalendarDTO
  | ManyCalendars "personalCalendarDTO list"
  | PreviewEvents "GenericEvent list"

datatype personal_answer = PersonalAnswer (pa_status: int) (pa_body: personal_body)

record personal_request =
  pq_user :: uuid
  pq_id :: "nat option"
  pq_box :: secret_box
  pq_env :: blocker_env
  pq_fails :: "string list"
  pq_deletes :: schedule
  pq_creates :: schedule

record calendar_input =
  ci_provider :: string
  ci_name :: string
  ci_url :: string
  ci_enabled :: bool

record calendar_patch =
  kp_name :: "string option"
  kp_url :: "string option"
  kp_enabled :: "bool option"

definition bad :: "string \<Rightarrow> int \<Rightarrow> personal_answer" where
  "bad msg code = PersonalAnswer code (PersonalError msg)"

definition server_error :: personal_answer where
  "server_error = bad (genericServerMessage 500) 500"

definition writeCalendarFailure :: "gerr \<Rightarrow> personal_answer" where
  "writeCalendarFailure e = (if e = ErrCalendarNotConnected then bad ''calendar not connected'' 401 else server_error)"

definition failing :: "personal_request \<Rightarrow> string \<Rightarrow> bool" where
  "failing rq stmt \<longleftrightarrow> stmt \<in> set (pq_fails rq)"

definition toPersonalCalendarDTO :: "PersonalCalendar \<Rightarrow> personalCalendarDTO" where
  "toPersonalCalendarDTO c = \<lparr>dt_id = kc_id c, dt_label = kc_name c, dt_type = kc_provider c, dt_url = kc_url c,
     dt_enabled = kc_enabled c, dt_last_synced = map_option (\<lambda>t. format_rfc3339 \<lparr>ns = t, tloc = UTC\<rparr>) (kc_synced c)\<rparr>"

definition personal_list :: "personal_request \<Rightarrow> blocker_world \<Rightarrow> personal_answer" where
  "personal_list rq w =
     (if failing rq ''list'' then server_error
      else case ListPersonalCalendarsByUser (pq_box rq) (wo_db w) (pq_user rq) of
          Inl _ \<Rightarrow> server_error
        | Inr cals \<Rightarrow> PersonalAnswer 200 (ManyCalendars (map toPersonalCalendarDTO cals)))"

definition input_calendar :: "personal_request \<Rightarrow> calendar_input \<Rightarrow> PersonalCalendar" where
  "input_calendar rq b = \<lparr>kc_id = 0, kc_user = pq_user rq, kc_provider = ci_provider b,
     kc_name = (if ci_name b = '''' then ''Personal'' else ci_name b), kc_url = ci_url b, kc_creds = '''',
     kc_enabled = ci_enabled b, kc_synced = None, kc_created = 0, kc_secret_err = None\<rparr>"

definition personal_create :: "personal_request \<Rightarrow> calendar_input option \<Rightarrow> blocker_world \<Rightarrow> blocker_world \<times> personal_answer" where
  "personal_create rq body w = (case body of
      None \<Rightarrow> (w, bad ''invalid body'' 400)
    | Some b \<Rightarrow>
        if ci_provider b = '''' then (w, bad ''provider required'' 400)
        else if failing rq ''create'' then (w, server_error)
        else (case InsertPersonalCalendar (pq_box rq) (ns (pe_now (pq_env rq))) (input_calendar rq b) (wo_db w) of
            (db, Inl _) \<Rightarrow> (w\<lparr>wo_db := db\<rparr>, server_error)
          | (db, Inr i) \<Rightarrow>
              (w\<lparr>wo_db := db\<rparr>, PersonalAnswer 201 (OneCalendar (toPersonalCalendarDTO ((input_calendar rq b)\<lparr>kc_id := i\<rparr>))))))"

definition personal_patch :: "personal_request \<Rightarrow> calendar_patch option \<Rightarrow> blocker_world \<Rightarrow> blocker_world \<times> personal_answer" where
  "personal_patch rq body w = (case pq_id rq of
      None \<Rightarrow> (w, bad ''invalid id'' 400)
    | Some i \<Rightarrow> (case body of
          None \<Rightarrow> (w, bad ''invalid body'' 400)
        | Some b \<Rightarrow>
            if failing rq ''patch'' then (w, server_error)
            else (case UpdatePersonalCalendar (pq_box rq) i (pq_user rq) (kp_name b) (kp_url b) (kp_enabled b) (wo_db w) of
                (db, Inl _) \<Rightarrow> (w\<lparr>wo_db := db\<rparr>, server_error)
              | (db, Inr None) \<Rightarrow> (w\<lparr>wo_db := db\<rparr>, bad ''personal calendar not found'' 404)
              | (db, Inr (Some c)) \<Rightarrow> (w\<lparr>wo_db := db\<rparr>, PersonalAnswer 200 (OneCalendar (toPersonalCalendarDTO c))))))"

definition personal_delete :: "personal_request \<Rightarrow> blocker_world \<Rightarrow> blocker_world \<times> personal_answer" where
  "personal_delete rq w = (case pq_id rq of
      None \<Rightarrow> (w, bad ''invalid id'' 400)
    | Some i \<Rightarrow>
        if failing rq ''delete'' then (w, server_error)
        else (case DeletePersonalCalendarForUser i (pq_user rq) (wo_db w) of
            (db, deleted) \<Rightarrow> (w\<lparr>wo_db := db\<rparr>, if deleted then PersonalAnswer 204 NoPersonalBody else bad ''personal calendar not found'' 404)))"

definition ownedCalendar :: "personal_request \<Rightarrow> nat \<Rightarrow> personal_db \<Rightarrow> PersonalCalendar option" where
  "ownedCalendar rq i db =
     (if failing rq ''owned'' then None
      else case GetPersonalCalendar (pq_box rq) db i of
          Inl _ \<Rightarrow> None | Inr c \<Rightarrow> if kc_user c \<noteq> pq_user rq then None else Some c)"

definition personal_preview :: "personal_request \<Rightarrow> blocker_world \<Rightarrow> personal_answer" where
  "personal_preview rq w = (case pq_id rq of
      None \<Rightarrow> bad ''invalid id'' 400
    | Some i \<Rightarrow> (case ownedCalendar rq i (wo_db w) of
          None \<Rightarrow> bad ''personal calendar not found'' 404
        | Some _ \<Rightarrow>
            let st = Truncate (pe_now (pq_env rq)) day_ns
            in (case Preview (pq_box rq) (pq_env rq) (wo_db w) i st (AddDays st 14) of
                Inl _ \<Rightarrow> server_error | Inr events \<Rightarrow> PersonalAnswer 200 (PreviewEvents events))))"

definition personal_sync :: "personal_request \<Rightarrow> blocker_world \<Rightarrow> blocker_world \<times> personal_answer" where
  "personal_sync rq w = (case pq_id rq of
      None \<Rightarrow> (w, bad ''invalid id'' 400)
    | Some i \<Rightarrow> (case ownedCalendar rq i (wo_db w) of
          None \<Rightarrow> (w, bad ''personal calendar not found'' 404)
        | Some _ \<Rightarrow> (case Sync (pq_box rq) (pq_env rq) i (pq_deletes rq) (pq_creates rq) w of
              (w, Inl e) \<Rightarrow> (w, if e = ErrExpired then bad ''request timed out'' 503 else writeCalendarFailure e)
            | (w, Inr _) \<Rightarrow>
                if failing rq ''mark synced'' then (w, server_error)
                else let w = w\<lparr>wo_db := MarkPersonalCalendarSynced i (pq_user rq) (ns (pe_now (pq_env rq))) (wo_db w)\<rparr>
                     in (case GetPersonalCalendar (pq_box rq) (wo_db w) i of
                          Inl _ \<Rightarrow> (w, bad ''personal calendar not found'' 404)
                        | Inr c \<Rightarrow>
                            if failing rq ''reread'' \<or> kc_user c \<noteq> pq_user rq then (w, bad ''personal calendar not found'' 404)
                            else (w, PersonalAnswer 200 (OneCalendar (toPersonalCalendarDTO c)))))))"

subsection \<open>What a request can change\<close>

text \<open>What a user sees of another user's calendars: their rows, and the blockers they own.\<close>

definition others_rows :: "uuid \<Rightarrow> personal_db \<Rightarrow> calendar_row list" where
  "others_rows u db = filter (\<lambda>r. kr_user r \<noteq> Some u) (t_calendars db)"

lemma others_Insert: "others_rows (kc_user c) (fst (InsertPersonalCalendar box now c db)) = others_rows (kc_user c) db"
  by (simp add: others_rows_def InsertPersonalCalendar_def Let_def split: sum.splits prod.splits)

lemma filter_map_keep:
  assumes "\<And>x. P x \<Longrightarrow> f x = x" "\<And>x. P (f x) = P x"
  shows "filter P (map f xs) = filter P xs"
  using assms by (induction xs) auto

lemma others_Update: "others_rows u (fst (UpdatePersonalCalendar box i u nm url en db)) = others_rows u db"
  unfolding others_rows_def UpdatePersonalCalendar_def
  by (auto simp: Let_def owned_row_def intro!: filter_map_keep split: sum.splits if_splits)

lemma others_Delete: "others_rows u (fst (DeletePersonalCalendarForUser i u db)) = others_rows u db"
  by (auto simp: others_rows_def DeletePersonalCalendarForUser_def delete_rows_def owned_row_def intro!: filter_cong)

lemma others_Mark: "others_rows u (MarkPersonalCalendarSynced i u now db) = others_rows u db"
  unfolding others_rows_def MarkPersonalCalendarSynced_def
  by (auto simp: owned_row_def intro!: filter_map_keep split: if_splits)

definition others_blockers :: "uuid \<Rightarrow> personal_db \<Rightarrow> PersonalBlocker list" where
  "others_blockers u db = filter (\<lambda>b. list_ex (\<lambda>r. kr_id r = wb_cal b) (others_rows u db)) (t_blockers db)"

definition ids_ok :: "personal_db \<Rightarrow> bool" where
  "ids_ok db \<longleftrightarrow> distinct (map kr_id (t_calendars db)) \<and> (\<forall>r \<in> set (t_calendars db). kr_id r \<le> seq_calendars db)"

text \<open>A sync leaves the calendars alone and changes the blockers of its own calendar only.\<close>

definition same_elsewhere :: "nat \<Rightarrow> blocker_world \<Rightarrow> blocker_world \<Rightarrow> bool" where
  "same_elsewhere cal w w' \<longleftrightarrow> t_calendars (wo_db w') = t_calendars (wo_db w) \<and> seq_calendars (wo_db w') = seq_calendars (wo_db w) \<and>
     filter (\<lambda>b. wb_cal b \<noteq> cal) (t_blockers (wo_db w')) = filter (\<lambda>b. wb_cal b \<noteq> cal) (t_blockers (wo_db w))"

lemma same_refl: "same_elsewhere cal w w" and same_settings: "same_elsewhere cal w (w\<lparr>wo_settings := x\<rparr>)"
  by (simp_all add: same_elsewhere_def)

lemma same_trans: "same_elsewhere cal w w1 \<Longrightarrow> same_elsewhere cal w1 w2 \<Longrightarrow> same_elsewhere cal w w2"
  by (simp add: same_elsewhere_def)

lemma same_drop: "wb_cal b = cal \<Longrightarrow> same_elsewhere cal w (drop_blocker env cal b w)"
  by (auto simp: same_elsewhere_def drop_blocker_def Let_def DeletePersonalBlocker_def blocker_of_def intro!: filter_cong)

lemma same_make: "same_elsewhere cal w (make_blocker env cal e w)"
  by (auto simp: same_elsewhere_def make_blocker_def Let_def UpsertPersonalBlocker_def blocker_of_def intro!: filter_map_keep split: sum.splits if_splits)

lemma same_fold:
  assumes "\<And>x v. x \<in> set xs \<Longrightarrow> same_elsewhere cal v (f x v)"
  shows "same_elsewhere cal w (fold f xs w)"
  using assms by (induction xs arbitrary: w) (auto intro: same_refl same_trans)

lemma same_run:
  assumes "legit r" "\<And>x v. x \<in> set xs \<Longrightarrow> same_elsewhere cal v (f x v)" "run_calls f xs r w = (w', b)"
  shows "same_elsewhere cal w w'"
proof -
  obtain ys where ys: "mset ys \<subseteq># mset xs" "w' = fold f ys w" using legit_calls [OF assms(1,3)] by blast
  then have "set ys \<subseteq> set xs" by (metis set_mset_mono set_mset_mset)
  then show ?thesis unfolding ys(2) using assms(2) by (intro same_fold) auto
qed

lemma same_sync:
  assumes "legit d" "legit c" "syncOne env pc d c w = (w', res)"
  shows "same_elsewhere (kc_id pc) w w'"
proof (cases "ReadPersonalEvents (pe_readers env) pc (fst (sync_window env)) (snd (sync_window env))")
  case (Inl e)
  then show ?thesis using assms(3) by (simp add: syncOne_def same_refl)
next
  case (Inr events)
  obtain sdb so where st: "read_settings env (kc_user pc) (wo_settings w) = (sdb, so)" by fastforce
  have own: "wb_cal b = kc_id pc" if "b \<in> set (stale_blockers (wo_db w) (kc_id pc) events)" for b
    using that by (simp add: stale_blockers_def ListPersonalBlockers_def)
  have drop: "same_elsewhere (kc_id pc) w w1"
    if "run_calls (drop_blocker env (kc_id pc)) (stale_blockers (wo_db w) (kc_id pc) events) d (w\<lparr>wo_settings := sdb\<rparr>) = (w1, cut)" for w1 cut
    by (rule same_trans [OF same_settings same_run [OF assms(1) same_drop that]]) (rule own)
  from syncOne_runs [OF Inr st assms(3)] show ?thesis
    by cases (auto intro: same_refl same_settings drop same_trans [OF drop same_run [OF assms(2) same_make]])
qed

lemma others_blockers_same:
  assumes "ids_ok (wo_db w)" "same_elsewhere i w w'" "r \<in> set (t_calendars (wo_db w))" "kr_id r = i" "kr_user r = Some u"
  shows "others_blockers u (wo_db w') = others_blockers u (wo_db w) \<and> others_rows u (wo_db w') = others_rows u (wo_db w)"
proof -
  have rows: "others_rows u (wo_db w') = others_rows u (wo_db w)" using assms(2) by (simp add: same_elsewhere_def others_rows_def)
  have foreign: "wb_cal b \<noteq> i" if "list_ex (\<lambda>q. kr_id q = wb_cal b) (others_rows u (wo_db w))" for b
    using that assms(1,3-5) by (auto simp: list_ex_iff others_rows_def ids_ok_def distinct_map inj_on_def)
  then have own: "others_blockers u v = filter (\<lambda>b. list_ex (\<lambda>q. kr_id q = wb_cal b) (others_rows u (wo_db w))) (filter (\<lambda>b. wb_cal b \<noteq> i) (t_blockers v))"
    if "others_rows u v = others_rows u (wo_db w)" for v
    using that by (auto simp: others_blockers_def intro!: filter_cong)
  have "filter (\<lambda>b. wb_cal b \<noteq> i) (t_blockers (wo_db w')) = filter (\<lambda>b. wb_cal b \<noteq> i) (t_blockers (wo_db w))"
    using assms(2) by (simp add: same_elsewhere_def)
  then have "others_blockers u (wo_db w') = others_blockers u (wo_db w)" by (simp only: own [OF rows] own [OF refl])
  with rows show ?thesis by simp
qed

subsection \<open>Steps of a user\<close>

inductive personal_step :: "uuid \<Rightarrow> blocker_world \<Rightarrow> blocker_world \<Rightarrow> bool" for u where
  create: "pq_user rq = u \<Longrightarrow> personal_create rq body w = (w', a) \<Longrightarrow> personal_step u w w'"
| patch: "pq_user rq = u \<Longrightarrow> personal_patch rq change w = (w', a) \<Longrightarrow> personal_step u w w'"
| delete: "pq_user rq = u \<Longrightarrow> personal_delete rq w = (w', a) \<Longrightarrow> personal_step u w w'"
| sync: "pq_user rq = u \<Longrightarrow> legit (pq_deletes rq) \<Longrightarrow> legit (pq_creates rq) \<Longrightarrow> personal_sync rq w = (w', a) \<Longrightarrow> personal_step u w w'"

definition step_safe :: "uuid \<Rightarrow> personal_db \<Rightarrow> personal_db \<Rightarrow> bool" where
  "step_safe u db db' \<longleftrightarrow> ids_ok db' \<and> others_rows u db' = others_rows u db \<and> others_blockers u db' = others_blockers u db"

lemma step_safe_refl: "ids_ok db \<Longrightarrow> step_safe u db db"
  by (simp add: step_safe_def)

lemma safe_Insert: "ids_ok db \<Longrightarrow> kc_user c = u \<Longrightarrow> step_safe u db (fst (InsertPersonalCalendar box now c db))"
  using others_Insert [of c box now db]
  by (auto simp: step_safe_def others_blockers_def)
    (auto simp: InsertPersonalCalendar_def Let_def ids_ok_def split: sum.splits prod.splits)

lemma safe_Update: "ids_ok db \<Longrightarrow> step_safe u db (fst (UpdatePersonalCalendar box i u nm url en db))"
  using others_Update [of u box i nm url en db]
  by (auto simp: step_safe_def others_blockers_def)
    (auto simp: UpdatePersonalCalendar_def Let_def ids_ok_def o_def if_distrib cong: if_cong split: sum.splits)

lemma safe_Delete: "ids_ok db \<Longrightarrow> step_safe u db (fst (DeletePersonalCalendarForUser i u db))"
proof -
  assume ok: "ids_ok db"
  have "others_blockers u (fst (DeletePersonalCalendarForUser i u db)) = others_blockers u db"
    using ok unfolding others_blockers_def others_Delete
    by (auto simp: DeletePersonalCalendarForUser_def delete_rows_def owned_row_def ids_ok_def others_rows_def list_ex_iff
      distinct_map inj_on_def intro!: filter_cong)
  then show ?thesis using ok others_Delete [of u i db]
    by (auto simp: step_safe_def DeletePersonalCalendarForUser_def delete_rows_def ids_ok_def distinct_map_filter)
qed

lemma safe_Mark: "ids_ok db \<Longrightarrow> step_safe u db (MarkPersonalCalendarSynced i u now db)"
  using others_Mark [of u i now db]
  by (auto simp: step_safe_def others_blockers_def)
    (auto simp: MarkPersonalCalendarSynced_def ids_ok_def o_def if_distrib cong: if_cong)

lemma step_safe_trans: "step_safe u a b \<Longrightarrow> step_safe u b c \<Longrightarrow> step_safe u a c"
  by (simp add: step_safe_def)

lemma step_safe_step:
  assumes "personal_step u w w'" "ids_ok (wo_db w)" "u \<noteq> 0"
  shows "step_safe u (wo_db w) (wo_db w')"
  using assms(1)
proof (cases rule: personal_step.cases)
  case (create rq body a)
  have "kc_user (input_calendar rq b) = u" for b using create(1) by (simp add: input_calendar_def)
  then show ?thesis using create(2) safe_Insert [OF assms(2)] step_safe_refl [OF assms(2)]
    by (auto simp: personal_create_def split: option.splits if_splits prod.splits sum.splits) (metis fst_conv)+
next
  case (patch rq change a)
  have "step_safe u (wo_db w) db" if "UpdatePersonalCalendar box i (pq_user rq) nm url en (wo_db w) = (db, r)" for box i nm url en db r
    using safe_Update [OF assms(2), of u box i nm url en] that patch(1) by simp
  then show ?thesis using patch(2) step_safe_refl [OF assms(2)]
    by (auto simp: personal_patch_def split: option.splits if_splits prod.splits sum.splits)
next
  case (delete rq a)
  have "step_safe u (wo_db w) db" if "DeletePersonalCalendarForUser i (pq_user rq) (wo_db w) = (db, r)" for i db r
    using safe_Delete [OF assms(2), of u i] that delete(1) by simp
  then show ?thesis using delete(2) step_safe_refl [OF assms(2)]
    by (auto simp: personal_delete_def split: option.splits if_splits prod.splits)
next
  case (sync rq a)
  show ?thesis
  proof (cases "\<exists>i c. pq_id rq = Some i \<and> ownedCalendar rq i (wo_db w) = Some c")
    case False
    then show ?thesis using sync(4) step_safe_refl [OF assms(2)]
      by (auto simp: personal_sync_def split: option.splits)
  next
    case True
    then obtain i c where i: "pq_id rq = Some i" "ownedCalendar rq i (wo_db w) = Some c" by blast
    then obtain r where r: "find (\<lambda>r. kr_id r = i) (t_calendars (wo_db w)) = Some r" "scanPersonalCalendar (pq_box rq) r = c" "kc_user c = u"
      using sync(1) by (auto simp: ownedCalendar_def GetPersonalCalendar_def split: if_splits sum.splits option.splits)
    then have row: "r \<in> set (t_calendars (wo_db w))" "kr_id r = i" "kr_user r = Some u"
      using assms(3) by (auto simp: find_Some_iff scanPersonalCalendar_def Let_def split: option.splits)
    obtain w1 res where s: "Sync (pq_box rq) (pq_env rq) i (pq_deletes rq) (pq_creates rq) w = (w1, res)" by fastforce
    have "kc_id c = i" using r(2) row(2) by (auto simp: scanPersonalCalendar_def Let_def)
    then have same: "same_elsewhere i w w1"
      using s r same_sync [OF sync(2,3), of "pq_env rq" c w w1 res]
      by (auto simp: Sync_def get_calendar_def GetPersonalCalendar_def same_refl split: if_splits)
    then have safe1: "step_safe u (wo_db w) (wo_db w1)"
      using others_blockers_same [OF assms(2) same row] assms(2) by (auto simp: step_safe_def ids_ok_def same_elsewhere_def)
    then have "ids_ok (wo_db w1)" by (simp add: step_safe_def)
    then have "step_safe u (wo_db w) (MarkPersonalCalendarSynced i u now (wo_db w1))" for now
      using safe1 safe_Mark step_safe_trans by blast
    then show ?thesis using sync(1,4) safe1 i s
      by (auto simp: personal_sync_def Let_def split: sum.splits if_splits)
  qed
qed

text \<open>
  C18. Whatever a signed-in user asks of the routes of personal
  calendars, and in whatever order, the calendars of other users and the blockers of those calendars
  stay as they were.
\<close>

theorem personal_requests_keep_to_their_owner:
  assumes "ids_ok (wo_db w)" "u \<noteq> 0" "(personal_step u)\<^sup>*\<^sup>* w w'"
  shows "others_rows u (wo_db w') = others_rows u (wo_db w) \<and> others_blockers u (wo_db w') = others_blockers u (wo_db w)"
proof -
  have "step_safe u (wo_db w) (wo_db w')"
    using assms(3)
  proof (induction rule: rtranclp_induct)
    case base
    then show ?case by (rule step_safe_refl [OF assms(1)])
  next
    case (step v v')
    then show ?case using step_safe_step [OF step(2) _ assms(2)] by (metis step_safe_def)
  qed
  then show ?thesis by (simp add: step_safe_def)
qed

definition ex_row :: "nat \<Rightarrow> uuid \<Rightarrow> calendar_row" where
  "ex_row i u = \<lparr>kr_id = i, kr_user = Some u, kr_provider = ''webcal'', kr_name = ''Home'', kr_url = ''u'', kr_creds = '''',
     kr_enabled = True, kr_synced = None, kr_created = 0\<rparr>"

definition ex_personal_request :: "nat \<Rightarrow> personal_request" where
  "ex_personal_request i = \<lparr>pq_user = 7, pq_id = Some i, pq_box = \<lparr>bx_seal = (\<lambda>_ _ s. Inr s), bx_open = (\<lambda>_ _ s. Inr s)\<rparr>,
     pq_env = ex_blocker_env [ex_component ''noon'' 12], pq_fails = [], pq_deletes = in_order, pq_creates = in_order\<rparr>"

text \<open>The world after the calendar of the user was synced once; the other calendar is user nine's.\<close>

definition ex_synced_world :: blocker_world where
  "ex_synced_world = \<lparr>wo_db = \<lparr>t_calendars = [ex_row 1 7, ex_row 2 9],
     t_blockers = [new_row 0 1 1 ''noon'' ''a'', new_row 0 2 2 ''lunch'' ''b''], seq_calendars = 2, seq_blockers = 2\<rparr>,
     wo_settings = [], wo_events = [(''a'', empty_event), (''b'', empty_event)], wo_creates = 0\<rparr>"

text \<open>User seven asks to delete the calendar of user nine.\<close>

theorem personal_requests_keep_to_their_owner_witness:
  "others_rows 7 (wo_db (fst (personal_delete (ex_personal_request 2) ex_synced_world))) = [ex_row 2 9] \<and>
   map wb_work (others_blockers 7 (wo_db (fst (personal_delete (ex_personal_request 2) ex_synced_world)))) = [''b'']"
proof -
  let ?w = "fst (personal_delete (ex_personal_request 2) ex_synced_world)"
  have "personal_step 7 ex_synced_world ?w"
    by (rule delete [where rq = "ex_personal_request 2" and a = "snd (personal_delete (ex_personal_request 2) ex_synced_world)"])
      (simp_all add: ex_personal_request_def)
  then have "(personal_step 7)\<^sup>*\<^sup>* ex_synced_world ?w" by (rule r_into_rtranclp)
  moreover have "ids_ok (wo_db ex_synced_world)" by (simp add: ids_ok_def ex_synced_world_def ex_row_def)
  ultimately have "others_rows 7 (wo_db ?w) = others_rows 7 (wo_db ex_synced_world) \<and>
      others_blockers 7 (wo_db ?w) = others_blockers 7 (wo_db ex_synced_world)"
    using personal_requests_keep_to_their_owner by (metis zero_neq_numeral)
  moreover have "others_rows 7 (wo_db ex_synced_world) = [ex_row 2 9]" by (simp add: others_rows_def ex_synced_world_def ex_row_def)
  moreover have "map wb_work (others_blockers 7 (wo_db ex_synced_world)) = [''b'']"
    by (simp add: others_blockers_def others_rows_def ex_synced_world_def ex_row_def new_row_def)
  ultimately show ?thesis by simp
qed

text \<open>
  Deleting a personal calendar deletes the record of every blocker it
  has and touches none of their events: each stays in the work calendar, and nothing names it any more.
\<close>

theorem deleted_calendar_leaves_its_blockers:
  assumes "sound_world nm w" "pq_id rq = Some i" "personal_delete rq w = (w', PersonalAnswer 204 NoPersonalBody)"
    and "b \<in> set (ListPersonalBlockers (wo_db w) i)"
  shows "wb_work b \<in> fst ` set (wo_events w') \<and> wb_work b \<notin> wb_work ` set (t_blockers (wo_db w'))"
proof -
  have w': "w' = w\<lparr>wo_db := delete_rows (owned_row i (pq_user rq)) (wo_db w)\<rparr>" "list_ex (owned_row i (pq_user rq)) (t_calendars (wo_db w))"
    using assms(2,3) by (auto simp: personal_delete_def DeletePersonalCalendarForUser_def server_error_def bad_def split: if_splits)
  have b: "b \<in> set (t_blockers (wo_db w))" "wb_cal b = i" using assms(4) by (simp_all add: ListPersonalBlockers_def)
  have link: "mset (map wb_work (t_blockers (wo_db w))) = mset (map fst (wo_events w))" "distinct (map fst (wo_events w))"
    using assms(1) by (simp_all add: sound_world_def linked_def)
  have "set (map wb_work (t_blockers (wo_db w))) = set (map fst (wo_events w))" using link(1) by (rule mset_eq_setD)
  then have "wb_work b \<in> fst ` set (wo_events w')" using b(1) by (auto simp: w'(1))
  moreover have works: "distinct (map wb_work (t_blockers (wo_db w)))" using link by (metis mset_eq_imp_distinct_iff)
  have "\<not> b' \<in> set (t_blockers (wo_db w'))" if "b' \<in> set (t_blockers (wo_db w))" "wb_work b' = wb_work b" for b'
  proof -
    have "b' = b" using works that b(1) by (auto simp: distinct_map inj_on_def)
    then show ?thesis using w'(2) b(2) by (auto simp: w'(1) delete_rows_def list_ex_iff owned_row_def)
  qed
  moreover have "set (t_blockers (wo_db w')) \<subseteq> set (t_blockers (wo_db w))" by (auto simp: w'(1) delete_rows_def)
  ultimately show ?thesis by fastforce
qed

text \<open>User seven deletes the synced calendar.\<close>

theorem deleted_calendar_leaves_its_blockers_witness:
  "''a'' \<in> fst ` set (wo_events (fst (personal_delete (ex_personal_request 1) ex_synced_world))) \<and>
   ''a'' \<notin> wb_work ` set (t_blockers (wo_db (fst (personal_delete (ex_personal_request 1) ex_synced_world))))"
proof -
  let ?b = "new_row 0 1 1 ''noon'' ''a''"
  let ?w = "fst (personal_delete (ex_personal_request 1) ex_synced_world)"
  have sound: "sound_world (\<lambda>n. replicate (Suc (Suc n)) CHR ''c'') ex_synced_world"
    by (auto simp: sound_world_def blockers_ok_def linked_def fresh_ids_def ex_synced_world_def new_row_def)
  have i: "pq_id (ex_personal_request 1) = Some 1" by (simp add: ex_personal_request_def)
  have del: "personal_delete (ex_personal_request 1) ex_synced_world = (?w, PersonalAnswer 204 NoPersonalBody)"
    by (simp add: personal_delete_def ex_personal_request_def failing_def DeletePersonalCalendarForUser_def ex_synced_world_def owned_row_def ex_row_def)
  have "?b \<in> set (ListPersonalBlockers (wo_db ex_synced_world) 1)"
    by (simp add: ListPersonalBlockers_def ex_synced_world_def new_row_def)
  from deleted_calendar_leaves_its_blockers [OF sound i del this] have
    "wb_work ?b \<in> fst ` set (wo_events ?w) \<and> wb_work ?b \<notin> wb_work ` set (t_blockers (wo_db ?w))" .
  moreover have "wb_work ?b = ''a''" by (simp add: new_row_def)
  ultimately show ?thesis by (simp only: simp_thms)
qed

end
