(* ===== verification/Spec2Isabelle.thy ===== *)
theory Spec2Isabelle
  imports BookingFlow LinkHandlers FocusTime FocusCron Budget Users
    Lifecycle SmartSchedule Compression AutoDecline HabitHandlers TeamHandlers FreeBusy PersonalHandlers
begin

text \<open>
  \<^bold>\<open>A verification library for the Paceday backend\<close>

  The program (\<^verbatim>\<open>src/backend\<close>, Go) is a calendar assistant: people publish scheduling links that
  visitors book, the server places focus blocks and habits in a user's week, suggests and moves
  meetings, declines invitations and finds time for teams, and all of them share the calendar, the
  settings and the database. This library models the parts that carry the program's own
  logic and proves what makes them correct.

  \<^bold>\<open>The parts and their theories.\<close>

  \<^item> \<open>Prelude\<close>, \<open>GoText\<close>, \<open>Civil\<close>, \<open>GoTime\<close>, \<open>Rfc3339\<close>: what the sources use of Go. Results are
    sums with the error on the left, strings are byte strings, integers are unbounded where the
    code's values stay far from their limits, a \<^verbatim>\<open>time.Time\<close> is an instant in nanoseconds with its
    location, and a location is a base offset with its transitions. \<open>Civil\<close> and \<open>GoTime\<close> hold the
    calendar arithmetic of \<^verbatim>\<open>time.Date\<close>, of the accessors and of daylight-saving changes,
    \<open>Rfc3339\<close> the texts.
  \<^item> \<open>Intervals\<close> (\<^verbatim>\<open>engine/focus_time.go\<close>, \<^verbatim>\<open>booking.go\<close>, \<^verbatim>\<open>compression.go\<close>, \<^verbatim>\<open>habits.go\<close>): merging,
    subtracting and searching busy time.
  \<^item> \<open>Links\<close> (\<^verbatim>\<open>storage/scheduling_links.go\<close>), \<open>Users\<close> (\<^verbatim>\<open>storage/users.go\<close>), \<open>Settings\<close>
    (\<^verbatim>\<open>storage/settings.go\<close>), \<open>FocusStore\<close> (\<^verbatim>\<open>storage/focus_blocks.go\<close>, \<^verbatim>\<open>audit_log.go\<close>): the tables as
    lists of rows, one definition per query or statement. What the database supplies (fresh
    ids, its clock) is an argument.
  \<^item> \<open>CalendarEvents\<close>, \<open>Buffer\<close> (\<^verbatim>\<open>engine/buffer.go\<close>): the fields of a calendar event the engines
    read, and the busy time around meetings.
  \<^item> \<open>BookingWindow\<close> (\<^verbatim>\<open>engine/booking_window.go\<close>): a link's daily window, wall-clock resolution
    across daylight-saving changes, and the 15-minute grid.
  \<^item> \<open>Peritem\<close> (\<^verbatim>\<open>internal/peritem\<close>): the worker pool that reads many calendars at once.
  \<^item> \<open>Booking\<close> (\<^verbatim>\<open>engine/booking.go\<close>), \<open>BookingRule\<close> (\<^verbatim>\<open>api/booking_rule.go\<close>,
    \<^verbatim>\<open>api/handlers_booking.go\<close>), \<open>BookingFlow\<close>: the engine behind a booking, the offerable-start rule
    with the three public routes, and the properties that span them.
  \<^item> \<open>LinkHandlers\<close> (\<^verbatim>\<open>api/handlers_scheduling_links.go\<close>): the signed-in routes that create and
    change links and their co-hosts.
  \<^item> \<open>RateLimit\<close> (\<^verbatim>\<open>api/ratelimit_booking.go\<close>, \<^verbatim>\<open>ratelimit_detect.go\<close>): the two request limiters,
    interpretations of one locale.
  \<^item> \<open>Budget\<close> (\<^verbatim>\<open>internal/budget\<close>): the request budget, a race of handler and middleware.
  \<^item> \<open>FocusTime\<close> (\<^verbatim>\<open>engine/focus_time.go\<close>, \<^verbatim>\<open>focus_time_cleaner.go\<close>), \<open>FocusCron\<close>
    (\<^verbatim>\<open>scheduler/cron.go\<close>): placing a week's focus blocks, and the scheduler that runs it.
  \<^item> \<open>Stepping\<close>, \<open>SmartSchedule\<close> (\<^verbatim>\<open>engine/smart_schedule.go\<close>), \<open>Compression\<close> (\<^verbatim>\<open>engine/compression.go\<close>):
    ranking meeting times over the attendees' busy time, and moving meetings to enlarge the
    day's largest free slot, with the sharing of the trial's array.
  \<^item> \<open>HabitStore\<close> (\<^verbatim>\<open>storage/habits.go\<close>), \<open>Habits\<close> (\<^verbatim>\<open>engine/habits.go\<close>), \<open>HabitHandlers\<close>
    (\<^verbatim>\<open>api/handlers_habits.go\<close>): recurring habits; a day's run refines a greedy placement, an
    interpretation of the locale \<open>slot_chooser\<close>.
  \<^item> \<open>AutoDecline\<close> (\<^verbatim>\<open>engine/auto_decline.go\<close>): declining invitations outside working hours.
  \<^item> \<open>FreeBusy\<close> (\<^verbatim>\<open>engine/freebusy_service.go\<close>, \<^verbatim>\<open>api/handlers_freebusy.go\<close>): other people's busy
    time behind a cache.
  \<^item> \<open>PersonalCalendars\<close> (\<^verbatim>\<open>storage/personal_calendars.go\<close>, \<^verbatim>\<open>calendar/personal_reader.go\<close>,
    \<^verbatim>\<open>engine/personal_blocker.go\<close>), \<open>PersonalHandlers\<close> (\<^verbatim>\<open>api/handlers_personal.go\<close>): private calendars
    mirrored as blockers in the work calendar, and their routes.
  \<^item> \<open>TeamStore\<close> (\<^verbatim>\<open>storage/teams.go\<close>), \<open>TeamAvail\<close> (\<^verbatim>\<open>engine/team_availability.go\<close>), \<open>TeamHandlers\<close>
    (\<^verbatim>\<open>api/handlers_teams.go\<close>): teams, their members, invitations and no-meeting zones, the
    removal of members as interleaved transactions, and the slots a whole team is free for.
  \<^item> \<open>Lifecycle\<close> (\<^verbatim>\<open>internal/lifecycle\<close>): the units of background work and the shutdown that awaits
    them.

  \<^bold>\<open>How state and operations correspond.\<close> A handler is a function of the request, the server's
  state and the failures of the calls it makes to the new state and the answer; its branches
  are the code's conditions and early returns in their order. Concurrent code (the worker
  pool, the budget, the ticks of several scheduler processes, the shutdown, removals from a team) is a step relation whose steps
  are the code's atomic sections, with its invariants by rule induction. Calendars, the
  time-zone database and the cron parser are not in the sources: they are arguments, with what
  the code relies on as hypotheses of the theorems that need it.

  \<^bold>\<open>What is shown.\<close> Bookings: a saved booking was a slot the rule offers, an offered slot can be
  booked and is then in the table, sequences of requests never double-book a host, every refusal
  leaves the tables alone and names the first reason; the day's grid is given slot by slot and
  in order, and a wall time is resolved to the first instant that shows it. Links: validation
  yields well-formed links, slugs have a normal form, a created link is found again, co-hosts
  change by difference, and no requests of others change a link or other people's host rows.
  Intervals: merging is union, subtracting is the complement. Focus time: the blocks fit, add up
  and, while the target is not reached, leave no long enough free stretch untouched; a user whose
  schedules always have a next activation and whose zones have a constant offset gets no slot
  twice. Pool, limits and budget: bounded, ending, refining their sequential meaning; one answer
  per request. Suggestions, compression, habits, teams: what is proposed or placed is free, lies in
  its window and apart, and the best is not left out; zones set over the API reach the search.
  Automatic decline: exactly the due invitations are declined, and the window's search returns.
  Personal calendars: no record is ever without its event; when the calls that are made succeed
  and event ids differ, a sync leaves exactly the blockers it should and a second one changes
  nothing; requests keep to their owner's calendars. Teams keep an owner, over any sequence of
  requests and any interleaving of removals. Background work: the idle channel is closed exactly
  while nothing runs.

  Some theorems show what the code does not guarantee: interleaved requests can double-book, a
  second focus run overlaps the first, a slot in a spring gap and a schedule without activations
  run at every tick, an owner can lose their own link, a blank name panics, a habit is driven
  away by its own event and cannot be changed without both window fields, a cached answer is
  given for another range, a trial move corrupts the day it tries or leaves the working hours
  over an early lunch, a clean shutdown can leave work behind, a team can be created without an
  owner, a blocker whose deletion is cut or whose event shares an id stays for ever, events on
  another date in UTC get no blocker, and a deleted calendar leaves its blockers.

  \<^bold>\<open>Bounds and fuel.\<close> No loop of the model needs fuel: the loops of the sources run over lists
  or bounded ranges (the grid's minutes, ten slug attempts, five days) and are structural
  recursions or folds, or step towards an end by a fixed amount (\<open>Stepping\<close>, a function with a
  measure); the worker pool's end is proved with a measure. The one loop without a bound of its
  own, the end of the decline window, is a partial function whose return is a theorem. Integers are \<^typ>\<open>int\<close>:
  minutes, days and counts come from validated input or table columns, and the one duration
  that saturates in Go (\<^verbatim>\<open>Time.Sub\<close>) is modelled with its limits where it is compared.

  \<^bold>\<open>Not modelled.\<close> JSON encoding, HTTP headers, SMTP, logging and error reporting; SQL itself (each
  statement is its effect on the rows); calendar, conferencing, identity and language-model
  clients; cryptography; generated types. Text outside ASCII is not case-folded.
  Analytics, the manager's view, recaps and the settings routes are report
  assembly or thin handlers over operations modelled here. A \<^verbatim>\<open>TIME\<close> column reads back with seconds
  and a \<^verbatim>\<open>DATE\<close> scanned into a string as RFC 3339 text: these are facts of the driver, recorded in
  the sources' tests and comments, and definitions of the model (\<open>time_column\<close>, \<open>date_column\<close>).
\<close>

end
